(* ===== verification/Agent_Prelude.thy ===== *)
theory Agent_Prelude
  imports Main "HOL-Library.Word" "HOL-Library.Sublist"
begin

section \<open>Prelude: strings, the C library, outcomes and effects\<close>

text \<open>
  What every component shares.  A \<open>std::string\<close> (and, in the Linux build,
  \<open>utility::string_t\<close>, which is the same type) is a list of 8-bit characters.
  The members of \<open>std::string\<close> and the functions of the C library that the sources call are
  written out here, as their standards define them.  A computation of the agent is a
  function from a state to an outcome and a state; the outcome is a value, a C++ exception,
  undefined behaviour reached, or no return at all.
\<close>

named_theorems effect_simps \<open>rewrite rules that run the effects of the agent\<close>
named_theorems string_simps \<open>rewrite rules of the string operations\<close>

subsection \<open>Members of std::string\<close>

type_synonym cstring = "char list"

abbreviation NUL :: char where "NUL \<equiv> CHR 0x00"
abbreviation CR :: char where "CR \<equiv> CHR 0x0D"
abbreviation LF :: char where "LF \<equiv> CHR 0x0A"

text \<open>\<open>find_first_of\<close> and \<open>find_last_of\<close> for one character; \<open>npos\<close> is \<open>None\<close>.\<close>

fun find_first_of :: "char \<Rightarrow> cstring \<Rightarrow> nat option" where
  "find_first_of c [] = None"
| "find_first_of c (x # xs) =
     (if x = c then Some 0 else map_option Suc (find_first_of c xs))"

fun find_last_of :: "char \<Rightarrow> cstring \<Rightarrow> nat option" where
  "find_last_of c [] = None"
| "find_last_of c (x # xs) =
     (case find_last_of c xs of Some i \<Rightarrow> Some (Suc i)
      | None \<Rightarrow> if x = c then Some 0 else None)"

text \<open>\<open>s.substr(0, pos)\<close> where \<open>pos\<close> may be \<open>npos\<close>.\<close>

definition substr_upto :: "cstring \<Rightarrow> nat option \<Rightarrow> cstring" where
  "substr_upto s pos = (case pos of None \<Rightarrow> s | Some i \<Rightarrow> take i s)"

text \<open>\<open>s.substr(pos + 1)\<close>; \<open>npos + 1\<close> is 0.\<close>

definition substr_after :: "cstring \<Rightarrow> nat option \<Rightarrow> cstring" where
  "substr_after s pos = (case pos of None \<Rightarrow> s | Some i \<Rightarrow> drop (Suc i) s)"

text \<open>The C string a \<open>const char *\<close> into the characters \<open>s\<close> denotes: up to the first zero.\<close>

definition c_str :: "cstring \<Rightarrow> cstring" where
  "c_str s = takeWhile (\<lambda>c. c \<noteq> NUL) s"

text \<open>\<open>s.find(p) != npos\<close>: \<open>p\<close> occurs in \<open>s\<close>.\<close>

fun occurs_in :: "cstring \<Rightarrow> cstring \<Rightarrow> bool" where
  "occurs_in p [] \<longleftrightarrow> p = []"
| "occurs_in p (x # xs) \<longleftrightarrow> prefix p (x # xs) \<or> occurs_in p xs"

text \<open>
  \<open>while (std::getline(ss, item, d)) v.push_back(item)\<close> over the characters \<open>s\<close>: a last item
  that is empty is not delivered.
\<close>

fun getline_items :: "char \<Rightarrow> cstring \<Rightarrow> cstring \<Rightarrow> cstring list" where
  "getline_items d [] acc = (if acc = [] then [] else [acc])"
| "getline_items d (x # xs) acc =
     (if x = d then acc # getline_items d xs [] else getline_items d xs (acc @ [x]))"

text \<open>The first line \<open>std::getline(is, line)\<close> reads.\<close>

definition first_line :: "cstring \<Rightarrow> cstring" where
  "first_line s = takeWhile (\<lambda>c. c \<noteq> LF) s"

text \<open>\<open>isspace\<close> in the C locale, and what \<open>is >> word\<close> reads.\<close>

definition is_space :: "char \<Rightarrow> bool" where
  "is_space c \<longleftrightarrow> c \<in> {CHR '' '', CHR 0x09, LF, CHR 0x0B, CHR 0x0C, CR}"

definition extract_word :: "cstring \<Rightarrow> cstring" where
  "extract_word s = takeWhile (\<lambda>c. \<not> is_space c) (dropWhile is_space s)"

lemma takeWhile_all: "\<forall>x \<in> set xs. P x \<Longrightarrow> takeWhile P xs = xs"
  by (simp add: takeWhile_eq_all_conv)

lemma find_last_of_None [string_simps]: "find_last_of c s = None \<longleftrightarrow> c \<notin> set s"
  by (induction s) (auto split: option.splits)

lemma find_last_of_SomeD:
  "find_last_of c s = Some i \<Longrightarrow>
     i < length s \<and> s ! i = c \<and> c \<notin> set (drop (Suc i) s)"
proof (induction s arbitrary: i)
  case Nil
  then show ?case by simp
next
  case (Cons x xs)
  then show ?case
    by (cases "find_last_of c xs")
      (auto simp: find_last_of_None split: if_splits)
qed

lemma find_first_of_SomeD:
  "find_first_of c s = Some i \<Longrightarrow>
     i < length s \<and> s ! i = c \<and> c \<notin> set (take i s)"
  by (induction s arbitrary: i) (auto split: if_splits)

lemma find_first_of_None [string_simps]: "find_first_of c s = None \<longleftrightarrow> c \<notin> set s"
  by (induction s) auto

lemma substr_upto_first: "substr_upto s (find_first_of c s) = takeWhile (\<lambda>x. x \<noteq> c) s"
proof (induction s)
  case Nil
  then show ?case by (simp add: substr_upto_def)
next
  case (Cons x xs)
  then show ?case
    by (cases "find_first_of c xs") (auto simp: substr_upto_def)
qed

lemma substr_after_last_fresh: "c \<notin> set (substr_after s (find_last_of c s))"
proof (cases "find_last_of c s")
  case None
  then have "c \<notin> set s" by (simp add: find_last_of_None)
  then show ?thesis unfolding None by (simp add: substr_after_def)
next
  case (Some i)
  then show ?thesis by (simp add: substr_after_def find_last_of_SomeD)
qed

lemma occurs_in_sublist: "occurs_in p s \<longleftrightarrow> sublist p s"
  by (induction s) (auto simp: sublist_Cons_right)

lemma c_str_prefix: "prefix (c_str s) s"
  by (metis c_str_def prefixI takeWhile_dropWhile_id)

lemma c_str_no_NUL [simp]: "NUL \<notin> set (c_str s)"
  by (auto simp: c_str_def dest: set_takeWhileD)

lemma c_str_id [simp]: "NUL \<notin> set s \<Longrightarrow> c_str s = s"
  by (auto simp: c_str_def takeWhile_eq_all_conv)

lemma extract_word_id:
  "s \<noteq> [] \<Longrightarrow> \<forall>c \<in> set s. \<not> is_space c \<Longrightarrow> extract_word s = s"
  by (cases s) (auto simp: extract_word_def takeWhile_eq_all_conv)

lemma extract_word_no_space: "c \<in> set (extract_word s) \<Longrightarrow> \<not> is_space c"
  by (auto simp: extract_word_def dest: set_takeWhileD)

subsection \<open>Numbers and text\<close>

text \<open>\<open>%d\<close> and \<open>std::to_string\<close>.\<close>

fun show_nat :: "nat \<Rightarrow> cstring" where
  "show_nat n = (if n < 10 then [char_of (48 + n)]
                 else show_nat (n div 10) @ [char_of (48 + n mod 10)])"

declare show_nat.simps [simp del]

definition show_int :: "int \<Rightarrow> cstring" where
  "show_int i = (if i < 0 then ''-'' @ show_nat (nat (- i)) else show_nat (nat i))"

definition is_digit :: "char \<Rightarrow> bool" where
  "is_digit c \<longleftrightarrow> 48 \<le> (of_char c :: nat) \<and> (of_char c :: nat) \<le> 57"

definition digit_value :: "char \<Rightarrow> nat" where
  "digit_value c = of_char c - 48"

fun digits_value :: "nat \<Rightarrow> cstring \<Rightarrow> nat" where
  "digits_value n [] = n"
| "digits_value n (c # cs) = digits_value (10 * n + digit_value c) cs"

text \<open>
  The number \<open>strtol(s, 0, 10)\<close> reads, before it is clamped: white space, one sign, digits;
  no digits read as 0.
\<close>

definition strtol_value :: "cstring \<Rightarrow> int" where
  "strtol_value s =
     (let t = dropWhile is_space (c_str s);
          neg = (t \<noteq> [] \<and> hd t = CHR ''-'');
          u = (if t \<noteq> [] \<and> (hd t = CHR ''-'' \<or> hd t = CHR ''+'') then tl t else t);
          v = int (digits_value 0 (takeWhile is_digit u))
      in if neg then - v else v)"

text \<open>
  \<open>atol\<close> on a 64-bit \<open>long\<close> is \<open>strtol\<close> clamped at its ends, and \<open>atoi\<close> is that
  result converted to a 32-bit \<open>int\<close> (glibc; the C standard leaves out-of-range text
  undefined).
\<close>

definition c_atol :: "cstring \<Rightarrow> int" where
  "c_atol s = max (- (2 ^ 63)) (min (2 ^ 63 - 1) (strtol_value s))"

definition c_atoi :: "cstring \<Rightarrow> int" where
  "c_atoi s = sint (word_of_int (c_atol s) :: 32 word)"

lemma show_nat_digits: "\<forall>c \<in> set (show_nat n). is_digit c"
proof (induction n rule: show_nat.induct)
  case (1 n)
  then show ?case
    by (subst show_nat.simps) (auto simp: is_digit_def)
qed

lemma show_nat_nonempty [simp]: "show_nat n \<noteq> []"
  by (subst show_nat.simps) simp

lemma length_show_nat_ge: "1 \<le> length (show_nat n)"
  by (cases "show_nat n") auto

lemma length_show_nat_le:
  "n < 10 ^ Suc k \<Longrightarrow> length (show_nat n) \<le> Suc k"
proof (induction k arbitrary: n)
  case 0
  then show ?case by (subst show_nat.simps) simp
next
  case (Suc k)
  from Suc.prems have "n div 10 < 10 ^ Suc k" by (simp add: div_less_iff_less_mult)
  with Suc.IH have "length (show_nat (n div 10)) \<le> Suc k" by blast
  then show ?case by (subst show_nat.simps) simp
qed

lemma digits_value_append:
  "digits_value n (cs @ ds) = digits_value (digits_value n cs) ds"
  by (induction cs arbitrary: n) auto

lemma digit_value_char_of: "d < 10 \<Longrightarrow> digit_value (char_of (48 + d)) = d"
  by (simp add: digit_value_def)

lemma digits_value_show_nat: "digits_value 0 (show_nat n) = n"
proof (induction n rule: show_nat.induct)
  case (1 n)
  then show ?case
    by (subst show_nat.simps)
      (auto simp: digits_value_append digit_value_char_of)
qed

lemma is_digit_not_space: "is_digit c \<Longrightarrow> \<not> is_space c"
  by (auto simp: is_digit_def is_space_def)

lemma is_digit_no_sign: "is_digit c \<Longrightarrow> c \<noteq> CHR ''-'' \<and> c \<noteq> CHR ''+'' \<and> c \<noteq> NUL"
  by (auto simp: is_digit_def)

lemma takeWhile_show_nat [simp]: "takeWhile is_digit (show_nat n) = show_nat n"
  using show_nat_digits [of n] by (simp add: takeWhile_eq_all_conv)

text \<open>Reading a printed number back: \<open>strtol\<close> inverts \<open>%d\<close>.\<close>

lemma strtol_show_nat: "strtol_value (show_nat n) = int n"
proof -
  obtain c cs where eq: "show_nat n = c # cs" by (cases "show_nat n") auto
  then have dig: "is_digit c" and all: "\<forall>x \<in> set (show_nat n). is_digit x"
    using show_nat_digits [of n] by auto
  then have "NUL \<notin> set (show_nat n)"
    using is_digit_no_sign by blast
  then show ?thesis
    using eq dig all is_digit_not_space [OF dig] is_digit_no_sign [OF dig]
      digits_value_show_nat [of n]
    by (simp add: strtol_value_def Let_def takeWhile_all)
qed

lemma strtol_show_int: "strtol_value (show_int i) = i"
proof (cases "i < 0")
  case True
  have "NUL \<notin> set (show_nat (nat (- i)))"
    using show_nat_digits [of "nat (- i)"] is_digit_no_sign by blast
  with True show ?thesis
    by (simp add: show_int_def strtol_value_def Let_def is_space_def digits_value_show_nat)
next
  case False
  then show ?thesis by (simp add: show_int_def strtol_show_nat)
qed

lemma c_atoi_small:
  "- (2 ^ 31) \<le> strtol_value s \<Longrightarrow> strtol_value s < 2 ^ 31 \<Longrightarrow> c_atoi s = strtol_value s"
  by (simp add: c_atoi_def c_atol_def sint_sbintrunc' signed_take_bit_int_eq_self)

lemma c_atol_small:
  "- (2 ^ 63) \<le> strtol_value s \<Longrightarrow> strtol_value s < 2 ^ 63 \<Longrightarrow> c_atol s = strtol_value s"
  by (simp add: c_atol_def)

lemma length_show_int_32:
  assumes "- (2 ^ 31) \<le> i" "i < 2 ^ 31"
  shows "length (show_int i) \<le> 11"
proof (cases "i < 0")
  case True
  with assms have "nat (- i) < 10 ^ Suc 9" by simp
  then have "length (show_nat (nat (- i))) \<le> Suc 9" by (rule length_show_nat_le)
  with True show ?thesis by (simp add: show_int_def)
next
  case False
  with assms have "nat i < 10 ^ Suc 9" by simp
  then have "length (show_nat (nat i)) \<le> Suc 9" by (rule length_show_nat_le)
  with False show ?thesis by (simp add: show_int_def)
qed

end
