(* ===== verification/Agent_Effects.thy ===== *)
theory Agent_Effects
  imports Agent_Prelude
begin

section \<open>Outcomes, exceptions and effects\<close>

text \<open>
  The exceptions the sources throw or catch.  \<open>boost::process::process_error\<close> derives from
  \<open>std::system_error\<close> and so from \<open>std::runtime_error\<close>; \<open>web::http::http_exception\<close> and
  \<open>web::json::json_exception\<close> derive from \<open>std::exception\<close> only.
\<close>

datatype cpp_exn =
    Process_Error cstring
  | Runtime_Error cstring
  | Http_Exception int cstring
  | Json_Exception cstring
  | Other_Exception cstring

fun what :: "cpp_exn \<Rightarrow> cstring" where
  "what (Process_Error s) = s"
| "what (Runtime_Error s) = s"
| "what (Http_Exception c s) = s"
| "what (Json_Exception s) = s"
| "what (Other_Exception s) = s"

text \<open>Where the C++ has undefined behaviour, the model stops and says which.\<close>

datatype ub = Out_Of_Range | Indeterminate_Value | Buffer_Overflow | Integer_Overflow | Missing_Return
  | Null_Pointer

datatype failure = Thrown cpp_exn | Undefined ub | No_Return

type_synonym 'a outcome = "failure + 'a"

type_synonym ('w, 'a) act = "'w \<Rightarrow> 'a outcome \<times> 'w"

definition retA :: "'a \<Rightarrow> ('w, 'a) act" where
  "retA a w = (Inr a, w)"

definition failA :: "failure \<Rightarrow> ('w, 'a) act" where
  "failA f w = (Inl f, w)"

definition throwA :: "cpp_exn \<Rightarrow> ('w, 'a) act" where
  "throwA e = failA (Thrown e)"

definition bindA :: "('w, 'a) act \<Rightarrow> ('a \<Rightarrow> ('w, 'b) act) \<Rightarrow> ('w, 'b) act" where
  "bindA m k w = (case m w of (Inl f, w') \<Rightarrow> (Inl f, w') | (Inr a, w') \<Rightarrow> k a w')"

definition thenA :: "('w, 'a) act \<Rightarrow> ('w, 'b) act \<Rightarrow> ('w, 'b) act" where
  "thenA m k = bindA m (\<lambda>_. k)"

definition readA :: "('w \<Rightarrow> 'a) \<Rightarrow> ('w, 'a) act" where
  "readA f w = (Inr (f w), w)"

definition modifyA :: "('w \<Rightarrow> 'w) \<Rightarrow> ('w, unit) act" where
  "modifyA f w = (Inr (), f w)"

definition liftA :: "'a outcome \<Rightarrow> ('w, 'a) act" where
  "liftA r w = (r, w)"

text \<open>A call of a library that returns or throws.\<close>

definition tryA :: "cpp_exn + 'a \<Rightarrow> ('w, 'a) act" where
  "tryA r = (case r of Inl e \<Rightarrow> throwA e | Inr a \<Rightarrow> retA a)"

text \<open>\<open>*p\<close> and \<open>p->\<close> of a pointer that may be null.\<close>

definition deref :: "'a option \<Rightarrow> ('w, 'a) act" where
  "deref p = (case p of None \<Rightarrow> failA (Undefined Null_Pointer) | Some a \<Rightarrow> retA a)"

text \<open>A \<open>try\<close> block: only a thrown exception reaches the handler.\<close>

definition catchA :: "('w, 'a) act \<Rightarrow> (cpp_exn \<Rightarrow> ('w, 'a) act) \<Rightarrow> ('w, 'a) act" where
  "catchA m h w = (case m w of (Inl (Thrown e), w') \<Rightarrow> h e w' | r \<Rightarrow> r)"

text \<open>Statements in sequence.\<close>

fun seqA :: "('w, unit) act list \<Rightarrow> ('w, unit) act" where
  "seqA [] = retA ()"
| "seqA (m # ms) = thenA m (seqA ms)"

subsection \<open>Weakest preconditions\<close>

text \<open>
  \<open>wp m Q E w\<close>: run from \<open>w\<close>, the action \<open>m\<close> ends normally with \<open>Q\<close> or fails with \<open>E\<close>.
  The rules below compute it by rewriting, so that a property of a handler is one \<open>simp\<close>.
\<close>

definition wp :: "('w, 'a) act \<Rightarrow> ('a \<Rightarrow> 'w \<Rightarrow> bool) \<Rightarrow> (failure \<Rightarrow> 'w \<Rightarrow> bool) \<Rightarrow> 'w \<Rightarrow> bool" where
  "wp m Q E w = (case m w of (Inl f, w') \<Rightarrow> E f w' | (Inr a, w') \<Rightarrow> Q a w')"

lemma wp_retA [effect_simps]: "wp (retA a) Q E w = Q a w"
  by (simp add: wp_def retA_def)

lemma wp_failA [effect_simps]: "wp (failA f) Q E w = E f w"
  by (simp add: wp_def failA_def)

lemma wp_throwA [effect_simps]: "wp (throwA e) Q E w = E (Thrown e) w"
  by (simp add: throwA_def wp_failA)

lemma wp_bindA [effect_simps]: "wp (bindA m k) Q E w = wp m (\<lambda>a w'. wp (k a) Q E w') E w"
  by (simp add: wp_def bindA_def split: prod.split sum.split)

lemma wp_thenA [effect_simps]: "wp (thenA m k) Q E w = wp m (\<lambda>_ w'. wp k Q E w') E w"
  by (simp add: thenA_def wp_bindA)

lemma wp_readA [effect_simps]: "wp (readA f) Q E w = Q (f w) w"
  by (simp add: wp_def readA_def)

lemma wp_modifyA [effect_simps]: "wp (modifyA f) Q E w = Q () (f w)"
  by (simp add: wp_def modifyA_def)

lemma wp_liftA [effect_simps]:
  "wp (liftA r) Q E w = (case r of Inl f \<Rightarrow> E f w | Inr a \<Rightarrow> Q a w)"
  by (simp add: wp_def liftA_def split: sum.split)

lemma wp_tryA [effect_simps]:
  "wp (tryA r) Q E w = (case r of Inl e \<Rightarrow> E (Thrown e) w | Inr a \<Rightarrow> Q a w)"
  by (simp add: tryA_def wp_throwA wp_retA split: sum.split)

lemma wp_deref [effect_simps]:
  "wp (deref p) Q E w = (case p of None \<Rightarrow> E (Undefined Null_Pointer) w | Some a \<Rightarrow> Q a w)"
  by (simp add: deref_def wp_failA wp_retA split: option.split)

lemma wp_catchA [effect_simps]:
  "wp (catchA m h) Q E w =
     wp m Q (\<lambda>f w'. case f of Thrown e \<Rightarrow> wp (h e) Q E w' | _ \<Rightarrow> E f w') w"
  by (simp add: wp_def catchA_def split: prod.split sum.split failure.split)

lemma wp_seqA_Nil [effect_simps]: "wp (seqA []) Q E w = Q () w"
  by (simp add: wp_retA)

lemma wp_seqA_Cons [effect_simps]:
  "wp (seqA (m # ms)) Q E w = wp m (\<lambda>_ w'. wp (seqA ms) Q E w') E w"
  by (simp add: wp_thenA)

lemma wp_if [effect_simps]:
  "wp (if b then m else n) Q E w = (if b then wp m Q E w else wp n Q E w)"
  by simp

lemma wp_case_option [effect_simps]:
  "wp (case x of None \<Rightarrow> m | Some y \<Rightarrow> n y) Q E w =
     (case x of None \<Rightarrow> wp m Q E w | Some y \<Rightarrow> wp (n y) Q E w)"
  by (simp split: option.split)

lemma bindA_retA: "bindA (retA a) k = k a"
  by (simp add: bindA_def retA_def fun_eq_iff)

lemma bindA_readA: "bindA (readA g) k w = k (g w) w"
  by (simp add: bindA_def readA_def)

lemma thenA_modifyA: "thenA (modifyA f) k w = k (f w)"
  by (simp add: thenA_def bindA_def modifyA_def)

lemma thenA_run: "m w = (Inr a, w') \<Longrightarrow> thenA m k w = k w'"
  by (simp add: thenA_def bindA_def)

lemma thenA_retA: "thenA (retA a) k = k"
  by (simp add: thenA_def bindA_retA)

text \<open>Consequence, and the reading of \<open>wp\<close> as a statement about the result.\<close>

lemma wp_mono:
  assumes "wp m Q E w"
    and "\<And>a w'. Q a w' \<Longrightarrow> Q' a w'" and "\<And>f w'. E f w' \<Longrightarrow> E' f w'"
  shows "wp m Q' E' w"
  using assms by (auto simp: wp_def split: prod.splits sum.splits)

lemma wp_conj:
  "wp m Q E w \<Longrightarrow> wp m Q' E' w \<Longrightarrow>
     wp m (\<lambda>a w'. Q a w' \<and> Q' a w') (\<lambda>f w'. E f w' \<and> E' f w') w"
  by (auto simp: wp_def split: prod.splits sum.splits)

lemma wp_InrD: "wp m Q E w \<Longrightarrow> m w = (Inr a, w') \<Longrightarrow> Q a w'"
  by (simp add: wp_def)

lemma wp_InlD: "wp m Q E w \<Longrightarrow> m w = (Inl f, w') \<Longrightarrow> E f w'"
  by (simp add: wp_def)

lemma wp_resultD:
  "wp m Q E w \<Longrightarrow> m w = (r, w') \<Longrightarrow> (case r of Inl f \<Rightarrow> E f w' | Inr a \<Rightarrow> Q a w')"
  by (simp add: wp_def split: sum.splits)

text \<open>The result alone, computed by the rules for \<open>wp\<close>.\<close>

lemma fst_iff_wp: "fst (m w) = r \<longleftrightarrow> wp m (\<lambda>a _. r = Inr a) (\<lambda>f _. r = Inl f) w"
  by (cases "m w"; cases "fst (m w)") (auto simp: wp_def)

text \<open>However it ends.\<close>

lemma wp_snd: "wp m (\<lambda>_. P) (\<lambda>_. P) w \<longleftrightarrow> P (snd (m w))"
  by (cases "m w"; cases "fst (m w)") (auto simp: wp_def)

subsection \<open>Frames and results\<close>

text \<open>
  \<open>keeps f m\<close>: \<open>m\<close> leaves the part \<open>f\<close> of the state as it was.  \<open>yields P m\<close>: a value
  \<open>m\<close> returns satisfies \<open>P\<close>.  \<open>only_throws m\<close>: \<open>m\<close> returns or throws; it neither
  reaches undefined behaviour nor runs forever.
\<close>

definition keeps :: "('w \<Rightarrow> 'b) \<Rightarrow> ('w, 'a) act \<Rightarrow> bool" where
  "keeps f m \<longleftrightarrow> (\<forall>w. f (snd (m w)) = f w)"

definition yields :: "('a \<Rightarrow> bool) \<Rightarrow> ('w, 'a) act \<Rightarrow> bool" where
  "yields P m \<longleftrightarrow> (\<forall>w a. fst (m w) = Inr a \<longrightarrow> P a)"

definition only_throws :: "('w, 'a) act \<Rightarrow> bool" where
  "only_throws m \<longleftrightarrow> (\<forall>w f. fst (m w) = Inl f \<longrightarrow> (\<exists>e. f = Thrown e))"

named_theorems frame_intros \<open>introduction rules for keeps, yields and only_throws\<close>

lemma keeps_bindA [frame_intros]:
  "keeps f m \<Longrightarrow> (\<And>a. keeps f (k a)) \<Longrightarrow> keeps f (bindA m k)"
  by (auto simp: keeps_def bindA_def split: prod.split sum.split) (metis snd_conv)+

lemma keeps_thenA [frame_intros]: "keeps f m \<Longrightarrow> keeps f k \<Longrightarrow> keeps f (thenA m k)"
  unfolding thenA_def by (intro frame_intros)

lemma keeps_catchA [frame_intros]:
  "keeps f m \<Longrightarrow> (\<And>e. keeps f (h e)) \<Longrightarrow> keeps f (catchA m h)"
  by (auto simp: keeps_def catchA_def split: prod.split sum.split failure.split)
    (metis snd_conv)+

lemma keeps_simple [frame_intros]:
  "keeps f (retA a)" "keeps f (failA x)" "keeps f (throwA e)" "keeps f (readA g)"
  "keeps f (liftA r)"
  by (simp_all add: keeps_def retA_def failA_def throwA_def readA_def liftA_def)

lemma keeps_tryA [frame_intros]: "keeps f (tryA r)"
  by (cases r) (simp_all add: tryA_def frame_intros)

lemma keeps_deref [frame_intros]: "keeps f (deref p)"
  by (cases p) (simp_all add: deref_def frame_intros)

lemma keeps_modifyA: "(\<And>w. f (g w) = f w) \<Longrightarrow> keeps f (modifyA g)"
  by (simp add: keeps_def modifyA_def)

lemma keeps_seqA [frame_intros]:
  "keeps f (seqA [])"
  "keeps f m \<Longrightarrow> keeps f (seqA ms) \<Longrightarrow> keeps f (seqA (m # ms))"
  by (simp_all add: frame_intros)

lemma keeps_if [frame_intros]: "keeps f m \<Longrightarrow> keeps f n \<Longrightarrow> keeps f (if b then m else n)"
  by simp

lemma keeps_case_option [frame_intros]:
  "keeps f m \<Longrightarrow> (\<And>y. keeps f (n y)) \<Longrightarrow> keeps f (case x of None \<Rightarrow> m | Some y \<Rightarrow> n y)"
  by (cases x) auto

lemma keepsD: "keeps f m \<Longrightarrow> m w = (r, w') \<Longrightarrow> f w' = f w"
  by (metis keeps_def snd_conv)

text \<open>Consequence from a frame.\<close>

lemma wp_keeps:
  assumes "keeps g m"
    and "\<And>a w'. g w' = g w \<Longrightarrow> Q a w'" and "\<And>f w'. g w' = g w \<Longrightarrow> E f w'"
  shows "wp m Q E w"
proof -
  obtain r w' where run: "m w = (r, w')" by fastforce
  with keepsD [OF assms(1) run] assms(2,3) show ?thesis
    by (simp add: wp_def split: sum.split)
qed

lemma yields_bindA [frame_intros]:
  "(\<And>a. yields P (k a)) \<Longrightarrow> yields P (bindA m k)"
  by (auto simp: yields_def bindA_def split: prod.splits sum.splits)

lemma yields_bindA_from:
  "yields R m \<Longrightarrow> (\<And>a. R a \<Longrightarrow> yields P (k a)) \<Longrightarrow> yields P (bindA m k)"
  by (auto simp: yields_def bindA_def split: prod.splits sum.splits) (metis fst_conv)

lemma yields_thenA [frame_intros]: "yields P k \<Longrightarrow> yields P (thenA m k)"
  unfolding thenA_def by (rule yields_bindA)

lemma yields_simple [frame_intros]:
  "yields P (failA x)" "yields P (throwA e)" "P a \<Longrightarrow> yields P (retA a)"
  by (simp_all add: yields_def retA_def failA_def throwA_def)

lemma yieldsD: "yields P m \<Longrightarrow> m w = (Inr a, w') \<Longrightarrow> P a"
  by (metis yields_def fst_conv)

lemma only_throws_bindA [frame_intros]:
  "only_throws m \<Longrightarrow> (\<And>a. only_throws (k a)) \<Longrightarrow> only_throws (bindA m k)"
  by (auto simp: only_throws_def bindA_def split: prod.splits sum.splits) (metis fst_conv)+

lemma only_throws_thenA [frame_intros]:
  "only_throws m \<Longrightarrow> only_throws k \<Longrightarrow> only_throws (thenA m k)"
  unfolding thenA_def by (intro frame_intros)

lemma only_throws_simple [frame_intros]:
  "only_throws (retA a)" "only_throws (throwA e)" "only_throws (readA g)"
  "only_throws (modifyA h)"
  by (simp_all add: only_throws_def retA_def failA_def throwA_def readA_def modifyA_def)

lemma only_throws_tryA [frame_intros]: "only_throws (tryA r)"
  by (cases r) (simp_all add: tryA_def frame_intros)

lemma only_throws_if [frame_intros]:
  "only_throws m \<Longrightarrow> only_throws n \<Longrightarrow> only_throws (if b then m else n)"
  by simp

lemma only_throws_case_option [frame_intros]:
  "only_throws m \<Longrightarrow> (\<And>y. only_throws (n y)) \<Longrightarrow>
     only_throws (case x of None \<Rightarrow> m | Some y \<Rightarrow> n y)"
  by (cases x) auto

text \<open>With a handler that always returns, a \<open>try\<close> block returns.\<close>

lemma catchA_returns:
  assumes "only_throws m" and "\<And>e w. \<exists>a w'. h e w = (Inr a, w')"
  shows "\<exists>a w'. catchA m h w = (Inr a, w')"
proof (cases "m w")
  case (Pair r w1)
  show ?thesis
  proof (cases r)
    case (Inl f)
    with assms(1) Pair obtain e where "f = Thrown e"
      unfolding only_throws_def by (metis fst_conv)
    with Pair Inl assms(2) show ?thesis by (simp add: catchA_def)
  next
    case (Inr a)
    with Pair show ?thesis by (simp add: catchA_def)
  qed
qed

subsection \<open>The trace log\<close>

text \<open>
  \<open>LOGGER::instance()->write(level, ...)\<close> of \<open>tracer/tracer.h\<close>, reached by the macros
  \<open>INFO_LOG\<close> to \<open>CRITICAL_LOG\<close>: every state below extends \<open>logged\<close>, whose \<open>log\<close> is what was
  written, oldest first.
\<close>

datatype log_level = Trace | Debug | Info | Error | Critical

record logged =
  log :: "(log_level \<times> cstring) list"

definition write_log :: "log_level \<Rightarrow> cstring \<Rightarrow> ('z logged_scheme, unit) act" where
  "write_log l s = modifyA (\<lambda>w. w\<lparr>log := log w @ [(l, s)]\<rparr>)"

text \<open>Levels are ordered by severity, as \<open>eP7Trace_Level\<close> is.\<close>

fun severity :: "log_level \<Rightarrow> nat" where
  "severity Trace = 0"
| "severity Debug = 1"
| "severity Info = 2"
| "severity Error = 3"
| "severity Critical = 4"

lemma severity_inj: "severity a = severity b \<longleftrightarrow> a = b"
  by (cases a; cases b) auto

instantiation log_level :: linorder
begin

definition less_eq_log_level :: "log_level \<Rightarrow> log_level \<Rightarrow> bool" where
  "less_eq_log_level a b \<longleftrightarrow> severity a \<le> severity b"

definition less_log_level :: "log_level \<Rightarrow> log_level \<Rightarrow> bool" where
  "less_log_level a b \<longleftrightarrow> severity a < severity b"

instance
  by standard (auto simp: less_eq_log_level_def less_log_level_def severity_inj)

end

lemma wp_write_log [effect_simps]:
  "wp (write_log l s) Q E w = Q () (w\<lparr>log := log w @ [(l, s)]\<rparr>)"
  by (simp add: write_log_def wp_modifyA)

lemma only_throws_write_log [frame_intros]: "only_throws (write_log l s)"
  by (simp add: write_log_def frame_intros)

lemma write_log_run: "write_log l s w = (Inr (), w\<lparr>log := log w @ [(l, s)]\<rparr>)"
  by (simp add: write_log_def modifyA_def)

lemma thenA_write_log: "thenA (write_log l s) k w = k (w\<lparr>log := log w @ [(l, s)]\<rparr>)"
  by (simp add: thenA_def bindA_def write_log_run)

end
