(* ===== verification/Agent_Constants.thy ===== *)
theory Agent_Constants
  imports Agent_Prelude
begin

section \<open>Constants of the agent\<close>

text \<open>
  \<open>constants/constants.dat\<close>, which \<open>constants/constants.h\<close> expands into four structs
  and \<open>constants/constants.cpp\<close> defines: the keys of the configuration file, the ids of a
  host status, the sizes and the error codes.
\<close>

subsection \<open>config_keys\<close>

datatype config_key =
    FILES_LIC | FILES_LIC_FILE_NAME | FILES_UID_FILE_NAME | FILES_KILL_FILE_NAME
  | LICENSE_MAKE_UID_CMD | LICENSE_PROD | LICENSE_AGENT_ID | LICENSE_UNP | LICENSE_SRV_URI
  | CONFIG_DAY_LICENSE_UPDATE | CONFIG_DAY_LICENSE_CHECK | CONFIG_NEXT_TRY_GET_LIC
  | CONFIG_NEXT_DAY_WAIT_GET | FILES_OPENVPN_PATH

fun key_path :: "config_key \<Rightarrow> cstring" where
  "key_path FILES_LIC = ''FILES.lic''"
| "key_path FILES_LIC_FILE_NAME = ''FILES.lic_file_name''"
| "key_path FILES_UID_FILE_NAME = ''FILES.uid_file_name''"
| "key_path FILES_KILL_FILE_NAME = ''FILES.kill_file_name''"
| "key_path LICENSE_MAKE_UID_CMD = ''LICENSE.make_uid_cmd''"
| "key_path LICENSE_PROD = ''LICENSE.prod''"
| "key_path LICENSE_AGENT_ID = ''LICENSE.agentId''"
| "key_path LICENSE_UNP = ''LICENSE.unp''"
| "key_path LICENSE_SRV_URI = ''LICENSE.license_manager_uri''"
| "key_path CONFIG_DAY_LICENSE_UPDATE = ''CONFIG.day_license_update''"
| "key_path CONFIG_DAY_LICENSE_CHECK = ''CONFIG.day_license_check''"
| "key_path CONFIG_NEXT_TRY_GET_LIC = ''CONFIG.next_try_get_license_mins''"
| "key_path CONFIG_NEXT_DAY_WAIT_GET = ''CONFIG.next_day_waiting_hours''"
| "key_path FILES_OPENVPN_PATH = ''FILES.openvpn''"

lemma key_path_inj [simp]: "key_path k = key_path k' \<longleftrightarrow> k = k'"
  by (cases k; cases k') auto

subsection \<open>lic_host_status, constants, error_code\<close>

definition status_NEW :: int where "status_NEW = 4"
definition status_ACTIVE :: int where "status_ACTIVE = 1"
definition status_APPROVED :: int where "status_APPROVED = 3"
definition status_SUSPENDED :: int where "status_SUSPENDED = 2"

definition UID_SIZE :: nat where "UID_SIZE = 58"
definition CHECK_DAYS :: int where "CHECK_DAYS = 5"

definition BAD_CONNECT :: int where "BAD_CONNECT = 12002"
definition MIME_TYPES :: int where "MIME_TYPES = 12010"

lemmas constant_defs = status_NEW_def status_ACTIVE_def status_APPROVED_def
  status_SUSPENDED_def UID_SIZE_def CHECK_DAYS_def BAD_CONNECT_def MIME_TYPES_def

end
