(* ===== verification/Agent_State.thy ===== *)
theory Agent_State
  imports Agent_Effects Agent_Constants
begin

section \<open>State of the agent and its environment\<close>

text \<open>
  The agent is one process: the configuration singleton \<open>PARSER\<close>, two periodic tasks on the
  ACE reactor, and handlers of file events.  Their objects, the files they read and write and
  the calls they make to the operating system and to ACE form one state, \<open>world\<close>.  What the
  repository only calls (the child process, the HTTP client, the JSON and INI libraries, the
  clock) is the record \<open>env\<close> of parameters: a theorem holds for every choice of them.
\<close>

subsection \<open>Configuration\<close>

text \<open>\<open>struct Options\<close> of \<open>parser/parser_ini.h\<close>.\<close>

record options =
  opt_unp :: cstring
  opt_prod :: cstring
  opt_lic_app :: cstring
  opt_agentId :: cstring
  opt_log_type :: cstring
  opt_lic_file :: cstring
  opt_service_path :: cstring
  opt_make_uid_cmd :: cstring
  opt_uid_file_name :: cstring
  opt_lic_file_name :: cstring
  opt_lic_files_path :: cstring
  opt_kill_file_name :: cstring
  opt_log_files_path :: cstring
  opt_day_license_check :: int
  opt_day_license_update :: int
  opt_openvpn_file_path :: cstring
  opt_next_day_waiting_hours :: int
  opt_license_manager_uri :: cstring
  opt_next_try_get_license_mins :: int

text \<open>
  \<open>class Parser\<close>: the property tree is the list of the paths it holds with their data.
\<close>

type_synonym prop_tree = "(cstring \<times> cstring) list"

record parser =
  root_tree :: prop_tree
  parser_options :: options
  parser_file_name :: cstring
  parser_service_path :: cstring
  parser_log_file_path :: cstring
  parser_config_file_path :: cstring

subsection \<open>Tasks and calls\<close>

datatype task = License_Task | Killer_Task

text \<open>Calls of the agent to ACE and to the operating system, in the order it makes them.\<close>

datatype sys_call =
    Schedule_Timer task int        \<comment> \<open>\<open>reactor()->schedule_timer(this, 0, seconds, zero)\<close>\<close>
  | Cancel_Timer task              \<comment> \<open>\<open>reactor()->cancel_timer(this)\<close>\<close>
  | Activate task                  \<comment> \<open>\<open>activate(THR_NEW_LWP)\<close> that started a thread\<close>
  | Activate_Worker                \<comment> \<open>\<open>LICENSE_WORKER_TASK::instance()->open()\<close>\<close>
  | Send_Message cstring           \<comment> \<open>bytes written to 127.0.0.1:8005\<close>
  | Kill_Process int               \<comment> \<open>\<open>kill(pid, SIGTERM)\<close>\<close>
  | Raise_SIGINT
  | Notify_Exception               \<comment> \<open>\<open>reactor()->notify(this, EXCEPT_MASK)\<close>\<close>
  | Register_SIGINT
  | Run_Event_Loop
  | End_Event_Loop
  | Run_Child cstring              \<comment> \<open>\<open>bp::child process(command, ...)\<close>\<close>
  | Spawn_Event_Loop               \<comment> \<open>\<open>spawn(event_loop, &notify_reactor)\<close>\<close>
  | End_Notify_Loop                \<comment> \<open>\<open>notify_reactor.end_reactor_event_loop()\<close>\<close>
  | Wait_Threads int               \<comment> \<open>\<open>ACE_Thread_Manager::instance()->wait(...)\<close>\<close>
  | Watch cstring "32 word"        \<comment> \<open>\<open>inotify_add_watch(handle_, directory, mask)\<close>\<close>
  | Unwatch cstring
  | Sleep_Seconds int
  | Http_Post cstring              \<comment> \<open>\<open>client_.request(http_request_)\<close>\<close>

text \<open>\<open>class Get_License_Task\<close> and \<open>class Process_Killer_Task\<close>.\<close>

record get_license_task =
  glt_timer_id :: int
  glt_day_counter :: int
  glt_try_get_license_mins :: int
  glt_day_waiting_hours :: int

record process_killer_task =
  pkt_timer_id :: int
  pkt_process_stopping_name :: cstring
  pkt_day_waiting_hours :: int

record world = logged +
  parser_obj :: parser
  files :: "cstring \<rightharpoonup> cstring"
  license_task :: get_license_task
  killer_task :: process_killer_task
  calls :: "sys_call list"

definition call :: "sys_call \<Rightarrow> ('z world_scheme, unit) act" where
  "call c = modifyA (\<lambda>w. w\<lparr>calls := calls w @ [c]\<rparr>)"

lemma wp_call [effect_simps]: "wp (call c) Q E w = Q () (w\<lparr>calls := calls w @ [c]\<rparr>)"
  by (simp add: call_def wp_modifyA)

text \<open>\<open>PARSER::instance()->options()\<close>, also written \<open>CONFIG\<close>.\<close>

definition config :: "world \<Rightarrow> options" where
  "config w = parser_options (parser_obj w)"

subsection \<open>The license manager's answers\<close>

text \<open>
  The parts of \<open>web::http::http_response\<close> the client reads: \<open>status_code()\<close>, the header
  \<open>Content-Type\<close> (empty when absent) and \<open>extract_json().get()\<close>.
\<close>

record 'j http_response =
  status_code :: nat
  content_type :: cstring
  extract_json :: "cpp_exn + 'j"

text \<open>
  The operations of \<open>web::json::value\<close> (cpprestsdk) the client applies; a failed one throws.
  \<open>json_index v k\<close> is \<open>v[k]\<close>, \<open>json_at v k\<close> is \<open>v.as_object().at(k)\<close>.
\<close>

record 'j json_ops =
  json_index :: "'j \<Rightarrow> cstring \<Rightarrow> cpp_exn + 'j"
  json_is_null :: "'j \<Rightarrow> bool"
  json_as_string :: "'j \<Rightarrow> cpp_exn + cstring"
  json_as_integer :: "'j \<Rightarrow> cpp_exn + int"
  json_as_object :: "'j \<Rightarrow> cpp_exn + 'j"
  json_at :: "'j \<Rightarrow> cstring \<Rightarrow> cpp_exn + 'j"
  json_as_array :: "'j \<Rightarrow> cpp_exn + 'j list"

subsection \<open>The environment\<close>

record 'j env =
  today :: int
    \<comment> \<open>\<open>ACE_Date_Time().day()\<close>: the day of the month\<close>
  list_dir :: "(cstring \<rightharpoonup> cstring) \<Rightarrow> cstring \<Rightarrow> cpp_exn + (cstring \<times> bool) list option"
    \<comment> \<open>\<open>boost::filesystem\<close>: a directory's entries (leaf name, is a directory), if it exists;
      an iterator that cannot be made throws\<close>
  can_write :: "cstring \<Rightarrow> bool"
    \<comment> \<open>whether \<open>ofstream\<close> opens the file\<close>
  run_child :: "cstring \<Rightarrow> cstring + cstring"
    \<comment> \<open>a child process: the message of the \<open>process_error\<close>, or what it prints\<close>
  from_base64 :: "cstring \<Rightarrow> cpp_exn + cstring"
  read_ini :: "cstring \<Rightarrow> cpp_exn + prop_tree"
    \<comment> \<open>\<open>boost::property_tree::read_ini\<close> on the characters left in the file\<close>
  no_node :: "cstring \<Rightarrow> cpp_exn"
    \<comment> \<open>the \<open>ptree_bad_path\<close> that \<open>get\<close> throws for an absent path\<close>
  peer_up :: bool
    \<comment> \<open>whether 127.0.0.1:8005 accepts a connection\<close>
  make_uri :: "cstring \<Rightarrow> cpp_exn + cstring"
    \<comment> \<open>the constructor of \<open>web::http::uri\<close>\<close>
  make_client :: "cstring \<Rightarrow> cpp_exn + unit"
    \<comment> \<open>the constructor of \<open>http_client\<close>\<close>
  serialize :: "(cstring \<times> cstring) list \<Rightarrow> cstring"
    \<comment> \<open>\<open>web::json::value::serialize\<close> of an object of strings\<close>
  request_text :: "(cstring \<times> cstring) list \<Rightarrow> cstring"
  response_text :: "'j http_response \<Rightarrow> cstring"
    \<comment> \<open>\<open>to_string()\<close> of the request and of the response, for the log\<close>
  send_request_to :: "cstring \<Rightarrow> (cstring \<times> cstring) list \<Rightarrow> nat \<Rightarrow> cpp_exn + 'j http_response"
    \<comment> \<open>\<open>client_.request(...)\<close>: address, fields of the posted message, number of the attempt\<close>
  clock_after :: "nat \<Rightarrow> int"
    \<comment> \<open>seconds of \<open>steady_clock\<close> since the first attempt began, after attempt \<open>n\<close> failed\<close>
  json :: "'j json_ops"
  proc_dir :: "(cstring \<times> cstring) list option"
    \<comment> \<open>the entries of /proc in directory order, with the contents of their cmdline\<close>
  kill_ok :: "int \<Rightarrow> bool"
  activate_ok :: "task \<Rightarrow> bool"
  timer_id_of :: "sys_call list \<Rightarrow> int"
    \<comment> \<open>the id \<open>schedule_timer\<close> returns\<close>
  cwd :: cstring

subsection \<open>A quiet environment\<close>

text \<open>
  An environment and a state to evaluate the model on: no files, no network, no children; an
  INI file is never well formed, a JSON value is always null.
\<close>

definition quiet_json :: "unit json_ops" where
  "quiet_json = \<lparr>json_index = (\<lambda>v k. Inr ()), json_is_null = (\<lambda>v. True),
     json_as_string = (\<lambda>v. Inl (Json_Exception [])),
     json_as_integer = (\<lambda>v. Inl (Json_Exception [])),
     json_as_object = (\<lambda>v. Inl (Json_Exception [])),
     json_at = (\<lambda>v k. Inl (Json_Exception [])),
     json_as_array = (\<lambda>v. Inl (Json_Exception []))\<rparr>"

definition quiet_env :: "unit env" where
  "quiet_env = \<lparr>today = 1, list_dir = (\<lambda>fs d. Inr None), can_write = (\<lambda>f. True),
     run_child = (\<lambda>c. Inl []), from_base64 = (\<lambda>s. Inr s),
     read_ini = (\<lambda>s. Inl (Runtime_Error [])), no_node = (\<lambda>k. Runtime_Error k),
     peer_up = False, make_uri = (\<lambda>s. Inr s), make_client = (\<lambda>s. Inr ()),
     serialize = (\<lambda>m. []), request_text = (\<lambda>m. []), response_text = (\<lambda>r. []),
     send_request_to = (\<lambda>a m n. Inl (Http_Exception 110 [])),
     clock_after = (\<lambda>n. int n), json = quiet_json, proc_dir = None, kill_ok = (\<lambda>p. False),
     activate_ok = (\<lambda>t. True), timer_id_of = (\<lambda>cs. int (length cs)), cwd = []\<rparr>"

end
