(* ===== verification/Agent_Tools.thy ===== *)
theory Agent_Tools
  imports Agent_State
begin

section \<open>Tools: paths, processes, messages\<close>

text \<open>
  \<open>tools/tools.cpp\<close> (the branches for Linux) and \<open>Message_Sender\<close> of
  \<open>tools/message_sender.h\<close>.
\<close>

subsection \<open>namespace Files\<close>

definition split_file_name :: "cstring \<Rightarrow> cstring" where
  "split_file_name buffer =
     (let file_path = c_str buffer
      in substr_after file_path (find_last_of CHR ''/'' file_path))"

definition split_file_path :: "cstring \<Rightarrow> cstring" where
  "split_file_path buffer =
     (let full_file_path = c_str buffer
      in case find_last_of CHR ''/'' full_file_path of
           Some pos \<Rightarrow> take (pos + 1) full_file_path
         | None \<Rightarrow> ''.'')"

lemma split_file_name_no_slash: "CHR ''/'' \<notin> set (split_file_name s)"
  by (simp add: split_file_name_def Let_def substr_after_last_fresh)

lemma split_file_join:
  assumes "NUL \<notin> set s" and "CHR ''/'' \<in> set s"
  shows "split_file_path s @ split_file_name s = s"
proof -
  from assms obtain i where "find_last_of CHR ''/'' s = Some i"
    using find_last_of_None [of "CHR ''/''" s] by (cases "find_last_of CHR ''/'' s") auto
  with assms show ?thesis
    by (simp add: split_file_path_def split_file_name_def substr_after_def Let_def)
qed

lemma split_file_path_ends:
  assumes "CHR ''/'' \<in> set (c_str s)"
  shows "split_file_path s \<noteq> [] \<and> last (split_file_path s) = CHR ''/''"
proof -
  from assms obtain i where i: "find_last_of CHR ''/'' (c_str s) = Some i"
    using find_last_of_None [of "CHR ''/''" "c_str s"]
    by (cases "find_last_of CHR ''/'' (c_str s)") auto
  then have "i < length (c_str s)" "c_str s ! i = CHR ''/''"
    by (auto dest: find_last_of_SomeD)
  with i show ?thesis
    by (simp add: split_file_path_def Let_def take_Suc_conv_app_nth)
qed

subsection \<open>namespace System\<close>

definition current_module_path :: "'j env \<Rightarrow> cstring" where
  "current_module_path e = cwd e @ ''/''"

text \<open>The program name in a cmdline: its first item, without the directory.\<close>

definition cmdline_program :: "cstring \<Rightarrow> cstring" where
  "cmdline_program content =
     (let cmdLine = first_line content;
          item = substr_upto cmdLine (find_first_of NUL cmdLine)
      in substr_after item (find_last_of CHR ''/'' item))"

fun scan_proc :: "cstring \<Rightarrow> (cstring \<times> cstring) list \<Rightarrow> int" where
  "scan_proc procName [] = -1"
| "scan_proc procName ((d_name, content) # rest) =
     (let ident = c_atoi d_name
      in if 0 < ident \<and> first_line content \<noteq> [] \<and> procName = cmdline_program content
         then ident
         else scan_proc procName rest)"

definition getProcIdByName :: "'j env \<Rightarrow> cstring \<Rightarrow> int" where
  "getProcIdByName e procName =
     (case proc_dir e of None \<Rightarrow> -1 | Some entries \<Rightarrow> scan_proc procName entries)"

definition terminate_process :: "'j env \<Rightarrow> cstring \<Rightarrow> (world, bool) act" where
  "terminate_process e procName =
     (let pid = getProcIdByName e procName
      in if 0 < pid
         then thenA (call (Kill_Process pid)) (retA (kill_ok e pid))
         else retA False)"

text \<open>A positive id belongs to a listed process with that program name.\<close>

lemma scan_proc_found:
  "scan_proc p es = i \<Longrightarrow> 0 < i \<Longrightarrow>
     \<exists>d content. (d, content) \<in> set es \<and> c_atoi d = i \<and> cmdline_program content = p"
  by (induction p es rule: scan_proc.induct) (auto simp: Let_def split: if_splits)

lemma scan_proc_pos_iff:
  "0 < scan_proc p es \<longleftrightarrow>
     (\<exists>(d, content) \<in> set es. 0 < c_atoi d \<and> first_line content \<noteq> [] \<and> cmdline_program content = p)"
  by (induction p es rule: scan_proc.induct) (auto simp: Let_def)

lemma scan_proc_range: "scan_proc p es = -1 \<or> 0 < scan_proc p es"
  by (induction p es rule: scan_proc.induct) (auto simp: Let_def)

subsection \<open>namespace Net\<close>

text \<open>
  \<open>Message_Sender::send\<close> writes the characters and the final zero over a fresh
  connection; \<open>Net::send_message\<close> drops its result.
\<close>

definition sender_send :: "'j env \<Rightarrow> cstring \<Rightarrow> (world, int) act" where
  "sender_send e message =
     (if \<not> peer_up e then retA (-1)
      else thenA (call (Send_Message (message @ [NUL]))) (retA 0))"

definition send_message :: "'j env \<Rightarrow> cstring \<Rightarrow> (world, unit) act" where
  "send_message e message = bindA (sender_send e message) (\<lambda>_. retA ())"

lemma wp_send_message [effect_simps]:
  "wp (send_message e s) Q E w =
     Q () (if peer_up e then w\<lparr>calls := calls w @ [Send_Message (s @ [NUL])]\<rparr> else w)"
  by (simp add: send_message_def sender_send_def effect_simps)

lemma wp_terminate_process [effect_simps]:
  "wp (terminate_process e p) Q E w =
     (let pid = getProcIdByName e p
      in if 0 < pid then Q (kill_ok e pid) (w\<lparr>calls := calls w @ [Kill_Process pid]\<rparr>)
         else Q False w)"
  by (simp add: terminate_process_def effect_simps Let_def)

end
