(* ===== verification/Ini_Config.thy ===== *)
theory Ini_Config
  imports Agent_Tools
begin

section \<open>The configuration file: class Parser\<close>

text \<open>
  \<open>parser/parser_ini.h\<close> and \<open>parser/parser_ini.cpp\<close>, the branches for Linux.  The INI
  grammar itself is Boost's (\<open>read_ini\<close> of the environment).
\<close>

definition LIC_INI_FILE :: cstring where
  "LIC_INI_FILE = ''lic_check_l.ini''"

text \<open>
  \<open>Options options;\<close>: empty strings.  The four numbers are indeterminate there; every one is
  assigned before the record is stored, and the model starts them at 0.
\<close>

definition blank_options :: options where
  "blank_options = \<lparr>opt_unp = [], opt_prod = [], opt_lic_app = [], opt_agentId = [],
     opt_log_type = [], opt_lic_file = [], opt_service_path = [], opt_make_uid_cmd = [],
     opt_uid_file_name = [], opt_lic_file_name = [], opt_lic_files_path = [],
     opt_kill_file_name = [], opt_log_files_path = [], opt_day_license_check = 0,
     opt_day_license_update = 0, opt_openvpn_file_path = [], opt_next_day_waiting_hours = 0,
     opt_license_manager_uri = [], opt_next_try_get_license_mins = 0\<rparr>"

subsection \<open>Reading the file\<close>

definition make_service_path :: "'j env \<Rightarrow> (world, cstring) act" where
  "make_service_path e =
     (let service_path = current_module_path e
      in thenA (write_log Debug (''Current service path: '' @ service_path))
           (retA service_path))"

text \<open>
  The two constructors: \<open>Parser()\<close> finds the service path itself,
  \<open>Parser(config_file_path)\<close> stores the path given on the command line.
\<close>

definition blank_parser :: parser where
  "blank_parser = \<lparr>root_tree = [], parser_options = blank_options,
     parser_file_name = LIC_INI_FILE, parser_service_path = [],
     parser_log_file_path = [], parser_config_file_path = []\<rparr>"

definition new_parser :: "'j env \<Rightarrow> (world, parser) act" where
  "new_parser e = bindA (make_service_path e)
     (\<lambda>p. retA (blank_parser\<lparr>parser_service_path := p\<rparr>))"

definition new_parser_at :: "cstring \<Rightarrow> parser" where
  "new_parser_at config_file_path = blank_parser\<lparr>parser_config_file_path := config_file_path\<rparr>"

definition update_parser :: "(parser \<Rightarrow> parser) \<Rightarrow> (world, unit) act" where
  "update_parser f = modifyA (\<lambda>w. w\<lparr>parser_obj := f (parser_obj w)\<rparr>)"

definition make_config_file_path :: "(world, cstring) act" where
  "make_config_file_path =
     bindA (readA (\<lambda>w. parser_service_path (parser_obj w) @ parser_file_name (parser_obj w)))
       (\<lambda>path. thenA (write_log Debug (''Current config path: '' @ path)) (retA path))"

text \<open>
  The loop that skips a byte order mark: it drops bytes above 127 and puts the first other
  byte back.
\<close>

fun skip_bom :: "cstring \<Rightarrow> cstring" where
  "skip_bom [] = []"
| "skip_bom (c # cs) = (if 127 < (of_char c :: nat) then skip_bom cs else c # cs)"

definition create_root :: "'j env \<Rightarrow> cstring \<Rightarrow> (world, unit) act" where
  "create_root e file_name =
     bindA (readA (\<lambda>w. files w file_name))
       (\<lambda>content. case content of
          None \<Rightarrow> throwA (Runtime_Error (''can't open ini file - '' @ file_name))
        | Some cs \<Rightarrow>
            (case read_ini e (skip_bom cs) of
               Inl ex \<Rightarrow> throwA ex
             | Inr tree \<Rightarrow> update_parser (\<lambda>p. p\<lparr>root_tree := tree\<rparr>)))"

definition get_value :: "'j env \<Rightarrow> config_key \<Rightarrow> (world, cstring) act" where
  "get_value e key =
     bindA (readA parser_obj) (\<lambda>p.
       if root_tree p = [] then retA []
       else case map_of (root_tree p) (key_path key) of
              None \<Rightarrow> throwA (no_node e (key_path key))
            | Some value \<Rightarrow>
                if value = []
                then throwA (Runtime_Error
                       (key_path key @ '' is empty. Look at the '' @ parser_file_name p))
                else thenA (write_log Debug (key_path key @ '' - '' @ value)) (retA value))"

subsection \<open>init\<close>

text \<open>A number of the configuration with its upper bound and the text of its rejection.\<close>

definition get_number ::
    "'j env \<Rightarrow> (cstring \<Rightarrow> int) \<Rightarrow> config_key \<Rightarrow> int \<Rightarrow> (cstring \<Rightarrow> cstring) \<Rightarrow> (world, int) act" where
  "get_number e convert key hi rejection =
     bindA (get_value e key) (\<lambda>text.
       let n = convert text
       in if n \<le> 0 \<or> n > hi then throwA (Runtime_Error (rejection text)) else retA n)"

definition read_texts :: "'j env \<Rightarrow> (world, options) act" where
  "read_texts e =
     bindA (readA (\<lambda>w. parser_service_path (parser_obj w))) (\<lambda>service_path.
     bindA (get_value e LICENSE_UNP) (\<lambda>unp.
     bindA (get_value e LICENSE_PROD) (\<lambda>prod.
     bindA (get_value e LICENSE_AGENT_ID) (\<lambda>agentId.
     bindA (get_value e FILES_LIC) (\<lambda>lic_app.
     bindA (get_value e FILES_LIC_FILE_NAME) (\<lambda>lic_file.
     bindA (get_value e LICENSE_MAKE_UID_CMD) (\<lambda>make_uid_cmd.
     bindA (get_value e FILES_UID_FILE_NAME) (\<lambda>uid_file_name.
     bindA (get_value e LICENSE_SRV_URI) (\<lambda>uri.
       retA (blank_options\<lparr>opt_service_path := service_path, opt_unp := unp, opt_prod := prod,
         opt_agentId := agentId, opt_lic_app := lic_app, opt_lic_file := lic_file,
         opt_make_uid_cmd := make_uid_cmd, opt_uid_file_name := uid_file_name,
         opt_license_manager_uri := uri\<rparr>))))))))))"

definition read_numbers :: "'j env \<Rightarrow> cstring \<Rightarrow> options \<Rightarrow> (world, options) act" where
  "read_numbers e file_name opts =
     bindA (get_number e c_atol CONFIG_DAY_LICENSE_UPDATE 31
       (\<lambda>text. key_path CONFIG_DAY_LICENSE_UPDATE @ '' isn't correct: '' @ text @
          ''. Look at the '' @ file_name)) (\<lambda>day_update.
     bindA (get_number e c_atol CONFIG_DAY_LICENSE_CHECK 31
       (\<lambda>text. key_path CONFIG_DAY_LICENSE_CHECK @ '' isn't correct. Look at the '' @ file_name))
       (\<lambda>day_check.
     bindA (get_number e c_atoi CONFIG_NEXT_TRY_GET_LIC 60
       (\<lambda>text. key_path CONFIG_NEXT_TRY_GET_LIC @ '' more than 60 secs. Look at the '' @
          file_name)) (\<lambda>try_mins.
     bindA (get_number e c_atoi CONFIG_NEXT_DAY_WAIT_GET 24
       (\<lambda>text. key_path CONFIG_NEXT_DAY_WAIT_GET @ '' more than 60 secs. Look at the '' @
          file_name)) (\<lambda>wait_hours.
       retA (opts\<lparr>opt_day_license_update := day_update, opt_day_license_check := day_check,
         opt_next_try_get_license_mins := try_mins,
         opt_next_day_waiting_hours := wait_hours\<rparr>)))))"

definition read_tree :: "'j env \<Rightarrow> (world, options) act" where
  "read_tree e =
     bindA (read_texts e) (\<lambda>texts.
     bindA (readA (\<lambda>w. parser_file_name (parser_obj w))) (\<lambda>file_name.
     bindA (read_numbers e file_name texts) (\<lambda>opts.
     bindA (get_value e FILES_KILL_FILE_NAME) (\<lambda>kill_file_name.
     bindA (get_value e FILES_OPENVPN_PATH) (\<lambda>openvpn.
     bindA (readA (\<lambda>w. parser_log_file_path (parser_obj w))) (\<lambda>log_path.
       retA (opts\<lparr>opt_kill_file_name := kill_file_name, opt_openvpn_file_path := openvpn,
         opt_lic_file_name := split_file_name (opt_lic_file opts),
         opt_log_files_path := log_path\<rparr>)))))))"

definition read_options :: "'j env \<Rightarrow> (world, options) act" where
  "read_options e =
     bindA make_config_file_path (\<lambda>path. thenA (create_root e path) (read_tree e))"

definition set_options :: "options \<Rightarrow> (world, unit) act" where
  "set_options opts = update_parser (\<lambda>p. p\<lparr>parser_options := opts\<rparr>)"

definition parser_init :: "'j env \<Rightarrow> (world, int) act" where
  "parser_init e =
     catchA (bindA (read_options e) (\<lambda>opts. thenA (set_options opts) (retA 0)))
       (\<lambda>ex. thenA (write_log Error (''Failed to initialize values of config: '' @ what ex))
          (retA (-1)))"

definition make_paths :: "'j env \<Rightarrow> (world, int) act" where
  "make_paths e =
     thenA (update_parser (\<lambda>p.
       let path = parser_config_file_path p; service = split_file_path path
       in p\<lparr>parser_service_path := service, parser_file_name := split_file_name path,
            parser_log_file_path := service @ ''logs''\<rparr>)) (
     bindA (readA parser_obj) (\<lambda>p.
     thenA (write_log Debug (''Current logs path: '' @ parser_log_file_path p)) (
     thenA (write_log Debug (''Current service path: '' @ parser_service_path p)) (
       parser_init e))))"

subsection \<open>What the operations keep and what they return\<close>

definition options_in_range :: "options \<Rightarrow> bool" where
  "options_in_range opts \<longleftrightarrow>
     1 \<le> opt_day_license_update opts \<and> opt_day_license_update opts \<le> 31 \<and>
     1 \<le> opt_day_license_check opts \<and> opt_day_license_check opts \<le> 31 \<and>
     1 \<le> opt_next_try_get_license_mins opts \<and> opt_next_try_get_license_mins opts \<le> 60 \<and>
     1 \<le> opt_next_day_waiting_hours opts \<and> opt_next_day_waiting_hours opts \<le> 24"

text \<open>The parts of the world no method of \<open>Parser\<close> but \<open>set_options\<close> changes.\<close>

definition beyond_parser ::
    "world \<Rightarrow> options \<times> (cstring \<rightharpoonup> cstring) \<times> get_license_task \<times> process_killer_task \<times> sys_call list" where
  "beyond_parser w = (config w, files w, license_task w, killer_task w, calls w)"

lemma keeps_write_log [frame_intros]:
  "keeps beyond_parser (write_log l s)" "keeps parser_obj (write_log l s)"
  by (simp_all add: write_log_def keeps_def modifyA_def beyond_parser_def config_def)

lemma keeps_update_parser:
  "(\<And>p. parser_options (f p) = parser_options p) \<Longrightarrow> keeps beyond_parser (update_parser f)"
  by (simp add: update_parser_def keeps_def modifyA_def beyond_parser_def config_def)

lemma only_throws_update_parser [frame_intros]: "only_throws (update_parser f)"
  by (simp add: update_parser_def frame_intros)

lemma keeps_get_value [frame_intros]: "keeps beyond_parser (get_value e k)"
  unfolding get_value_def by (intro frame_intros)

lemma only_throws_get_value [frame_intros]: "only_throws (get_value e k)"
  unfolding get_value_def by (intro frame_intros)

lemma keeps_get_number [frame_intros]: "keeps beyond_parser (get_number e c k hi r)"
  unfolding get_number_def Let_def by (intro frame_intros)

lemma only_throws_get_number [frame_intros]: "only_throws (get_number e c k hi r)"
  unfolding get_number_def Let_def by (intro frame_intros)

lemma yields_get_number: "yields (\<lambda>n. 1 \<le> n \<and> n \<le> hi) (get_number e c k hi r)"
  unfolding get_number_def Let_def by (rule yields_bindA) (auto intro: frame_intros)

lemma keeps_create_root [frame_intros]: "keeps beyond_parser (create_root e path)"
  unfolding create_root_def
  by (intro frame_intros) (auto split: sum.split intro!: frame_intros keeps_update_parser)

lemma only_throws_create_root [frame_intros]: "only_throws (create_root e path)"
  unfolding create_root_def
  by (intro frame_intros) (auto split: sum.split intro!: frame_intros)

lemma read_options_frame:
  "keeps beyond_parser (read_options e)" "only_throws (read_options e)"
  unfolding read_options_def read_tree_def read_texts_def read_numbers_def make_config_file_path_def
  by (intro frame_intros)+

lemma yields_read_numbers: "yields options_in_range (read_numbers e file_name opts)"
  unfolding read_numbers_def
  by (rule yields_bindA_from [OF yields_get_number])+
    (auto intro!: frame_intros simp: options_in_range_def)

lemma yields_read_options: "yields options_in_range (read_options e)"
  unfolding read_options_def read_tree_def
  apply (rule yields_bindA, rule yields_thenA, rule yields_bindA, rule yields_bindA)
  apply (rule yields_bindA_from [OF yields_read_numbers])
  apply (intro frame_intros)
  apply (simp add: options_in_range_def)
  done

subsection \<open>The configuration a file denotes\<close>

text \<open>
  The abstract reading of a configuration file: the value of each key, the options they
  denote, and when a file is acceptable.
\<close>

definition tree_value :: "prop_tree \<Rightarrow> config_key \<Rightarrow> cstring" where
  "tree_value tree k = (case map_of tree (key_path k) of None \<Rightarrow> [] | Some v \<Rightarrow> v)"

definition all_keys :: "config_key list" where
  "all_keys = [FILES_LIC, FILES_LIC_FILE_NAME, FILES_UID_FILE_NAME, FILES_KILL_FILE_NAME,
     LICENSE_MAKE_UID_CMD, LICENSE_PROD, LICENSE_AGENT_ID, LICENSE_UNP, LICENSE_SRV_URI,
     CONFIG_DAY_LICENSE_UPDATE, CONFIG_DAY_LICENSE_CHECK, CONFIG_NEXT_TRY_GET_LIC,
     CONFIG_NEXT_DAY_WAIT_GET, FILES_OPENVPN_PATH]"

definition denoted_options :: "parser \<Rightarrow> prop_tree \<Rightarrow> options" where
  "denoted_options p tree = blank_options\<lparr>
     opt_service_path := parser_service_path p,
     opt_unp := tree_value tree LICENSE_UNP,
     opt_prod := tree_value tree LICENSE_PROD,
     opt_agentId := tree_value tree LICENSE_AGENT_ID,
     opt_lic_app := tree_value tree FILES_LIC,
     opt_lic_file := tree_value tree FILES_LIC_FILE_NAME,
     opt_make_uid_cmd := tree_value tree LICENSE_MAKE_UID_CMD,
     opt_uid_file_name := tree_value tree FILES_UID_FILE_NAME,
     opt_license_manager_uri := tree_value tree LICENSE_SRV_URI,
     opt_day_license_update := c_atol (tree_value tree CONFIG_DAY_LICENSE_UPDATE),
     opt_day_license_check := c_atol (tree_value tree CONFIG_DAY_LICENSE_CHECK),
     opt_next_try_get_license_mins := c_atoi (tree_value tree CONFIG_NEXT_TRY_GET_LIC),
     opt_next_day_waiting_hours := c_atoi (tree_value tree CONFIG_NEXT_DAY_WAIT_GET),
     opt_kill_file_name := tree_value tree FILES_KILL_FILE_NAME,
     opt_openvpn_file_path := tree_value tree FILES_OPENVPN_PATH,
     opt_lic_file_name := split_file_name (tree_value tree FILES_LIC_FILE_NAME),
     opt_log_files_path := parser_log_file_path p\<rparr>"

definition acceptable :: "parser \<Rightarrow> prop_tree \<Rightarrow> bool" where
  "acceptable p tree \<longleftrightarrow>
     list_all (\<lambda>k. tree_value tree k \<noteq> []) all_keys \<and> options_in_range (denoted_options p tree)"

definition file_tree :: "'j env \<Rightarrow> world \<Rightarrow> prop_tree option" where
  "file_tree e w =
     (case files w (parser_service_path (parser_obj w) @ parser_file_name (parser_obj w)) of
        None \<Rightarrow> None
      | Some content \<Rightarrow>
          (case read_ini e (skip_bom content) of Inl _ \<Rightarrow> None | Inr tree \<Rightarrow> Some tree))"

subsection \<open>init accepts exactly the acceptable files\<close>

lemma bindA_Inr_iff:
  "bindA m k w = (Inr b, w') \<longleftrightarrow> (\<exists>a w1. m w = (Inr a, w1) \<and> k a w1 = (Inr b, w'))"
  by (auto simp: bindA_def split: prod.split sum.split)

lemma thenA_Inr_iff:
  "thenA m k w = (Inr b, w') \<longleftrightarrow> (\<exists>a w1. m w = (Inr a, w1) \<and> k w1 = (Inr b, w'))"
  by (simp add: thenA_def bindA_Inr_iff)

lemma simple_Inr_iff:
  "retA a w = (Inr b, w') \<longleftrightarrow> b = a \<and> w' = w"
  "readA g w = (Inr b, w') \<longleftrightarrow> b = g w \<and> w' = w"
  "throwA ex w = (Inr b, w') \<longleftrightarrow> False"
  "write_log l s w = (Inr u, w') \<longleftrightarrow> w' = w\<lparr>log := log w @ [(l, s)]\<rparr>"
  "update_parser f w = (Inr u, w') \<longleftrightarrow> w' = w\<lparr>parser_obj := f (parser_obj w)\<rparr>"
  by (auto simp: retA_def readA_def throwA_def failA_def write_log_run update_parser_def
      modifyA_def)

lemmas run_iffs = bindA_Inr_iff thenA_Inr_iff simple_Inr_iff

lemma get_value_Inr_iff:
  assumes "root_tree (parser_obj w) = tree" and "tree \<noteq> []"
  shows "get_value e k w = (Inr v, w') \<longleftrightarrow>
    tree_value tree k \<noteq> [] \<and> v = tree_value tree k \<and>
    w' = w\<lparr>log := log w @ [(Debug, key_path k @ '' - '' @ tree_value tree k)]\<rparr>"
  using assms
  by (auto simp: get_value_def run_iffs tree_value_def split: option.split)

lemma get_number_Inr_iff:
  assumes "root_tree (parser_obj w) = tree" and "tree \<noteq> []"
  shows "get_number e c k hi r w = (Inr n, w') \<longleftrightarrow>
    tree_value tree k \<noteq> [] \<and> n = c (tree_value tree k) \<and> 1 \<le> n \<and> n \<le> hi \<and>
    w' = w\<lparr>log := log w @ [(Debug, key_path k @ '' - '' @ tree_value tree k)]\<rparr>"
  by (auto simp: get_number_def bindA_Inr_iff get_value_Inr_iff [OF assms] simple_Inr_iff Let_def)

definition logged_value :: "prop_tree \<Rightarrow> config_key \<Rightarrow> log_level \<times> cstring" where
  "logged_value tree k = (Debug, key_path k @ '' - '' @ tree_value tree k)"

text \<open>The keys in the order \<open>init\<close> reads them.\<close>

definition read_order :: "config_key list" where
  "read_order = [LICENSE_UNP, LICENSE_PROD, LICENSE_AGENT_ID, FILES_LIC, FILES_LIC_FILE_NAME,
     LICENSE_MAKE_UID_CMD, FILES_UID_FILE_NAME, LICENSE_SRV_URI, CONFIG_DAY_LICENSE_UPDATE,
     CONFIG_DAY_LICENSE_CHECK, CONFIG_NEXT_TRY_GET_LIC, CONFIG_NEXT_DAY_WAIT_GET,
     FILES_KILL_FILE_NAME, FILES_OPENVPN_PATH]"

lemma read_tree_Inr_iff:
  assumes "root_tree (parser_obj w) = tree" and "tree \<noteq> []"
  shows "read_tree e w = (Inr opts, w') \<longleftrightarrow>
    acceptable (parser_obj w) tree \<and> opts = denoted_options (parser_obj w) tree \<and>
    w' = w\<lparr>log := log w @ map (logged_value tree) read_order\<rparr>"
  unfolding read_tree_def read_texts_def read_numbers_def
  by (simp add: run_iffs get_value_Inr_iff get_number_Inr_iff assms
      acceptable_def all_keys_def options_in_range_def denoted_options_def blank_options_def
      logged_value_def read_order_def)
    (auto simp: conj_ac)

lemma acceptable_nonempty: "acceptable p tree \<Longrightarrow> tree \<noteq> []"
  by (auto simp: acceptable_def all_keys_def tree_value_def)

lemma read_tree_empty:
  assumes "root_tree (parser_obj w) = []"
  shows "read_tree e w \<noteq> (Inr opts, w')"
  unfolding read_tree_def read_texts_def read_numbers_def get_number_def get_value_def
  using assms
  by (simp add: run_iffs c_atol_def strtol_value_def c_str_def)

lemma create_root_Inr_iff:
  "create_root e path w = (Inr (), w') \<longleftrightarrow>
    (\<exists>content tree. files w path = Some content \<and> read_ini e (skip_bom content) = Inr tree \<and>
       w' = w\<lparr>parser_obj := (parser_obj w)\<lparr>root_tree := tree\<rparr>\<rparr>)"
  by (auto simp: create_root_def run_iffs split: option.split sum.split)

lemma acceptable_root_tree [simp]:
  "acceptable (p\<lparr>root_tree := t\<rparr>) tree = acceptable p tree"
  "denoted_options (p\<lparr>root_tree := t\<rparr>) tree = denoted_options p tree"
  by (simp_all add: acceptable_def denoted_options_def)

lemma read_options_Inr_iff:
  "(\<exists>w'. read_options e w = (Inr opts, w')) \<longleftrightarrow>
    (\<exists>tree. file_tree e w = Some tree \<and> acceptable (parser_obj w) tree \<and>
       opts = denoted_options (parser_obj w) tree)"
proof -
  define path where "path = parser_service_path (parser_obj w) @ parser_file_name (parser_obj w)"
  define w1 where "w1 = w\<lparr>log := log w @ [(Debug, ''Current config path: '' @ path)]\<rparr>"
  have w1: "parser_obj w1 = parser_obj w" "files w1 = files w"
    by (simp_all add: w1_def)
  have start: "read_options e w = (Inr opts, w') \<longleftrightarrow>
      (\<exists>w2. create_root e path w1 = (Inr (), w2) \<and> read_tree e w2 = (Inr opts, w'))" for w'
    by (simp add: read_options_def make_config_file_path_def run_iffs path_def w1_def)
  have load: "create_root e path w1 = (Inr (), w2) \<longleftrightarrow>
      (\<exists>tree. file_tree e w = Some tree \<and>
         w2 = w1\<lparr>parser_obj := (parser_obj w)\<lparr>root_tree := tree\<rparr>\<rparr>)" for w2
    by (auto simp: create_root_Inr_iff file_tree_def w1 path_def split: option.split sum.split)
  show ?thesis
  proof (cases "file_tree e w")
    case None
    then show ?thesis by (simp add: start load)
  next
    case (Some tree)
    then show ?thesis
      by (cases "tree = []")
        (auto simp add: start load read_tree_empty read_tree_Inr_iff dest: acceptable_nonempty)
  qed
qed

lemma read_options_result:
  obtains opts w' where "read_options e w = (Inr opts, w')" "beyond_parser w' = beyond_parser w"
  | ex w' where "read_options e w = (Inl (Thrown ex), w')" "beyond_parser w' = beyond_parser w"
proof (cases "read_options e w")
  case (Pair r w')
  then have keep: "beyond_parser w' = beyond_parser w"
    by (rule keepsD [OF read_options_frame(1)])
  show ?thesis
  proof (cases r)
    case (Inl f)
    with Pair read_options_frame(2) obtain ex where "f = Thrown ex"
      unfolding only_throws_def by (metis fst_conv)
    with Pair Inl keep that(2) show ?thesis by blast
  next
    case (Inr opts)
    with Pair keep that(1) show ?thesis by blast
  qed
qed

lemma parser_init_run:
  "\<exists>w'. parser_init e w =
      (Inr (case file_tree e w of
              None \<Rightarrow> -1
            | Some tree \<Rightarrow> if acceptable (parser_obj w) tree then 0 else -1), w') \<and>
    config w' = (case file_tree e w of
              None \<Rightarrow> config w
            | Some tree \<Rightarrow> if acceptable (parser_obj w) tree
                then denoted_options (parser_obj w) tree else config w) \<and>
    files w' = files w \<and> calls w' = calls w \<and>
    license_task w' = license_task w \<and> killer_task w' = killer_task w"
proof (cases rule: read_options_result [of e w])
  case (1 opts w1)
  then obtain tree where "file_tree e w = Some tree" "acceptable (parser_obj w) tree"
      "opts = denoted_options (parser_obj w) tree"
    using read_options_Inr_iff [of e w opts] by blast
  with 1 show ?thesis
    by (simp add: parser_init_def catchA_def bindA_def thenA_def set_options_def
        update_parser_def modifyA_def retA_def beyond_parser_def config_def)
next
  case (2 ex w1)
  then have "\<not> (\<exists>tree. file_tree e w = Some tree \<and> acceptable (parser_obj w) tree)"
    using read_options_Inr_iff [of e w] by fastforce
  with 2 show ?thesis
    by (auto simp: parser_init_def catchA_def bindA_def thenA_def write_log_run retA_def
        beyond_parser_def config_def split: option.split)
qed

text \<open>
  C2: \<open>Parser::init\<close> always returns; it returns 0 exactly when the configuration file opens,
  parses, gives every key a non-empty value and the four numbers a value in their range, and
  then the options are the ones the file denotes.  Otherwise it returns -1 and the options in
  force stay as they were.  No file, task or system call is touched.
\<close>

theorem parser_init_exact:
  "\<exists>w'. parser_init e w =
      (Inr (case file_tree e w of
              None \<Rightarrow> -1
            | Some tree \<Rightarrow> if acceptable (parser_obj w) tree then 0 else -1), w') \<and>
    config w' = (case file_tree e w of
              None \<Rightarrow> config w
            | Some tree \<Rightarrow> if acceptable (parser_obj w) tree
                then denoted_options (parser_obj w) tree else config w) \<and>
    files w' = files w \<and> calls w' = calls w \<and>
    license_task w' = license_task w \<and> killer_task w' = killer_task w"
  by (rule parser_init_run)

text \<open>
  When \<open>init\<close> returns 0 the options in force are in range (the days between 1 and 31, the
  retry between 1 and 60 minutes, the wait between 1 and 24 hours); when it returns -1 they are
  the options it found.  So an update of the configuration never puts a value out of range in
  force.
\<close>

lemma parser_init_in_range:
  "case parser_init e w of
     (Inl _, _) \<Rightarrow> False
   | (Inr n, w') \<Rightarrow>
       if n = 0 then options_in_range (config w') else n = -1 \<and> config w' = config w"
  using parser_init_run [of e w] by (auto simp: acceptable_def split: option.splits if_splits)

end
