(* ===== verification/Timers.thy ===== *)
theory Timers
  imports Ini_Config
begin

section \<open>Timers of the tasks\<close>

text \<open>
  The two tasks of the agent run on one-shot timers of the ACE reactor and set the next timer
  themselves.  This theory reads the journal of calls as the timer each task has pending, and
  states the interface of a task that schedules itself.
\<close>

text \<open>The seconds of a task's last timer, unless that was cancelled.\<close>

fun after_call :: "task \<Rightarrow> int option \<Rightarrow> sys_call \<Rightarrow> int option" where
  "after_call t p (Schedule_Timer u s) = (if t = u then Some s else p)"
| "after_call t p (Cancel_Timer u) = (if t = u then None else p)"
| "after_call t p _ = p"

definition pending_timer :: "task \<Rightarrow> sys_call list \<Rightarrow> int option" where
  "pending_timer t cs = foldl (after_call t) None cs"

definition timer_call :: "sys_call \<Rightarrow> bool" where
  "timer_call c = (case c of Schedule_Timer _ _ \<Rightarrow> True | Cancel_Timer _ \<Rightarrow> True | _ \<Rightarrow> False)"

lemma after_call_other: "\<not> timer_call c \<Longrightarrow> after_call t p c = p"
  by (cases c) (simp_all add: timer_call_def)

lemma pending_Nil [simp]: "pending_timer t [] = None"
  by (simp add: pending_timer_def)

lemma pending_snoc [simp]: "pending_timer t (cs @ [c]) = after_call t (pending_timer t cs) c"
  by (simp add: pending_timer_def)

lemma pending_two [simp]:
  "pending_timer t (cs @ [c, d]) = after_call t (after_call t (pending_timer t cs) c) d"
  by (simp add: pending_timer_def)

subsection \<open>What a step that sets no timer keeps\<close>

definition quiet_part ::
    "'z world_scheme \<Rightarrow> parser \<times> (cstring \<rightharpoonup> cstring) \<times> get_license_task \<times> process_killer_task \<times>
      int option \<times> int option" where
  "quiet_part w = (parser_obj w, files w, license_task w, killer_task w,
     pending_timer License_Task (calls w), pending_timer Killer_Task (calls w))"

lemma quiet_part_log [simp]: "quiet_part (w\<lparr>log := l\<rparr>) = quiet_part w"
  by (simp add: quiet_part_def)

lemma quiet_part_call:
  "\<not> timer_call c \<Longrightarrow> quiet_part (w\<lparr>calls := calls w @ [c]\<rparr>) = quiet_part w"
  by (simp add: quiet_part_def after_call_other)

lemma keeps_quiet_write_log [frame_intros]:
  "keeps quiet_part (write_log l s :: ('z world_scheme, unit) act)"
  by (simp add: write_log_def keeps_modifyA)

lemma keeps_quiet_call [frame_intros]:
  "\<not> timer_call c \<Longrightarrow> keeps quiet_part (call c :: ('z world_scheme, unit) act)"
  by (simp add: call_def keeps_modifyA quiet_part_call)

lemma keeps_quiet_send_message [frame_intros]: "keeps quiet_part (send_message e s)"
  unfolding send_message_def sender_send_def
  by (intro frame_intros) (simp add: timer_call_def)

lemma keeps_quiet_terminate_process [frame_intros]: "keeps quiet_part (terminate_process e p)"
  unfolding terminate_process_def Let_def
  by (intro frame_intros) (simp add: timer_call_def)

lemma keeps_comp: "keeps f m \<Longrightarrow> keeps (\<lambda>w. h (f w)) m"
  by (simp add: keeps_def)

subsection \<open>The interface of a task that schedules itself\<close>

text \<open>
  \<open>reschedule s\<close> cancels the timer of the task \<open>which\<close> and sets one of \<open>s\<close> seconds;
  \<open>settings\<close> is what it leaves alone besides the log, the files and the configuration.
\<close>

locale self_scheduling =
  fixes reschedule :: "int \<Rightarrow> (world, int) act"
    and which :: task
    and settings :: "world \<Rightarrow> 's"
  assumes reschedule_run:
    "\<exists>w'. reschedule s w = (Inr 0, w') \<and>
       calls w' = calls w @ [Cancel_Timer which, Schedule_Timer which s] \<and>
       log w' = log w \<and> files w' = files w \<and> parser_obj w' = parser_obj w \<and>
       settings w' = settings w"
begin

lemma reschedule_pending: "\<exists>w'. reschedule s w = (Inr 0, w') \<and> pending_timer which (calls w') = Some s"
  using reschedule_run [of s w] by auto

lemma wp_reschedule:
  assumes "\<And>w'. pending_timer which (calls w') = Some s \<Longrightarrow> files w' = files w \<Longrightarrow>
      parser_obj w' = parser_obj w \<Longrightarrow> settings w' = settings w \<Longrightarrow> Q 0 w'"
  shows "wp (reschedule s) Q E w"
  using reschedule_run [of s w] assms by (auto simp: wp_def)

lemma keeps_reschedule:
  "keeps (\<lambda>w. (files w, parser_obj w, settings w)) (reschedule s)"
  unfolding keeps_def using reschedule_run by (metis snd_conv)

lemma reschedule_never_fails: "fst (reschedule s w) = Inr 0"
  using reschedule_run [of s w] by auto

text \<open>
  Run again, \<open>reschedule\<close> replaces the timer it set: only the last one is pending.
\<close>

lemma reschedule_twice:
  "wp (thenA (reschedule s) (reschedule s'))
     (\<lambda>_ w'. pending_timer which (calls w') = Some s') (\<lambda>_ _. False) w"
  by (auto simp: effect_simps intro!: wp_reschedule)

end

end
