(* ===== verification/License_Client.thy ===== *)
theory License_Client
  imports Timers
begin

section \<open>The client of the license manager\<close>

text \<open>
  \<open>client/client_license.h\<close> and \<open>client/client_license.cpp\<close>: the data the license manager
  answers with, the loop that posts the request, and the reading of the answer.  The HTTP
  client and the JSON library (cpprestsdk) are parameters (\<open>send_request_to\<close>, \<open>json\<close>).
\<close>

subsection \<open>Data\<close>

record field_error =
  fe_message :: cstring
  fe_fieldName :: cstring
  fe_validationErrorName :: cstring

text \<open>\<open>make_shared<Errors>()\<close> value-initialises: the code starts at 0.\<close>

record errors =
  err_code :: int
  err_error_type :: cstring
  err_user_message :: cstring
  err_developer_message :: cstring
  err_field_errors :: "field_error list"

definition new_errors :: errors where
  "new_errors = \<lparr>err_code = 0, err_error_type = [], err_user_message = [],
     err_developer_message = [], err_field_errors = []\<rparr>"

definition add_error :: "field_error \<Rightarrow> errors \<Rightarrow> errors" where
  "add_error fe er = er\<lparr>err_field_errors := err_field_errors er @ [fe]\<rparr>"

record host_license =
  hl_year :: int
  hl_month :: int
  hl_license :: cstring

definition new_host_license :: host_license where
  "new_host_license = \<lparr>hl_year = 0, hl_month = 0, hl_license = []\<rparr>"

record host_status =
  hs_id :: int
  hs_name :: cstring

record result =
  res_errors :: "errors option"
  res_status_code :: nat
  res_message :: cstring
  res_host_license :: "host_license option"
  res_host_status :: "host_status option"

text \<open>\<open>Result()\<close> leaves the status code unset; it is stored before it is read.\<close>

definition new_result :: result where
  "new_result = \<lparr>res_errors = None, res_status_code = 0, res_message = [],
     res_host_license = None, res_host_status = None\<rparr>"

record request_license =
  rl_uid :: cstring
  rl_unp :: cstring
  rl_agent :: cstring
  rl_host_type :: cstring

definition is_valid :: "request_license \<Rightarrow> bool" where
  "is_valid r \<longleftrightarrow> rl_uid r \<noteq> [] \<and> rl_unp r \<noteq> [] \<and> rl_agent r \<noteq> [] \<and> rl_host_type r \<noteq> []"

subsection \<open>LicenseExtractor\<close>

text \<open>
  The constructor gives its address to the HTTP client; the member \<open>address_\<close> is not in its
  initialiser list and stays the empty URI.
\<close>

record license_extractor =
  ex_address :: cstring
  ex_client_uri :: cstring
  ex_attempt :: int
  ex_body :: "(cstring \<times> cstring) list"
  ex_request :: request_license

record client_world = world +
  client_result :: result

definition application_json :: cstring where
  "application_json = ''application/json''"

definition text_plain_utf8 :: cstring where
  "text_plain_utf8 = ''text/plain; charset=utf-8''"

definition make_request_message ::
    "'j env \<Rightarrow> request_license \<Rightarrow> ('z world_scheme, (cstring \<times> cstring) list) act" where
  "make_request_message e request =
     (let message = [(''unp'', rl_unp request), (''request'', rl_uid request),
                     (''agentId'', rl_agent request), (''hostTypeId'', rl_host_type request)]
      in thenA (write_log Info (serialize e message)) (retA message))"

definition new_license_extractor ::
    "'j env \<Rightarrow> cstring \<Rightarrow> request_license \<Rightarrow> int \<Rightarrow> ('z world_scheme, license_extractor) act" where
  "new_license_extractor e address req_lic attempt =
     thenA (tryA (make_client e address)) (
     bindA (make_request_message e req_lic) (\<lambda>body.
       retA \<lparr>ex_address = [], ex_client_uri = address, ex_attempt = attempt,
         ex_body = body, ex_request = req_lic\<rparr>))"

definition get_uri :: "license_extractor \<Rightarrow> cstring" where
  "get_uri x = ex_address x"

definition update_result :: "(result \<Rightarrow> result) \<Rightarrow> (client_world, unit) act" where
  "update_result f = modifyA (\<lambda>w. w\<lparr>client_result := f (client_result w)\<rparr>)"

subsection \<open>send_request\<close>

text \<open>One request through \<open>stage_handler::propagate\<close>, which logs what passes.\<close>

definition propagate ::
    "'j env \<Rightarrow> license_extractor \<Rightarrow> nat \<Rightarrow> (client_world, 'j http_response) act" where
  "propagate e x n =
     thenA (write_log Info (request_text e (ex_body x))) (
     thenA (call (Http_Post (ex_client_uri x))) (
     bindA (tryA (send_request_to e (ex_client_uri x) (ex_body x) n)) (\<lambda>response.
     thenA (write_log Info (response_text e response)) (retA response))))"

fun http_error :: "'a outcome \<Rightarrow> (int \<times> cstring) option" where
  "http_error (Inl (Thrown (Http_Exception c s))) = Some (c, s)"
| "http_error _ = None"

text \<open>The last attempt failed after the time allowed: log, keep the code, throw again.\<close>

definition give_up :: "int \<Rightarrow> cstring \<Rightarrow> (client_world, 'a) act" where
  "give_up c s =
     thenA (write_log Error s) (
     thenA (update_result (\<lambda>r. r\<lparr>res_errors := Some (new_errors\<lparr>err_code := c\<rparr>)\<rparr>)) (
       throwA (Http_Exception c s)))"

text \<open>\<open>while (true)\<close> from attempt \<open>n\<close>; \<open>None\<close> is a loop that never ends.\<close>

partial_function (option) attempts ::
    "'j env \<Rightarrow> license_extractor \<Rightarrow> nat \<Rightarrow> client_world
      \<Rightarrow> ('j http_response outcome \<times> client_world) option" where
  "attempts e x n w =
     (let rw = propagate e x n w
      in case http_error (fst rw) of
           None \<Rightarrow> Some rw
         | Some cs \<Rightarrow>
             if clock_after e n > ex_attempt x
             then Some (give_up (fst cs) (snd cs) (snd rw))
             else attempts e x (Suc n) (snd rw))"

definition send_request ::
    "'j env \<Rightarrow> license_extractor \<Rightarrow> (client_world, 'j http_response) act" where
  "send_request e x w =
     (if \<not> is_valid (ex_request x)
      then throwA (Runtime_Error ''message for request is empty'') w
      else case attempts e x 0 w of None \<Rightarrow> (Inl No_Return, w) | Some r \<Rightarrow> r)"

subsection \<open>processing_http_errors\<close>

definition json_field_string ::
    "'j env \<Rightarrow> 'j \<Rightarrow> cstring \<Rightarrow> (client_world, cstring) act" where
  "json_field_string e v key =
     bindA (tryA (json_index (json e) v key)) (\<lambda>f. tryA (json_as_string (json e) f))"

definition json_member_string ::
    "'j env \<Rightarrow> 'j \<Rightarrow> cstring \<Rightarrow> (client_world, cstring) act" where
  "json_member_string e ob key =
     bindA (tryA (json_at (json e) ob key)) (\<lambda>f. tryA (json_as_string (json e) f))"

definition read_field_error :: "'j env \<Rightarrow> 'j \<Rightarrow> (client_world, field_error) act" where
  "read_field_error e field =
     bindA (tryA (json_as_object (json e) field)) (\<lambda>ob.
     bindA (json_member_string e ob ''message'') (\<lambda>message.
     bindA (json_member_string e ob ''validationErrorName'') (\<lambda>name.
     bindA (json_member_string e ob ''fieldPath'') (\<lambda>path.
       retA \<lparr>fe_message = message, fe_fieldName = path, fe_validationErrorName = name\<rparr>))))"

fun read_field_errors ::
    "'j env \<Rightarrow> 'j list \<Rightarrow> errors \<Rightarrow> cstring \<Rightarrow> (client_world, errors \<times> cstring) act" where
  "read_field_errors e [] er text = retA (er, text)"
| "read_field_errors e (f # fs) er text =
     bindA (read_field_error e f) (\<lambda>fe.
       read_field_errors e fs (add_error fe er)
         (text @ '', fieldPath: '' @ fe_fieldName fe @ '' '' @ fe_message fe))"

definition unprocessable_errors ::
    "'j env \<Rightarrow> 'j http_response \<Rightarrow> errors \<Rightarrow> cstring \<Rightarrow> (client_world, errors \<times> cstring) act" where
  "unprocessable_errors e response er text =
     bindA (tryA (extract_json response)) (\<lambda>v.
     bindA (json_field_string e v ''userMessage'') (\<lambda>user.
     bindA (tryA (json_index (json e) v ''fieldErrors'')) (\<lambda>fields.
       if json_is_null (json e) fields
       then retA (er\<lparr>err_user_message := user\<rparr>, text @ '' '' @ user)
       else bindA (tryA (json_as_array (json e) fields)) (\<lambda>fs.
              read_field_errors e fs (er\<lparr>err_user_message := user\<rparr>) (text @ '' '' @ user)))))"

definition processing_http_errors ::
    "'j env \<Rightarrow> 'j http_response \<Rightarrow> (client_world, result) act" where
  "processing_http_errors e response =
     (let text = ''Fault connection: status code - '' @ show_nat (status_code response);
          er = new_errors\<lparr>err_developer_message := text\<rparr>
      in if status_code response = 422
         then bindA (unprocessable_errors e response er text) (\<lambda>(er', text').
              thenA (update_result (\<lambda>r. r\<lparr>res_errors := Some er'\<rparr>))
                (throwA (Runtime_Error (c_str text'))))
         else if status_code response = 502
         then thenA (update_result (\<lambda>r. r\<lparr>res_errors := Some er\<rparr>))
                (throwA (Runtime_Error (c_str text)))
         else throwA (Runtime_Error (c_str text)))"

subsection \<open>processing_license\<close>

text \<open>A field that is set only when the JSON value is not null.\<close>

definition optional_field ::
    "'j env \<Rightarrow> 'j \<Rightarrow> cstring \<Rightarrow> ('j \<Rightarrow> cpp_exn + 'b) \<Rightarrow> 'b \<Rightarrow> (client_world, 'b) act" where
  "optional_field e v key convert def =
     bindA (tryA (json_index (json e) v key)) (\<lambda>f.
       if json_is_null (json e) f then retA def else tryA (convert f))"

definition read_host_license :: "'j env \<Rightarrow> 'j \<Rightarrow> (client_world, host_license) act" where
  "read_host_license e v =
     bindA (optional_field e v ''license'' (json_as_string (json e)) []) (\<lambda>license.
     bindA (optional_field e v ''month'' (json_as_integer (json e)) 0) (\<lambda>month.
     bindA (optional_field e v ''year'' (json_as_integer (json e)) 0) (\<lambda>year.
       retA (new_host_license\<lparr>hl_license := license, hl_month := month, hl_year := year\<rparr>))))"

definition read_host_status :: "'j env \<Rightarrow> 'j \<Rightarrow> (client_world, host_status) act" where
  "read_host_status e v =
     bindA (tryA (json_as_object (json e) v)) (\<lambda>ob.
     bindA (tryA (json_at (json e) ob ''id'')) (\<lambda>i.
     bindA (tryA (json_as_integer (json e) i)) (\<lambda>status_id.
     bindA (json_member_string e ob ''name'') (\<lambda>name.
       retA \<lparr>hs_id = status_id, hs_name = name\<rparr>))))"

definition read_license_part :: "'j env \<Rightarrow> 'j \<Rightarrow> (client_world, unit) act" where
  "read_license_part e v =
     bindA (tryA (json_index (json e) v ''hostLicense'')) (\<lambda>lj.
       if json_is_null (json e) lj then retA ()
       else bindA (read_host_license e lj) (\<lambda>hl.
              update_result (\<lambda>r. r\<lparr>res_host_license := Some hl\<rparr>)))"

text \<open>
  The body of an answer with status 200.  When \<open>hostStatus\<close> is null the function ends without
  a \<open>return\<close> statement, which is undefined behaviour.
\<close>

definition read_answer :: "'j env \<Rightarrow> 'j \<Rightarrow> (client_world, result) act" where
  "read_answer e v =
     bindA (json_field_string e v ''message'') (\<lambda>message.
     thenA (update_result (\<lambda>r. r\<lparr>res_message := message\<rparr>)) (
     bindA (tryA (json_index (json e) v ''hostStatus'')) (\<lambda>sj.
       if json_is_null (json e) sj then failA (Undefined Missing_Return)
       else bindA (read_host_status e sj) (\<lambda>hs.
            thenA (update_result (\<lambda>r. r\<lparr>res_host_status := Some hs\<rparr>)) (
            thenA (if hs_id hs = status_ACTIVE then read_license_part e v else retA ())
              (readA client_result))))))"

definition processing_license ::
    "'j env \<Rightarrow> license_extractor \<Rightarrow> (client_world, result) act" where
  "processing_license e x =
     bindA (send_request e x) (\<lambda>response.
     thenA (update_result (\<lambda>r. r\<lparr>res_status_code := status_code response\<rparr>)) (
       if status_code response = 200
       then if content_type response \<noteq> application_json
            then thenA (update_result (\<lambda>r.
                     r\<lparr>res_errors := Some (new_errors\<lparr>err_error_type := text_plain_utf8\<rparr>)\<rparr>))
                   (throwA (Http_Exception MIME_TYPES
                     (''ERROR: server returned '' @ text_plain_utf8)))
            else bindA (tryA (extract_json response)) (read_answer e)
       else processing_http_errors e response))"

text \<open>A task runs the client on the \<open>Result\<close> its extractor owns.\<close>

definition client_start :: "world \<Rightarrow> client_world" where
  "client_start w = world.extend w (client_world.fields new_result)"

definition run_client :: "(client_world, 'a) act \<Rightarrow> (world, 'a) act" where
  "run_client m w = (let rw = m (client_start w) in (fst rw, world.truncate (snd rw)))"

subsection \<open>The loop of send_request\<close>

text \<open>Attempt \<open>n\<close> fails with an \<open>http_exception\<close> while there is time left.\<close>

definition retries :: "'j env \<Rightarrow> license_extractor \<Rightarrow> nat \<Rightarrow> bool" where
  "retries e x n \<longleftrightarrow>
     (case send_request_to e (ex_client_uri x) (ex_body x) n of
        Inl (Http_Exception c s) \<Rightarrow> clock_after e n \<le> ex_attempt x
      | _ \<Rightarrow> False)"

definition posts :: "license_extractor \<Rightarrow> nat \<Rightarrow> sys_call list" where
  "posts x n = replicate n (Http_Post (ex_client_uri x))"

definition attempt_outcome ::
    "'j env \<Rightarrow> license_extractor \<Rightarrow> nat \<Rightarrow> 'j http_response outcome" where
  "attempt_outcome e x n =
     (case send_request_to e (ex_client_uri x) (ex_body x) n of
        Inl ex \<Rightarrow> Inl (Thrown ex) | Inr r \<Rightarrow> Inr r)"

text \<open>
  The loop ended with the outcome of attempt \<open>n\<close>, after \<open>k\<close> requests; a request that succeeds
  leaves the \<open>Result\<close> alone.
\<close>

definition ended_with ::
    "'j env \<Rightarrow> license_extractor \<Rightarrow> nat \<Rightarrow> nat \<Rightarrow> client_world
      \<Rightarrow> 'j http_response outcome \<times> client_world \<Rightarrow> bool" where
  "ended_with e x n k w rw \<longleftrightarrow>
     fst rw = attempt_outcome e x n \<and> calls (snd rw) = calls w @ posts x k \<and>
     quiet_part (snd rw) = quiet_part w \<and>
     (case fst rw of Inl _ \<Rightarrow> True | Inr _ \<Rightarrow> client_result (snd rw) = client_result w)"

lemma propagate_result:
  "fst (propagate e x n w) = attempt_outcome e x n"
  "calls (snd (propagate e x n w)) = calls w @ posts x 1"
  "client_result (snd (propagate e x n w)) = client_result w"
  "quiet_part (snd (propagate e x n w)) = quiet_part w"
  by (simp_all add: propagate_def attempt_outcome_def quiet_part_def thenA_def bindA_def write_log_def call_def modifyA_def
      tryA_def throwA_def failA_def retA_def posts_def split: sum.split)

lemma http_error_Some: "http_error r = Some (c, s) \<longleftrightarrow> r = Inl (Thrown (Http_Exception c s))"
  by (induction r rule: http_error.induct) auto

lemma give_up_result:
  "fst (give_up c s w) = Inl (Thrown (Http_Exception c s))"
  "calls (snd (give_up c s w)) = calls w"
  "quiet_part (snd (give_up c s w)) = quiet_part w"
  by (simp_all add: quiet_part_def give_up_def thenA_def bindA_def write_log_def update_result_def modifyA_def
      throwA_def failA_def)

lemma attempts_retry:
  "retries e x n \<Longrightarrow> attempts e x n w = attempts e x (Suc n) (snd (propagate e x n w))"
  by (subst attempts.simps)
    (auto simp: retries_def propagate_result attempt_outcome_def Let_def
      split: sum.splits cpp_exn.splits)

lemma attempts_final:
  assumes "\<not> retries e x n"
  shows "\<exists>rw. attempts e x n w = Some rw \<and> ended_with e x n 1 w rw"
  using assms propagate_result [of e x n w]
  by (subst attempts.simps)
    (auto simp: retries_def Let_def give_up_result ended_with_def attempt_outcome_def
      simp del: split_paired_Ex split: sum.splits cpp_exn.splits)

lemma ended_with_step:
  assumes "ended_with e x n k (snd (propagate e x m w)) rw"
  shows "ended_with e x n (Suc k) w rw"
  using assms by (auto simp: ended_with_def propagate_result posts_def split: sum.splits)

lemma attempts_run:
  assumes "\<not> retries e x n" and "\<And>i. i < n \<Longrightarrow> retries e x i" and "m \<le> n"
  shows "\<exists>rw. attempts e x m w = Some rw \<and> ended_with e x n (Suc n - m) w rw"
  using assms(3)
proof (induction m arbitrary: w rule: inc_induct)
  case base
  then show ?case using attempts_final [OF assms(1)] by simp
next
  case (step m)
  obtain rw where "attempts e x (Suc m) (snd (propagate e x m w)) = Some rw"
    and "ended_with e x n (Suc n - Suc m) (snd (propagate e x m w)) rw"
    using step.IH by blast
  with step.hyps assms(2) [of m] ended_with_step [of e x n "n - m" m w rw] show ?case
    by (auto simp: attempts_retry Suc_diff_le)
qed

lemma attempts_Some_final:
  fixes e :: "'j env"
  assumes "attempts e x n w = Some r"
  shows "\<exists>m. \<not> retries e x m"
proof -
  have step: "\<exists>m. \<not> retries e x m"
    if IH: "\<And>e x n w y. att e x n w = Some y \<Longrightarrow> \<exists>m. \<not> retries e x m"
    and body: "(let rw = propagate e x n w
      in case http_error (fst rw) of None \<Rightarrow> Some rw
         | Some cs \<Rightarrow>
             if ex_attempt x < clock_after e n then Some (give_up (fst cs) (snd cs) (snd rw))
             else att e x (Suc n) (snd rw)) = Some r"
    for att and e :: "'j env" and x n w r
  proof (cases "retries e x n")
    case True
    then obtain w' where "att e x (Suc n) w' = Some r"
      using body
      by (auto simp: Let_def retries_def propagate_result attempt_outcome_def
          split: sum.splits cpp_exn.splits)
    then show ?thesis by (rule IH)
  qed blast
  show ?thesis
    by (rule attempts.raw_induct [where P = "\<lambda>(e :: 'j env) x n w r. \<exists>m. \<not> retries e x m"
          and xa = "(((e, x), n), w)" and y = r, unfolded prod.case, OF step assms])
qed

text \<open>The first attempt that is final, when there is one.\<close>

lemma attempts_least:
  assumes "\<not> (\<forall>n. retries e x n)"
  shows "\<exists>rw. attempts e x 0 w = Some rw \<and>
    ended_with e x (LEAST n. \<not> retries e x n) (Suc (LEAST n. \<not> retries e x n)) w rw"
proof -
  define n where "n = (LEAST n. \<not> retries e x n)"
  have final: "\<not> retries e x n"
    unfolding n_def using assms by (metis (mono_tags, lifting) LeastI)
  have before: "retries e x i" if "i < n" for i
    using not_less_Least that unfolding n_def by blast
  have "\<exists>rw. attempts e x 0 w = Some rw \<and> ended_with e x n (Suc n - 0) w rw"
    by (rule attempts_run [OF final before]) simp_all
  then show ?thesis unfolding n_def diff_zero .
qed

lemma attempts_None: "attempts e x 0 w = None \<longleftrightarrow> (\<forall>n. retries e x n)"
  using attempts_least [of e x w] attempts_Some_final [of e x 0 w]
  by (cases "attempts e x 0 w") auto

lemma send_request_run:
  "send_request e x w =
     (if \<not> is_valid (ex_request x)
      then (Inl (Thrown (Runtime_Error ''message for request is empty'')), w)
      else case attempts e x 0 w of None \<Rightarrow> (Inl No_Return, w) | Some r \<Rightarrow> r)"
  by (simp add: send_request_def throwA_def failA_def)

text \<open>
  C3: \<open>send_request\<close> refuses an incomplete request without posting anything.  Otherwise it ends
  with the outcome of the first attempt that succeeds, or fails with another exception, or fails
  after the time allowed, having posted once for every attempt up to that one; it never returns
  exactly when every attempt fails with an \<open>http_exception\<close> while the clock stays within the
  time allowed.
\<close>

theorem send_request_exact:
  "let rw = send_request e x w; n = (LEAST n. \<not> retries e x n)
   in if \<not> is_valid (ex_request x)
      then rw = (Inl (Thrown (Runtime_Error ''message for request is empty'')), w)
      else if \<forall>n. retries e x n then rw = (Inl No_Return, w)
      else fst rw = attempt_outcome e x n \<and> calls (snd rw) = calls w @ posts x (Suc n)"
proof (cases "\<forall>n. retries e x n")
  case True
  then show ?thesis using attempts_None [of e x w] by (simp add: send_request_run)
next
  case False
  obtain rw where "attempts e x 0 w = Some rw"
    "ended_with e x (LEAST n. \<not> retries e x n) (Suc (LEAST n. \<not> retries e x n)) w rw"
    using attempts_least [OF False] by blast
  with False show ?thesis by (auto simp: send_request_run Let_def ended_with_def)
qed

subsection \<open>What processing_license returns\<close>

lemma wp_send_request:
  assumes "\<And>r w'. fst (send_request e x w) = Inr r \<Longrightarrow> client_result w' = client_result w \<Longrightarrow> Q r w'"
    and "\<And>ex w'. E (Thrown ex) w'"
    and "is_valid (ex_request x) \<Longrightarrow> \<forall>n. retries e x n \<Longrightarrow> E No_Return w"
  shows "wp (send_request e x) Q E w"
proof (cases "is_valid (ex_request x) \<and> \<not> (\<forall>n. retries e x n)")
  case True
  then obtain rw where run: "send_request e x w = rw"
    and ended: "ended_with e x (LEAST n. \<not> retries e x n) (Suc (LEAST n. \<not> retries e x n)) w rw"
    using attempts_least [of e x w] by (auto simp: send_request_run)
  then show ?thesis
    using assms(1,2)
    by (auto simp: wp_def ended_with_def attempt_outcome_def split: prod.split sum.splits)
next
  case False
  then show ?thesis
    using assms attempts_None [of e x w]
    by (auto simp: wp_def send_request_run)
qed

lemma wp_update_result [effect_simps]:
  "wp (update_result f) Q E w = Q () (w\<lparr>client_result := f (client_result w)\<rparr>)"
  by (simp add: update_result_def wp_modifyA)


lemma wp_json_field_string [effect_simps]:
  "wp (json_field_string e v k) Q E w =
     (case json_index (json e) v k of
        Inl ex \<Rightarrow> E (Thrown ex) w
      | Inr f \<Rightarrow> (case json_as_string (json e) f of Inl ex \<Rightarrow> E (Thrown ex) w | Inr s \<Rightarrow> Q s w))"
  by (simp add: json_field_string_def effect_simps cong: sum.case_cong)

lemma only_throws_reading [frame_intros]:
  "only_throws (json_field_string e v k)" "only_throws (json_member_string e v k)"
  "only_throws (update_result f)" "only_throws (optional_field e v k c d)"
  "only_throws (read_host_status e v)"
  unfolding json_field_string_def json_member_string_def update_result_def optional_field_def
    read_host_status_def
  by (intro frame_intros)+

lemma only_throws_read_license_part [frame_intros]: "only_throws (read_license_part e v)"
  unfolding read_license_part_def read_host_license_def by (intro frame_intros)

text \<open>Reading JSON changes nothing; only the license part of the result is written.\<close>

definition status_part :: "client_world \<Rightarrow> nat \<times> host_status option" where
  "status_part w = (res_status_code (client_result w), res_host_status (client_result w))"

lemma keeps_reading [frame_intros]:
  "keeps g (json_field_string e v k)" "keeps g (json_member_string e v k)"
  "keeps g (optional_field e v k c d)" "keeps g (read_host_status e v)"
  "keeps g (read_host_license e v)"
  unfolding json_field_string_def json_member_string_def optional_field_def
    read_host_status_def read_host_license_def
  by (intro frame_intros)+

lemma keeps_read_license_part: "keeps status_part (read_license_part e v)"
  unfolding read_license_part_def
  by (intro frame_intros) (simp add: update_result_def keeps_def modifyA_def status_part_def)

text \<open>Consequence rules from a frame and from the kind of failure.\<close>

lemma wp_frame:
  assumes "keeps g m" "only_throws m"
    and "\<And>a w'. g w' = g w \<Longrightarrow> Q a w'" and "\<And>ex w'. E (Thrown ex) w'"
  shows "wp m Q E w"
proof -
  obtain r w' where run: "m w = (r, w')" by fastforce
  show ?thesis
  proof (cases r)
    case (Inl f)
    with run assms(2) obtain ex where "f = Thrown ex"
      unfolding only_throws_def by (metis fst_conv)
    with run Inl assms(4) show ?thesis by (simp add: wp_def)
  next
    case (Inr a)
    with run assms(3) keepsD [OF assms(1) run] show ?thesis by (simp add: wp_def)
  qed
qed

text \<open>
  The contract of \<open>processing_license\<close>: a result that comes back is the answer to a request
  that succeeded with status 200 and JSON content; it carries a host status, and a license
  only when that status is ACTIVE.
\<close>

definition sound_result :: "result \<Rightarrow> bool" where
  "sound_result r \<longleftrightarrow>
     res_status_code r = 200 \<and>
     (case res_host_status r of
        None \<Rightarrow> False
      | Some hs \<Rightarrow> res_host_license r = None \<or> hs_id hs = status_ACTIVE)"

definition no_host_status :: "'j env \<Rightarrow> 'j http_response \<Rightarrow> bool" where
  "no_host_status e resp \<longleftrightarrow>
     (case extract_json resp of
        Inl _ \<Rightarrow> False
      | Inr v \<Rightarrow> (case json_index (json e) v ''hostStatus'' of
                    Inl _ \<Rightarrow> False | Inr sj \<Rightarrow> json_is_null (json e) sj))"


definition answer_failure ::
    "'j env \<Rightarrow> license_extractor \<Rightarrow> client_world \<Rightarrow> failure \<Rightarrow> bool" where
  "answer_failure e x w f =
     (case f of
        Thrown _ \<Rightarrow> True
      | No_Return \<Rightarrow> is_valid (ex_request x) \<and> (\<forall>n. retries e x n)
      | Undefined u \<Rightarrow> u = Missing_Return \<and>
          (\<exists>resp. fst (send_request e x w) = Inr resp \<and> status_code resp = 200 \<and>
             content_type resp = application_json \<and> no_host_status e resp))"

lemma wp_read_answer:
  assumes "res_status_code (client_result w) = 200" "res_host_license (client_result w) = None"
    and "extract_json resp = Inr v" and "\<And>ex w'. E (Thrown ex) w'"
    and "\<And>w'. no_host_status e resp \<Longrightarrow> E (Undefined Missing_Return) w'"
    and "\<And>r w'. sound_result r \<Longrightarrow> Q r w'"
  shows "wp (read_answer e v) Q E w"
proof -
  have host: "wp (read_host_status e sj) (\<lambda>hs w'.
        wp (thenA (update_result (\<lambda>r. r\<lparr>res_host_status := Some hs\<rparr>))
             (thenA (if hs_id hs = status_ACTIVE then read_license_part e v else retA ())
               (readA client_result))) Q E w') E w1"
    if w1: "res_status_code (client_result w1) = 200" "res_host_license (client_result w1) = None"
    for sj w1
  proof (rule wp_frame [where g = "\<lambda>w. w"], intro frame_intros, intro frame_intros)
    fix hs w2 assume "w2 = w1"
    moreover have "wp (read_license_part e v) (\<lambda>_ w'. Q (client_result w') w') E
        (w1\<lparr>client_result := (client_result w1)\<lparr>res_host_status := Some hs\<rparr>\<rparr>)"
      if "hs_id hs = status_ACTIVE"
    proof (rule wp_frame [OF keeps_read_license_part])
      fix a w3
      assume "status_part w3 = status_part
        (w1\<lparr>client_result := (client_result w1)\<lparr>res_host_status := Some hs\<rparr>\<rparr>)"
      then have "sound_result (client_result w3)"
        using w1 that by (simp add: status_part_def sound_result_def)
      then show "Q (client_result w3) w3" by (rule assms(6))
    qed (auto intro: frame_intros assms(4))
    ultimately show "wp (thenA (update_result (\<lambda>r. r\<lparr>res_host_status := Some hs\<rparr>))
             (thenA (if hs_id hs = status_ACTIVE then read_license_part e v else retA ())
               (readA client_result))) Q E w2"
      using w1 by (simp add: effect_simps assms(6) sound_result_def)
  qed (rule assms(4))
  show ?thesis
    unfolding read_answer_def
    using assms host
    by (auto simp: effect_simps no_host_status_def split: sum.split)
qed

lemma wp_processing_http_errors:
  assumes "\<And>ex w'. E (Thrown ex) w'"
  shows "wp (processing_http_errors e resp) Q E w"
proof -
  have rfe: "only_throws (read_field_errors e fs er msg)" for fs er msg
    by (induction fs arbitrary: er msg)
      (auto intro!: frame_intros simp: read_field_error_def)
  have "wp (unprocessable_errors e resp er msg)
      (\<lambda>p w'. wp (case p of (er', text') \<Rightarrow> thenA (update_result (\<lambda>r. r\<lparr>res_errors := Some er'\<rparr>))
                (throwA (Runtime_Error (c_str text')))) Q E w') E w" for er msg
    by (rule wp_frame [where g = "\<lambda>_. ()"])
      (auto simp: unprocessable_errors_def keeps_def effect_simps assms
        intro!: frame_intros rfe split: prod.split)
  then show ?thesis
    by (simp add: processing_http_errors_def effect_simps Let_def assms)
qed

lemma processing_license_wp:
  assumes "res_host_license (client_result w) = None"
  shows "wp (processing_license e x) (\<lambda>r w'. sound_result r \<and>
      (\<exists>resp. fst (send_request e x w) = Inr resp \<and> status_code resp = 200 \<and>
         content_type resp = application_json))
    (\<lambda>f w'. answer_failure e x w f) w"
  unfolding processing_license_def wp_bindA
  using assms
  by (intro wp_send_request)
    (auto simp: effect_simps answer_failure_def split: sum.split
      intro!: wp_read_answer wp_processing_http_errors)


subsection \<open>What the client keeps\<close>

lemma keeps_quiet_send_request [frame_intros]: "keeps quiet_part (send_request e x)"
proof -
  have "quiet_part (snd (send_request e x w)) = quiet_part w" for w
  proof (cases "\<forall>n. retries e x n")
    case True
    then show ?thesis using attempts_None [of e x w] by (simp add: send_request_run)
  next
    case False
    obtain rw where "attempts e x 0 w = Some rw"
      "ended_with e x (LEAST n. \<not> retries e x n) (Suc (LEAST n. \<not> retries e x n)) w rw"
      using attempts_least [OF False] by blast
    then show ?thesis by (simp add: send_request_run ended_with_def)
  qed
  then show ?thesis by (simp add: keeps_def)
qed

lemma keeps_quiet_update_result [frame_intros]: "keeps quiet_part (update_result f)"
  by (simp add: update_result_def keeps_modifyA quiet_part_def)

lemma keeps_quiet_read_license_part [frame_intros]: "keeps quiet_part (read_license_part e v)"
  unfolding read_license_part_def by (intro frame_intros)

lemma keeps_quiet_read_answer [frame_intros]: "keeps quiet_part (read_answer e v)"
  unfolding read_answer_def by (intro frame_intros)

lemma keeps_reading_errors [frame_intros]:
  "keeps g (read_field_errors e fs er msg)" "keeps g (unprocessable_errors e resp er msg)"
proof -
  show fields: "keeps g (read_field_errors e fs er msg)" for fs er msg
    by (induction fs arbitrary: er msg) (auto intro!: frame_intros simp: read_field_error_def)
  show "keeps g (unprocessable_errors e resp er msg)"
    unfolding unprocessable_errors_def by (intro frame_intros fields)
qed

lemma keeps_quiet_http_errors [frame_intros]: "keeps quiet_part (processing_http_errors e resp)"
  unfolding processing_http_errors_def Let_def
  by (intro frame_intros) (auto intro!: frame_intros split: prod.split)

lemma keeps_quiet_processing_license [frame_intros]: "keeps quiet_part (processing_license e x)"
  unfolding processing_license_def by (intro frame_intros)

lemma keeps_quiet_run_client [frame_intros]:
  assumes "keeps quiet_part m"
  shows "keeps quiet_part (run_client m)"
proof -
  have "quiet_part (world.truncate w') = quiet_part w'" for w' :: client_world
    by (simp add: quiet_part_def world.defs)
  moreover have "quiet_part (client_start w) = quiet_part w" for w
    by (simp add: quiet_part_def client_start_def world.defs)
  ultimately show ?thesis
    using assms by (simp add: keeps_def run_client_def Let_def)
qed

lemma keeps_quiet_new_extractor [frame_intros]:
  "keeps quiet_part (new_license_extractor e a r n :: ('z world_scheme, license_extractor) act)"
  unfolding new_license_extractor_def make_request_message_def Let_def by (intro frame_intros)

text \<open>A client run reports a contract result, or fails as \<open>answer_failure\<close> says.\<close>

lemma wp_run_processing_license:
  assumes "\<And>r w'. sound_result r \<Longrightarrow> quiet_part w' = quiet_part w \<Longrightarrow>
      fst (run_client (processing_license e x) w) = Inr r \<Longrightarrow> Q r w'"
    and "\<And>f w'. quiet_part w' = quiet_part w \<Longrightarrow>
      answer_failure e x (client_start w) f \<Longrightarrow>
      fst (run_client (processing_license e x) w) = Inl f \<Longrightarrow> E f w'"
  shows "wp (run_client (processing_license e x)) Q E w"
proof -
  obtain r w' where run: "run_client (processing_license e x) w = (r, w')" by fastforce
  have keep: "quiet_part w' = quiet_part w"
    using keepsD [OF keeps_quiet_run_client [OF keeps_quiet_processing_license] run] .
  have "res_host_license (client_result (client_start w)) = None"
    by (simp add: client_start_def world.defs client_world.defs new_result_def)
  from processing_license_wp [OF this, of e x] have
    "case r of Inl f \<Rightarrow> answer_failure e x (client_start w) f | Inr v \<Rightarrow> sound_result v"
    using run by (auto simp: wp_def run_client_def Let_def split: prod.splits sum.splits)
  with keep run assms show ?thesis
    by (auto simp: wp_def split: sum.splits)
qed

end
