(* ===== verification/License_Check.thy ===== *)
theory License_Check
  imports License_Client
begin

section \<open>class LicenseChecker\<close>

text \<open>
  \<open>license/license_checker.h\<close> and \<open>license/license_checker.cpp\<close>: the commands of the external
  license program, the license file, and the dates.  The object has no data members.
\<close>

subsection \<open>The license program\<close>

definition run_proc :: "'j env \<Rightarrow> cstring \<Rightarrow> (world, cstring) act" where
  "run_proc e command =
     thenA (call (Run_Child command))
       (case run_child e command of
          Inl message \<Rightarrow> throwA (Process_Error message)
        | Inr out \<Rightarrow> retA (first_line out))"

text \<open>The characters of \<open>"%s -v --uid-file %s --lic-file %s --prod %s"\<close> and \<open>BUFSIZ\<close> (glibc).\<close>

definition verify_text :: "options \<Rightarrow> cstring" where
  "verify_text opts = c_str (opt_lic_app opts) @ '' -v --uid-file '' @ c_str (opt_uid_file_name opts) @
     '' --lic-file '' @ c_str (opt_lic_file opts) @ '' --prod '' @ c_str (opt_prod opts)"

definition BUFSIZ :: nat where "BUFSIZ = 8192"

definition make_verify_license_cmd :: "(world, cstring) act" where
  "make_verify_license_cmd =
     bindA (readA config) (\<lambda>opts.
       let buffer = verify_text opts
       in if BUFSIZ < length buffer + 1 then failA (Undefined Buffer_Overflow)
          else thenA (write_log Info buffer) (retA buffer))"

definition make_machine_uid_cmd :: "(world, cstring) act" where
  "make_machine_uid_cmd =
     bindA (readA config) (\<lambda>opts.
       let command = opt_lic_app opts @ '' '' @ opt_make_uid_cmd opts @ '' '' @ opt_prod opts
       in thenA (write_log Info (c_str command)) (retA command))"

definition verify_license :: "'j env \<Rightarrow> (world, bool) act" where
  "verify_license e =
     bindA make_verify_license_cmd (\<lambda>command.
     bindA (run_proc e command) (\<lambda>line.
       if line = [] then throwA (Runtime_Error (command @ '' of output is empty''))
       else let code = substr_upto line (find_first_of CHR '':'' line)
            in if code = ''ERROR''
               then thenA (write_log Error (c_str (''State license: '' @ line))) (retA False)
               else if code \<noteq> ''SUCCESS''
               then thenA (write_log Info (c_str (''State license: '' @ line))) (retA True)
               else throwA (Runtime_Error (command @ '' returned invalid responce''))))"

definition erase_last_if :: "char \<Rightarrow> cstring \<Rightarrow> cstring" where
  "erase_last_if c s = (if s \<noteq> [] \<and> last s = c then butlast s else s)"

definition generate_machine_uid :: "'j env \<Rightarrow> (world, cstring) act" where
  "generate_machine_uid e =
     bindA make_machine_uid_cmd (\<lambda>command.
     bindA (run_proc e command) (\<lambda>line.
       if line = [] then throwA (Runtime_Error ''does not make file by lic'')
       else let line = erase_last_if CR line
            in if length line \<noteq> UID_SIZE
               then throwA (Runtime_Error
                      (''size of UID isn't valid: '' @ show_nat (length line)))
               else retA line))"

subsection \<open>The license file\<close>

fun scan_entries :: "cstring \<Rightarrow> (cstring \<times> bool) list \<Rightarrow> bool \<Rightarrow> bool" where
  "scan_entries file_name [] result = result"
| "scan_entries file_name ((leaf, is_directory) # es) result =
     (if is_directory then scan_entries file_name es result
      else if leaf = file_name then scan_entries file_name es True
      else scan_entries file_name es result)"

definition find_file :: "'j env \<Rightarrow> cstring \<Rightarrow> cstring \<Rightarrow> (world, bool) act" where
  "find_file e dir_path file_name =
     bindA (readA files) (\<lambda>fs.
     bindA (tryA (list_dir e fs dir_path)) (\<lambda>entries.
       case entries of
         None \<Rightarrow> retA False
       | Some es \<Rightarrow> retA (scan_entries file_name es False)))"

definition is_license_file :: "'j env \<Rightarrow> (world, bool) act" where
  "is_license_file e =
     bindA (readA config) (\<lambda>opts.
     bindA (find_file e (split_file_path (opt_lic_file opts)) (opt_lic_file_name opts)) (\<lambda>result.
     thenA (if result then retA ()
            else write_log Error (c_str (opt_lic_file opts @ '' not found'')))
       (retA result)))"

definition save_license_to_file :: "'j env \<Rightarrow> cstring \<Rightarrow> (world, bool) act" where
  "save_license_to_file e license =
     (let license = erase_last_if NUL license
      in bindA (readA config) (\<lambda>opts.
           if can_write e (opt_lic_file opts)
           then thenA (modifyA (\<lambda>w. w\<lparr>files := (files w)(opt_lic_file opts \<mapsto> license)\<rparr>))
                  (retA True)
           else retA False))"

definition read_license_from_file :: "cstring \<Rightarrow> (world, cstring) act" where
  "read_license_from_file file_name =
     readA (\<lambda>w. case files w file_name of None \<Rightarrow> [] | Some content \<Rightarrow> extract_word content)"

subsection \<open>Dates\<close>

record date =
  date_day :: int
  date_month :: int
  date_year :: int

definition is_license_update_day :: "'j env \<Rightarrow> (world, bool) act" where
  "is_license_update_day e =
     readA (\<lambda>w. today e \<ge> opt_day_license_update (config w) \<and>
                today e \<le> opt_day_license_update (config w) + CHECK_DAYS)"

definition is_license_check_day :: "'j env \<Rightarrow> (world, bool) act" where
  "is_license_check_day e = readA (\<lambda>w. today e = opt_day_license_check (config w))"

text \<open>
  One \<open>%d\<close> of \<open>sscanf\<close>: white space, a sign, digits; it fails without a digit.  The value is
  \<open>strtol\<close>'s, converted to \<open>int\<close>; the rest of the input comes back.
\<close>

definition scan_int :: "cstring \<Rightarrow> (int \<times> cstring) option" where
  "scan_int s =
     (let t = dropWhile is_space s;
          u = (if t \<noteq> [] \<and> (hd t = CHR ''-'' \<or> hd t = CHR ''+'') then tl t else t)
      in if takeWhile is_digit u = [] then None
         else Some (c_atoi (take (length t - length u) t @ takeWhile is_digit u),
                    dropWhile is_digit u))"

text \<open>\<open>sscanf(s, "%d-%d-%d", ...)\<close>: the integers it assigns, at most \<open>n\<close>.\<close>

fun scan_ints :: "nat \<Rightarrow> cstring \<Rightarrow> int list" where
  "scan_ints 0 s = []"
| "scan_ints (Suc n) s =
     (case scan_int s of
        None \<Rightarrow> []
      | Some (i, rest) \<Rightarrow>
          (case rest of
             [] \<Rightarrow> [i]
           | c # cs \<Rightarrow> if c = CHR ''-'' then i # scan_ints n cs else [i]))"

definition extract_license_date :: "'j env \<Rightarrow> cstring \<Rightarrow> (world, date) act" where
  "extract_license_date e lic =
     (let splitted = getline_items CHR ''.'' lic []
      in if length splitted \<le> 2 then failA (Undefined Out_Of_Range)
         else if splitted ! 2 = [] then retA \<lparr>date_day = 0, date_month = 0, date_year = 0\<rparr>
         else bindA (tryA (from_base64 e (splitted ! 2))) (\<lambda>str.
                case scan_ints 3 (c_str str) of
                  [year, month, day] \<Rightarrow>
                    retA \<lparr>date_day = day, date_month = month, date_year = year\<rparr>
                | _ \<Rightarrow> failA (Undefined Indeterminate_Value)))"

definition current_license_date :: "'j env \<Rightarrow> (world, date) act" where
  "current_license_date e =
     bindA (readA config) (\<lambda>opts.
     bindA (read_license_from_file (opt_lic_file opts)) (extract_license_date e))"

definition is_check_licenses_months :: "'j env \<Rightarrow> int \<Rightarrow> (world, bool) act" where
  "is_check_licenses_months e next_month =
     bindA (current_license_date e) (\<lambda>d. retA (next_month > date_month d))"

subsection \<open>The extractor\<close>

definition make_license_extractor :: "'j env \<Rightarrow> int \<Rightarrow> (world, license_extractor) act" where
  "make_license_extractor e attempt =
     bindA (readA config) (\<lambda>opts.
     bindA (tryA (make_uri e (opt_license_manager_uri opts))) (\<lambda>address.
     bindA (generate_machine_uid e) (\<lambda>uid.
       new_license_extractor e address
         \<lparr>rl_uid = uid, rl_unp = opt_unp opts, rl_agent = opt_agentId opts,
          rl_host_type = opt_prod opts\<rparr> attempt)))"

subsection \<open>The verdict of the license program\<close>

lemma wp_run_proc [effect_simps]:
  "wp (run_proc e c) Q E w =
     (let w' = w\<lparr>calls := calls w @ [Run_Child c]\<rparr>
      in case run_child e c of
           Inl m \<Rightarrow> E (Thrown (Process_Error m)) w'
         | Inr out \<Rightarrow> Q (first_line out) w')"
  by (simp add: run_proc_def effect_simps Let_def split: sum.split)

lemma wp_make_verify_license_cmd [effect_simps]:
  "wp make_verify_license_cmd Q E w =
     (if BUFSIZ < length (verify_text (config w)) + 1 then E (Undefined Buffer_Overflow) w
      else Q (verify_text (config w)) (w\<lparr>log := log w @ [(Info, verify_text (config w))]\<rparr>))"
  by (simp add: make_verify_license_cmd_def effect_simps Let_def)

text \<open>The code of a report: its first line up to the first colon.\<close>

definition report_code :: "cstring \<Rightarrow> cstring" where
  "report_code out = takeWhile (\<lambda>c. c \<noteq> CHR '':'') (first_line out)"

lemma verify_license_run:
  "fst (verify_license e w) =
     (if BUFSIZ \<le> length (verify_text (config w)) then Inl (Undefined Buffer_Overflow)
      else case run_child e (verify_text (config w)) of
             Inl m \<Rightarrow> Inl (Thrown (Process_Error m))
           | Inr out \<Rightarrow>
               if first_line out = []
               then Inl (Thrown (Runtime_Error (verify_text (config w) @ '' of output is empty'')))
               else if report_code out = ''ERROR'' then Inr False
               else if report_code out \<noteq> ''SUCCESS'' then Inr True
               else Inl (Thrown (Runtime_Error
                      (verify_text (config w) @ '' returned invalid responce''))))"
proof -
  define success where "success = ''SUCCESS''"
  define failed where "failed = ''ERROR''"
  show ?thesis
    unfolding fst_iff_wp verify_license_def success_def [symmetric] failed_def [symmetric]
    by (auto simp: effect_simps Let_def substr_upto_first report_code_def [symmetric]
        split: sum.split)
qed

definition verify_failure :: "'j env \<Rightarrow> options \<Rightarrow> failure \<Rightarrow> bool" where
  "verify_failure e opts f \<longleftrightarrow>
     (if BUFSIZ \<le> length (verify_text opts) then f = Undefined Buffer_Overflow
      else case run_child e (verify_text opts) of
             Inl m \<Rightarrow> f = Thrown (Process_Error m)
           | Inr out \<Rightarrow>
               first_line out = [] \<and>
                 f = Thrown (Runtime_Error (verify_text opts @ '' of output is empty'')) \<or>
               first_line out \<noteq> [] \<and> report_code out = ''SUCCESS'' \<and>
                 f = Thrown (Runtime_Error (verify_text opts @ '' returned invalid responce'')))"

text \<open>
  \<open>verify_license\<close> returns a verdict only for a report whose code is not SUCCESS, and the
  verdict is true for every such code but ERROR; a report SUCCESS throws, as an empty one does.
  The one undefined behaviour is a command of 8192 characters or more.
\<close>

lemma verify_license_verdict:
  "case verify_license e w of
     (Inr verdict, _) \<Rightarrow>
       (\<exists>out. run_child e (verify_text (config w)) = Inr out \<and> first_line out \<noteq> [] \<and>
          report_code out \<noteq> ''SUCCESS'' \<and> verdict = (report_code out \<noteq> ''ERROR''))
   | (Inl f, _) \<Rightarrow> verify_failure e (config w) f"
proof -
  define success where "success = ''SUCCESS''"
  define failed where "failed = ''ERROR''"
  have "success \<noteq> failed" by (simp add: success_def failed_def)
  moreover obtain r w' where "verify_license e w = (r, w')" by fastforce
  ultimately show ?thesis
    using verify_license_run [of e w]
    unfolding verify_failure_def success_def [symmetric] failed_def [symmetric]
    by (auto split: sum.splits if_splits)
qed

subsection \<open>The machine uid\<close>

definition uid_command :: "options \<Rightarrow> cstring" where
  "uid_command opts = opt_lic_app opts @ '' '' @ opt_make_uid_cmd opts @ '' '' @ opt_prod opts"

lemma erase_last_if_cases: "s = erase_last_if c s \<or> s = erase_last_if c s @ [c]"
  by (auto simp: erase_last_if_def)

lemma wp_generate_machine_uid:
  assumes "\<And>uid out w'. run_child e (uid_command (config w)) = Inr out \<Longrightarrow>
      length uid = UID_SIZE \<Longrightarrow> uid = erase_last_if CR (first_line out) \<Longrightarrow>
      files w' = files w \<Longrightarrow> Q uid w'"
    and "\<And>ex w'. E (Thrown ex) w'"
  shows "wp (generate_machine_uid e) Q E w"
  using assms
  by (auto simp: generate_machine_uid_def make_machine_uid_cmd_def effect_simps Let_def
      uid_command_def split: sum.split)

text \<open>
  A machine uid always has the 58 characters the license manager expects and is the first
  line the license program prints, less one carriage return at its end; anything else is an
  exception, never undefined behaviour, and no file changes.
\<close>

lemma generate_machine_uid_size:
  "case generate_machine_uid e w of
     (Inr uid, w') \<Rightarrow>
       length uid = 58 \<and> files w' = files w \<and>
       (\<exists>out. run_child e (uid_command (config w)) = Inr out \<and>
          (first_line out = uid \<or> first_line out = uid @ [CR]))
   | (Inl f, _) \<Rightarrow> \<exists>ex. f = Thrown ex"
proof -
  have "wp (generate_machine_uid e)
     (\<lambda>uid w'. length uid = 58 \<and> files w' = files w \<and>
        (\<exists>out. run_child e (uid_command (config w)) = Inr out \<and>
          (first_line out = uid \<or> first_line out = uid @ [CR])))
     (\<lambda>f w'. \<exists>ex. f = Thrown ex) w"
    using erase_last_if_cases
    by (intro wp_generate_machine_uid) (auto simp: UID_SIZE_def)
  then show ?thesis unfolding wp_def by (simp add: split_beta)
qed

subsection \<open>The license file\<close>

lemma scan_entries_iff:
  "scan_entries name es r \<longleftrightarrow> r \<or> (name, False) \<in> set es"
  by (induction name es r rule: scan_entries.induct) auto

lemma wp_is_license_file [effect_simps]:
  "wp (is_license_file e) Q E w =
     (let opts = config w
      in case list_dir e (files w) (split_file_path (opt_lic_file opts)) of
           Inl ex \<Rightarrow> E (Thrown ex) w
         | Inr entries \<Rightarrow>
             if \<exists>es. entries = Some es \<and> (opt_lic_file_name opts, False) \<in> set es then Q True w
             else Q False (w\<lparr>log := log w @
                    [(Error, c_str (opt_lic_file opts @ '' not found''))]\<rparr>))"
  by (auto simp: is_license_file_def find_file_def effect_simps Let_def scan_entries_iff
      split: sum.split option.split)

lemma wp_save_license_to_file [effect_simps]:
  "wp (save_license_to_file e l) Q E w =
     (if can_write e (opt_lic_file (config w))
      then Q True (w\<lparr>files := (files w)(opt_lic_file (config w) \<mapsto> erase_last_if NUL l)\<rparr>)
      else Q False w)"
  by (simp add: save_license_to_file_def effect_simps Let_def)

lemma wp_read_license_from_file [effect_simps]:
  "wp (read_license_from_file name) Q E w =
     Q (case files w name of None \<Rightarrow> [] | Some content \<Rightarrow> extract_word content) w"
  by (simp add: read_license_from_file_def effect_simps)

text \<open>
  C5: saving a license and reading the file back gives the license, less one zero at its end
  and cut to its first word; no other file changes, and when the file cannot be opened nothing
  changes at all.
\<close>

theorem save_read_license:
  "case save_license_to_file e license w of
     (Inl _, _) \<Rightarrow> False
   | (Inr saved, w') \<Rightarrow>
       saved = can_write e (opt_lic_file (config w)) \<and>
       (if saved
        then fst (read_license_from_file (opt_lic_file (config w)) w') =
               Inr (extract_word (erase_last_if NUL license)) \<and>
             (\<forall>name. name = opt_lic_file (config w) \<or> files w' name = files w name) \<and>
             config w' = config w \<and> calls w' = calls w
        else w' = w)"
  by (simp add: save_license_to_file_def Let_def bindA_def readA_def thenA_def modifyA_def retA_def
      read_license_from_file_def config_def)

subsection \<open>The date of a license\<close>

lemma length_getline_items:
  "length (getline_items d s acc) =
     count_list s d + (if (if s = [] then acc = [] else last s = d) then 0 else 1)"
  by (induction d s acc rule: getline_items.induct) auto

lemma getline_items_no_delim:
  "d \<notin> set s \<Longrightarrow> getline_items d s acc = (if acc @ s = [] then [] else [acc @ s])"
  by (induction s arbitrary: acc) auto

lemma getline_items_append:
  "d \<notin> set s \<Longrightarrow> getline_items d (s @ d # r) acc = (acc @ s) # getline_items d r []"
  by (induction s arbitrary: acc) auto

text \<open>
  \<open>extract_license_date\<close> reads past its vector of parts exactly when the text holds fewer
  than two dots, or two and nothing after them; an absent or empty license file is such a text.
\<close>

lemma extract_license_date_bounds:
  "fst (extract_license_date e lic w) = Inl (Undefined Out_Of_Range) \<longleftrightarrow>
     count_list lic CHR ''.'' < 2 \<or> count_list lic CHR ''.'' = 2 \<and> last lic = CHR ''.''"
  by (auto simp: extract_license_date_def Let_def length_getline_items failA_def retA_def
      bindA_def tryA_def throwA_def split: sum.splits list.splits if_splits)

lemma dropWhile_hd: "s \<noteq> [] \<Longrightarrow> \<not> P (hd s) \<Longrightarrow> dropWhile P s = s"
  by (cases s) auto

lemma digits_then:
  assumes "rest = [] \<or> \<not> is_digit (hd rest)"
  shows "takeWhile is_digit (show_nat n @ rest) = show_nat n"
    and "dropWhile is_digit (show_nat n @ rest) = rest"
  using assms show_nat_digits [of n]
  by (cases rest; simp add: takeWhile_append dropWhile_append)+

lemma show_nat_hd: "is_digit (hd (show_nat n))"
  using show_nat_digits [of n] by simp

lemma scan_int_show_int:
  assumes "- (2 ^ 31) \<le> i" "i < 2 ^ 31" and rest: "rest = [] \<or> \<not> is_digit (hd rest)"
  shows "scan_int (show_int i @ rest) = Some (i, rest)"
proof -
  have "c_atoi (show_int i) = i"
    using assms by (simp add: c_atoi_small strtol_show_int)
  moreover have "hd (show_nat k @ rest) = hd (show_nat k)" for k by simp
  ultimately show ?thesis
    using show_nat_hd [of "nat i"] is_digit_not_space is_digit_no_sign digits_then [OF rest]
    by (cases "i < 0")
      (auto simp: scan_int_def Let_def show_int_def is_space_def dropWhile_hd)
qed

definition date_text :: "date \<Rightarrow> cstring" where
  "date_text d = show_int (date_year d) @ CHR ''-'' # show_int (date_month d) @ CHR ''-'' #
     show_int (date_day d)"

definition int_date :: "date \<Rightarrow> bool" where
  "int_date d \<longleftrightarrow>
     - (2 ^ 31) \<le> date_year d \<and> date_year d < 2 ^ 31 \<and>
     - (2 ^ 31) \<le> date_month d \<and> date_month d < 2 ^ 31 \<and>
     - (2 ^ 31) \<le> date_day d \<and> date_day d < 2 ^ 31"

lemma scan_ints_date_text:
  "int_date d \<Longrightarrow> scan_ints 3 (date_text d) = [date_year d, date_month d, date_day d]"
  using scan_int_show_int [of "date_day d" "[]"]
  by (simp add: numeral_3_eq_3 date_text_def int_date_def scan_int_show_int is_digit_def)

lemma show_int_chars: "c \<in> set (show_int i) \<Longrightarrow> c = CHR ''-'' \<or> is_digit c"
  using show_nat_digits by (auto simp: show_int_def split: if_splits)

lemma date_text_no_NUL: "NUL \<notin> set (date_text d)"
  using show_int_chars [of NUL] by (auto simp: date_text_def is_digit_def)

text \<open>
  A license whose third part encodes a date is read as that date: parsing inverts printing
  for every day, month and year of 32 bits, signs included.
\<close>

lemma extract_license_date_roundtrip:
  assumes "CHR ''.'' \<notin> set a" "CHR ''.'' \<notin> set b" "CHR ''.'' \<notin> set part" "part \<noteq> []"
    and "sig = [] \<or> hd sig = CHR ''.''"
    and "from_base64 e part = Inr (date_text d)" and "int_date d"
  shows "extract_license_date e (a @ CHR ''.'' # b @ CHR ''.'' # part @ sig) w = (Inr d, w)"
proof -
  have "\<exists>more. getline_items CHR ''.'' (part @ sig) [] = part # more"
    using assms by (cases sig) (simp_all add: getline_items_no_delim getline_items_append)
  then obtain more where
    "getline_items CHR ''.'' (a @ CHR ''.'' # b @ CHR ''.'' # part @ sig) [] = a # b # part # more"
    using assms(1,2) by (auto simp: getline_items_append)
  then show ?thesis
    using assms(4,6,7) date_text_no_NUL [of d]
    by (simp add: extract_license_date_def Let_def bindA_def tryA_def retA_def
        scan_ints_date_text)
qed

theorem extract_license_date_roundtrip_witness:
  "\<forall>w. extract_license_date
     (quiet_env\<lparr>from_base64 := (\<lambda>_. Inr (date_text \<lparr>date_day = 31, date_month = 12, date_year = 2024\<rparr>))\<rparr>)
     (''1'' @ CHR ''.'' # ''2'' @ CHR ''.'' # ''MjAyNC0xMi0zMQ=='' @ ''.x'') w =
     (Inr \<lparr>date_day = 31, date_month = 12, date_year = 2024\<rparr>, w)"
  by (intro allI extract_license_date_roundtrip) (simp_all add: quiet_env_def int_date_def)

subsection \<open>Is a license newer?\<close>

text \<open>What the update means by newer: the later month of the calendar.\<close>

definition later_month :: "date \<Rightarrow> int \<Rightarrow> int \<Rightarrow> bool" where
  "later_month d year month \<longleftrightarrow>
     date_year d < year \<or> date_year d = year \<and> date_month d < month"

lemma is_check_licenses_months_run:
  "is_check_licenses_months e m w =
     (case current_license_date e w of
        (Inl f, w') \<Rightarrow> (Inl f, w')
      | (Inr d, w') \<Rightarrow> (Inr (date_month d < m), w'))"
  by (auto simp: is_check_licenses_months_def bindA_def retA_def split: prod.split sum.split)

text \<open>
  \<open>is_check_licenses_months\<close> compares months only.  For a license of the same year its
  answer is the calendar's; for a license of a later year it is wrong exactly when the month is
  not greater, so no license of January is ever newer than one of December.
\<close>

lemma is_check_licenses_months_calendar:
  "case current_license_date e w of
     (Inl f, w') \<Rightarrow> is_check_licenses_months e m w = (Inl f, w')
   | (Inr d, w') \<Rightarrow>
       is_check_licenses_months e m w = (Inr (later_month d (date_year d) m), w') \<and>
       (\<forall>n. is_check_licenses_months e m w = (Inr (later_month d (date_year d + 1 + int n) m), w') \<longleftrightarrow>
          date_month d < m)"
  by (auto simp: is_check_licenses_months_run later_month_def split: prod.split sum.split)

subsection \<open>What the operations keep\<close>

lemma keeps_quiet_run_proc [frame_intros]: "keeps quiet_part (run_proc e c)"
  unfolding run_proc_def
  by (intro frame_intros)
    (auto simp: timer_call_def split: sum.split intro!: frame_intros)

lemma keeps_quiet_verify_license [frame_intros]: "keeps quiet_part (verify_license e)"
  unfolding verify_license_def make_verify_license_cmd_def Let_def by (intro frame_intros)

lemma keeps_quiet_generate_machine_uid [frame_intros]: "keeps quiet_part (generate_machine_uid e)"
  unfolding generate_machine_uid_def make_machine_uid_cmd_def Let_def by (intro frame_intros)

lemma keeps_quiet_is_license_file [frame_intros]: "keeps quiet_part (is_license_file e)"
  unfolding is_license_file_def find_file_def by (intro frame_intros)

lemma keeps_quiet_days [frame_intros]:
  "keeps quiet_part (is_license_update_day e)" "keeps quiet_part (is_license_check_day e)"
  unfolding is_license_update_day_def is_license_check_day_def by (intro frame_intros)+

lemma keeps_quiet_is_check_licenses_months [frame_intros]:
  "keeps quiet_part (is_check_licenses_months e m)"
  unfolding is_check_licenses_months_def current_license_date_def read_license_from_file_def
    extract_license_date_def Let_def
  by (intro frame_intros) (auto intro!: frame_intros split: list.split)

lemma keeps_quiet_make_license_extractor [frame_intros]:
  "keeps quiet_part (make_license_extractor e n)"
  unfolding make_license_extractor_def by (intro frame_intros)

end
