(* ===== verification/License_Task.thy ===== *)
theory License_Task
  imports License_Check
begin

section \<open>The task that gets licenses\<close>

text \<open>
  \<open>get_license_task/get_license_task.h\<close> and \<open>get_license_task/get_license_task.cpp\<close>: an ACE
  task that a one-shot timer starts and that schedules the next timer itself.  The console
  messages (\<open>ACE_DEBUG\<close>, \<open>ACE_ERROR\<close>) are left out here and below; the trace log is kept.
\<close>

subsection \<open>Get_License_Task\<close>

definition update_license_task ::
    "(get_license_task \<Rightarrow> get_license_task) \<Rightarrow> (world, unit) act" where
  "update_license_task f = modifyA (\<lambda>w. w\<lparr>license_task := f (license_task w)\<rparr>)"

definition new_get_license_task :: "int \<Rightarrow> int \<Rightarrow> get_license_task" where
  "new_get_license_task license_mins waiting_hours =
     \<lparr>glt_timer_id = 0, glt_day_counter = 0, glt_try_get_license_mins = license_mins,
      glt_day_waiting_hours = waiting_hours\<rparr>"

definition next_try_get_license_secs :: "world \<Rightarrow> int" where
  "next_try_get_license_secs w = glt_try_get_license_mins (license_task w) * 60"

definition next_day_waiting_secs :: "world \<Rightarrow> int" where
  "next_day_waiting_secs w = glt_day_waiting_hours (license_task w) * 60 * 60"

text \<open>\<open>timerId_ = reactor()->schedule_timer(this, 0, tv, ACE_Time_Value::zero)\<close>.\<close>

definition glt_schedule_timer :: "'j env \<Rightarrow> int \<Rightarrow> (world, unit) act" where
  "glt_schedule_timer e seconds =
     thenA (call (Schedule_Timer License_Task seconds)) (
     bindA (readA (\<lambda>w. timer_id_of e (calls w))) (\<lambda>i.
       update_license_task (\<lambda>t. t\<lparr>glt_timer_id := i\<rparr>)))"

definition glt_open :: "'j env \<Rightarrow> int \<Rightarrow> (world, int) act" where
  "glt_open e tv = thenA (glt_schedule_timer e tv) (retA 0)"

definition glt_destroy :: "(world, unit) act" where
  "glt_destroy = call (Cancel_Timer License_Task)"

definition glt_handle_timeout :: "'j env \<Rightarrow> (world, int) act" where
  "glt_handle_timeout e =
     (if \<not> activate_ok e License_Task then retA (-1)
      else thenA (call (Activate License_Task)) (retA 0))"

definition glt_schedule_handle_timeout :: "'j env \<Rightarrow> int \<Rightarrow> (world, int) act" where
  "glt_schedule_handle_timeout e seconds =
     thenA (call (Cancel_Timer License_Task)) (thenA (glt_schedule_timer e seconds) (retA 0))"

text \<open>\<open>sprintf\<close> into a buffer of \<open>n\<close> characters, then \<open>INFO_LOG\<close>.\<close>

definition sprintf_info :: "nat \<Rightarrow> cstring \<Rightarrow> (world, unit) act" where
  "sprintf_info n msg =
     (if n < length msg + 1 then failA (Undefined Buffer_Overflow) else write_log Info msg)"

definition next_try_text :: "int \<Rightarrow> cstring" where
  "next_try_text mins = ''The next attempt to get a license in '' @ show_int mins @ '' minutes''"

definition inform_next_try_log :: "(world, unit) act" where
  "inform_next_try_log =
     bindA (readA (\<lambda>w. glt_try_get_license_mins (license_task w)))
       (\<lambda>mins. sprintf_info 100 (next_try_text mins))"

definition saved_text :: "host_license \<Rightarrow> cstring" where
  "saved_text hl = ''Save new license to file: month - '' @ show_int (hl_month hl) @
     '', year - '' @ show_int (hl_year hl)"

definition glt_write_license :: "'j env \<Rightarrow> host_license \<Rightarrow> (world, int) act" where
  "glt_write_license e hl =
     bindA (save_license_to_file e (hl_license hl)) (\<lambda>saved.
       if \<not> saved then thenA (write_log Error ''Error: don't save license to file'') (retA (-1))
       else thenA (sprintf_info 100 (saved_text hl)) (retA 0))"

definition retry :: "'j env \<Rightarrow> (world, unit) act" where
  "retry e = bindA (readA next_try_get_license_secs)
     (\<lambda>s. bindA (glt_schedule_handle_timeout e s) (\<lambda>_. retA ()))"

definition wait_next_day :: "'j env \<Rightarrow> (world, unit) act" where
  "wait_next_day e = bindA (readA next_day_waiting_secs)
     (\<lambda>s. bindA (glt_schedule_handle_timeout e s) (\<lambda>_. retA ()))"

subsection \<open>svc\<close>

text \<open>The manager's license is there and its text is not empty.\<close>

definition store_if_newer :: "'j env \<Rightarrow> host_license \<Rightarrow> (world, unit) act" where
  "store_if_newer e hl =
     bindA (is_check_licenses_months e (hl_month hl)) (\<lambda>newer.
       if newer
       then thenA (write_log Info ''The license obtained is new'')
              (bindA (glt_write_license e hl) (\<lambda>_. retA ()))
       else write_log Info ''The license obtained is current'')"

definition on_received :: "'j env \<Rightarrow> host_license \<Rightarrow> (world, unit) act" where
  "on_received e hl =
     thenA (write_log Info ''Received a license'') (
     bindA (is_license_file e) (\<lambda>have_file.
       if have_file
       then if hl_month hl \<noteq> 0
            then seqA [store_if_newer e hl, wait_next_day e, write_log Info ''Wait next day'']
            else seqA [
              send_message e ''1#Host License#Error restponse: retrived host license is wrong'',
              write_log Error ''Error restponse: retrived host license is wrong'',
              retry e, inform_next_try_log]
       else seqA [bindA (glt_write_license e hl) (\<lambda>_. retA ()), wait_next_day e,
              write_log Info ''Wait next day'']))"

definition on_active :: "'j env \<Rightarrow> host_status \<Rightarrow> host_license option \<Rightarrow> (world, unit) act" where
  "on_active e hs license =
     (case license of
        Some hl \<Rightarrow>
          if hl_license hl = []
          then seqA [retry e, write_log Error ''The license obtained license is empty'',
                 inform_next_try_log]
          else on_received e hl
      | None \<Rightarrow>
          seqA [write_log Error (c_str (''ERROR: Host Status is '' @ hs_name hs @
                  '', Lisence of Host is NULL. Call to administrator.'')),
                retry e, inform_next_try_log])"

definition on_answer :: "'j env \<Rightarrow> result \<Rightarrow> (world, unit) act" where
  "on_answer e r =
     bindA (deref (res_host_status r)) (\<lambda>hs.
     thenA (send_message e (''2#Host Status#'' @ hs_name hs)) (
     thenA (write_log Info (c_str (''Host Status: '' @ hs_name hs))) (
       if hs_id hs = status_ACTIVE then on_active e hs (res_host_license r)
       else if hs_id hs = status_SUSPENDED
       then seqA [wait_next_day e, write_log Info ''The status of license is suspended.'',
              write_log Info ''Try to get license next day.'']
       else seqA [retry e, inform_next_try_log])))"

definition glt_body :: "'j env \<Rightarrow> (world, unit) act" where
  "glt_body e =
     bindA (is_license_update_day e) (\<lambda>update_day.
       if update_day
       then thenA (write_log Info ''Attempt to get a license...'') (
            bindA (make_license_extractor e 1) (\<lambda>x.
            bindA (run_client (processing_license e x)) (on_answer e)))
       else seqA [update_license_task (\<lambda>t. t\<lparr>glt_day_counter := glt_day_counter t + 1\<rparr>),
              wait_next_day e, write_log Info ''Wait next day''])"

fun glt_handler :: "'j env \<Rightarrow> cpp_exn \<Rightarrow> (world, unit) act" where
  "glt_handler e (Process_Error text) =
     (let message = substr_upto (c_str text) (find_first_of CHR '':'' (c_str text))
      in seqA [send_message e (''0#Critical#'' @ message), write_log Error message, retry e])"
| "glt_handler e (Runtime_Error text) =
     (let message = c_str text
      in seqA [send_message e (''0#Critical#'' @ message), write_log Error message, retry e,
           inform_next_try_log])"
| "glt_handler e (Http_Exception code text) =
     (let message = c_str text
      in thenA (write_log Error message)
           (if code = MIME_TYPES
            then seqA [send_message e (''1#Error#'' @ message), retry e, inform_next_try_log]
            else retA ()))"
| "glt_handler e ex = throwA ex"

definition glt_svc :: "'j env \<Rightarrow> (world, int) act" where
  "glt_svc e = thenA (catchA (glt_body e) (glt_handler e)) (retA 0)"

subsection \<open>The task schedules itself\<close>

definition glt_settings :: "world \<Rightarrow> int \<times> int" where
  "glt_settings w = (glt_try_get_license_mins (license_task w), glt_day_waiting_hours (license_task w))"

interpretation glt: self_scheduling "glt_schedule_handle_timeout e" License_Task glt_settings
  for e :: "'j env"
  by unfold_locales
    (simp add: glt_schedule_handle_timeout_def glt_schedule_timer_def update_license_task_def
      call_def thenA_def bindA_def modifyA_def readA_def retA_def glt_settings_def)

text \<open>The seconds a run of the task may set.\<close>

definition glt_delays :: "world \<Rightarrow> int set" where
  "glt_delays w = {next_try_get_license_secs w, next_day_waiting_secs w}"

lemma glt_delays_settings: "glt_settings w' = glt_settings w \<Longrightarrow> glt_delays w' = glt_delays w"
  by (simp add: glt_delays_def glt_settings_def next_try_get_license_secs_def
      next_day_waiting_secs_def)

definition glt_armed :: "world \<Rightarrow> world \<Rightarrow> bool" where
  "glt_armed w w' \<longleftrightarrow> (\<exists>s \<in> glt_delays w. pending_timer License_Task (calls w') = Some s)"

text \<open>
  \<open>arms m\<close>: when \<open>m\<close> ends normally the next timer is set; when it throws, the timers are as
  they were before.
\<close>

definition glt_view :: "world \<Rightarrow> int option \<times> int \<times> int" where
  "glt_view w = (pending_timer License_Task (calls w), glt_settings w)"

definition thrown_before :: "world \<Rightarrow> failure \<Rightarrow> world \<Rightarrow> bool" where
  "thrown_before w f w' = (case f of Thrown _ \<Rightarrow> glt_view w' = glt_view w | _ \<Rightarrow> True)"

definition arms :: "(world, 'a) act \<Rightarrow> bool" where
  "arms m \<longleftrightarrow>
     (\<forall>w. wp m (\<lambda>_ w'. glt_armed w w' \<and> glt_settings w' = glt_settings w) (thrown_before w) w)"

definition never_throws :: "('w, 'a) act \<Rightarrow> bool" where
  "never_throws m \<longleftrightarrow> (\<forall>w ex. fst (m w) \<noteq> Inl (Thrown ex))"

named_theorems arming \<open>rules that show that a step sets the next timer\<close>

lemma keeps_glt_view: "keeps quiet_part m \<Longrightarrow> keeps glt_view m"
  by (auto simp: keeps_def quiet_part_def glt_view_def glt_settings_def)

lemma glt_view_cong:
  assumes "glt_view w1 = glt_view w"
  shows "glt_settings w1 = glt_settings w" "glt_armed w1 = glt_armed w"
    "thrown_before w1 = thrown_before w"
  using assms glt_delays_settings [of w1 w]
  by (auto simp: glt_view_def glt_armed_def thrown_before_def fun_eq_iff split: failure.split)

lemma arms_bindA [arming]:
  assumes "keeps glt_view m" and "\<And>a. arms (k a)"
  shows "arms (bindA m k)"
  unfolding arms_def wp_bindA
proof (intro allI wp_keeps [OF assms(1)])
  fix w a w1 assume same: "glt_view w1 = glt_view w"
  have "wp (k a) (\<lambda>_ w'. glt_armed w1 w' \<and> glt_settings w' = glt_settings w1) (thrown_before w1) w1"
    using assms(2) [of a] unfolding arms_def by blast
  then show "wp (k a) (\<lambda>_ w'. glt_armed w w' \<and> glt_settings w' = glt_settings w) (thrown_before w) w1"
    by (simp only: glt_view_cong [OF same])
next
  fix w f w1 assume "glt_view w1 = glt_view w"
  then show "thrown_before w f w1" by (simp add: thrown_before_def split: failure.split)
qed

lemma arms_thenA [arming]: "keeps glt_view m \<Longrightarrow> arms k \<Longrightarrow> arms (thenA m k)"
  unfolding thenA_def by (intro arms_bindA)

lemma arms_if [arming]: "arms m \<Longrightarrow> arms n \<Longrightarrow> arms (if b then m else n)"
  by simp

lemma arms_throwA [arming]: "arms (throwA ex)"
  by (simp add: arms_def thrown_before_def effect_simps)

lemma arms_seq_before: "keeps glt_view m \<Longrightarrow> arms (seqA ms) \<Longrightarrow> arms (seqA (m # ms))"
  by (simp add: arms_thenA)

text \<open>Once the timer is set, steps that neither throw nor touch a timer may follow.\<close>

lemma arms_then_quiet:
  assumes "arms m" and "keeps glt_view k" and "never_throws k"
  shows "arms (thenA m k)"
  unfolding arms_def wp_thenA
proof (intro allI)
  fix w
  have k: "wp k (\<lambda>_ w'. glt_armed w w' \<and> glt_settings w' = glt_settings w) (thrown_before w) w1"
    if "glt_armed w w1 \<and> glt_settings w1 = glt_settings w" for w1
  proof -
    obtain r w' where run: "k w1 = (r, w')" by fastforce
    then have "glt_view w' = glt_view w1" by (rule keepsD [OF assms(2)])
    moreover have "r \<noteq> Inl (Thrown ex)" for ex
      using run assms(3) unfolding never_throws_def by (metis fst_conv)
    ultimately show ?thesis
      using that run
      by (auto simp: wp_def glt_view_def glt_armed_def thrown_before_def
          split: sum.split failure.split)
  qed
  from assms(1) have "wp m (\<lambda>_ w'. glt_armed w w' \<and> glt_settings w' = glt_settings w) (thrown_before w) w"
    unfolding arms_def by blast
  then show "wp m (\<lambda>_. wp k (\<lambda>_ w'. glt_armed w w' \<and> glt_settings w' = glt_settings w)
      (thrown_before w)) (thrown_before w) w"
    by (rule wp_mono) (rule k)
qed

lemma never_throws_rules [arming]:
  "never_throws (retA a)" "never_throws (write_log l s)" "never_throws (seqA [])"
  by (simp_all add: never_throws_def retA_def write_log_run)

lemma never_throws_bindA [arming]:
  "never_throws m \<Longrightarrow> (\<And>a. never_throws (k a)) \<Longrightarrow> never_throws (bindA m k)"
  by (auto simp: never_throws_def bindA_def split: prod.split sum.split) (metis fst_conv)+

lemma never_throws_seqA [arming]:
  "never_throws m \<Longrightarrow> never_throws (seqA ms) \<Longrightarrow> never_throws (seqA (m # ms))"
  by (simp add: thenA_def arming)

lemma never_throws_inform [arming]: "never_throws inform_next_try_log"
  unfolding inform_next_try_log_def
  by (rule never_throws_bindA)
    (auto simp: never_throws_def readA_def sprintf_info_def failA_def write_log_run)

lemma keeps_inform [frame_intros]: "keeps quiet_part inform_next_try_log"
  unfolding inform_next_try_log_def sprintf_info_def by (intro frame_intros)

lemma arms_reschedule [arming]: "arms (retry e)" "arms (wait_next_day e)"
  by (auto simp: arms_def retry_def wait_next_day_def effect_simps glt_armed_def glt_delays_def
      intro!: glt.wp_reschedule)

lemma arms_seq_first:
  "arms (seqA (retry e # ms))" "arms (seqA (wait_next_day e # ms))"
  if "keeps quiet_part (seqA ms)" "never_throws (seqA ms)"
  using that by (simp_all add: arms_then_quiet arming keeps_glt_view)

lemma keeps_glt_view_save [arming]: "keeps glt_view (save_license_to_file e l)"
  unfolding save_license_to_file_def Let_def
  by (intro frame_intros) (simp add: keeps_modifyA glt_view_def glt_settings_def)

lemma keeps_glt_view_write [arming]: "keeps glt_view (glt_write_license e hl)"
  unfolding glt_write_license_def sprintf_info_def
  by (rule frame_intros arming keeps_glt_view)+

lemma keeps_glt_view_store [arming]: "keeps glt_view (store_if_newer e hl)"
  unfolding store_if_newer_def
  by (rule frame_intros arming keeps_glt_view)+

lemma keeps_glt_view_day_counter [arming]:
  "keeps glt_view (update_license_task (\<lambda>t. t\<lparr>glt_day_counter := glt_day_counter t + 1\<rparr>))"
  by (simp add: update_license_task_def keeps_modifyA glt_view_def glt_settings_def)

lemma keeps_glt_view_simple [arming]:
  "keeps glt_view (retA a)" "keeps glt_view (deref p)" "keeps glt_view (readA h)"
  by (intro frame_intros)+

lemma arms_on_received [arming]: "arms (on_received e hl)"
  unfolding on_received_def
  by (rule arms_seq_first | rule arming | rule arms_seq_before | rule frame_intros
      | rule keeps_glt_view)+

lemma arms_on_active [arming]: "arms (on_active e hs license)"
  unfolding on_active_def
  by (cases license; simp only: option.case)
    (rule arms_seq_first | rule arming | rule arms_seq_before | rule frame_intros
      | rule keeps_glt_view)+

lemma arms_on_answer [arming]: "arms (on_answer e r)"
  unfolding on_answer_def
  by (rule arms_seq_first | rule arming | rule arms_seq_before | rule frame_intros
      | rule keeps_glt_view)+

lemma arms_glt_body: "arms (glt_body e)"
  unfolding glt_body_def
  by (rule arms_seq_first | rule arming | rule arms_seq_before | rule frame_intros
      | rule keeps_glt_view)+

subsection \<open>Every run sets the next timer, but one\<close>

lemma wp_sprintf_info [effect_simps]:
  "wp (sprintf_info n msg) Q E w =
     (if n < length msg + 1 then E (Undefined Buffer_Overflow) w
      else Q () (w\<lparr>log := log w @ [(Info, msg)]\<rparr>))"
  by (simp add: sprintf_info_def effect_simps)

definition next_try_fits :: "world \<Rightarrow> bool" where
  "next_try_fits w \<longleftrightarrow> length (show_int (glt_try_get_license_mins (license_task w))) \<le> 54"

lemma wp_inform_next_try_log [effect_simps]:
  "wp inform_next_try_log Q E w =
     (if next_try_fits w
      then Q () (w\<lparr>log := log w @
             [(Info, next_try_text (glt_try_get_license_mins (license_task w)))]\<rparr>)
      else E (Undefined Buffer_Overflow) w)"
  by (simp add: inform_next_try_log_def effect_simps next_try_fits_def next_try_text_def)

lemma wp_retry:
  assumes "\<And>w'. pending_timer License_Task (calls w') = Some (next_try_get_license_secs w) \<Longrightarrow>
      glt_settings w' = glt_settings w \<Longrightarrow> files w' = files w \<Longrightarrow> Q () w'"
  shows "wp (retry e) Q E w"
  using assms by (auto simp: retry_def effect_simps intro!: glt.wp_reschedule)

lemma next_try_fits_settings: "glt_settings w' = glt_settings w \<Longrightarrow> next_try_fits w' = next_try_fits w"
  by (simp add: next_try_fits_def glt_settings_def)

lemma next_try_secs_settings:
  "glt_settings w' = glt_settings w \<Longrightarrow> next_try_get_license_secs w' = next_try_get_license_secs w"
  by (simp add: next_try_get_license_secs_def glt_settings_def)

definition retried :: "world \<Rightarrow> world \<Rightarrow> bool" where
  "retried w w' \<longleftrightarrow>
     pending_timer License_Task (calls w') = Some (next_try_get_license_secs w)"

text \<open>What a handler leaves for the exception it caught.\<close>

fun after_handler :: "cpp_exn \<Rightarrow> world \<Rightarrow> world \<Rightarrow> bool" where
  "after_handler (Process_Error s) w w' = retried w w'"
| "after_handler (Runtime_Error s) w w' = retried w w'"
| "after_handler (Http_Exception c s) w w' =
     (if c = MIME_TYPES then retried w w'
      else pending_timer License_Task (calls w') = pending_timer License_Task (calls w))"
| "after_handler (Json_Exception s) w w' = False"
| "after_handler (Other_Exception s) w w' = False"

fun escapes :: "cpp_exn \<Rightarrow> bool" where
  "escapes (Json_Exception s) = True"
| "escapes (Other_Exception s) = True"
| "escapes _ = False"

lemma send_message_world:
  "quiet_part (if b then w\<lparr>calls := calls w @ [Send_Message m]\<rparr> else w) = quiet_part w"
  by (simp add: quiet_part_call timer_call_def)

lemma wp_glt_handler:
  "wp (glt_handler e ex) (\<lambda>_ w'. after_handler ex w w')
     (\<lambda>f w'. f = Thrown ex \<and> escapes ex \<or> f = Undefined Buffer_Overflow \<and> \<not> next_try_fits w) w"
proof -
  have inform: "wp (seqA [retry e, inform_next_try_log]) (\<lambda>_ w'. retried w w')
      (\<lambda>f w'. f = Thrown ex \<and> escapes ex \<or> f = Undefined Buffer_Overflow \<and> \<not> next_try_fits w) w1"
    if "glt_settings w1 = glt_settings w" for w1
    using next_try_secs_settings [OF that] next_try_fits_settings [OF that]
    by (auto simp: wp_thenA wp_retA wp_inform_next_try_log retried_def
        dest: next_try_fits_settings intro!: wp_retry)
  have alone: "wp (seqA [retry e]) (\<lambda>_ w'. retried w w')
      (\<lambda>f w'. f = Thrown ex \<and> escapes ex \<or> f = Undefined Buffer_Overflow \<and> \<not> next_try_fits w) w1"
    if "glt_settings w1 = glt_settings w" for w1
    using next_try_secs_settings [OF that]
    by (auto simp: wp_thenA wp_retA retried_def intro!: wp_retry)
  have settings: "glt_settings (if b then w1\<lparr>calls := cs\<rparr> else w1) = glt_settings w1"
      "glt_settings (w1\<lparr>log := l\<rparr>) = glt_settings w1" for b w1 cs l
    by (simp_all add: glt_settings_def)
  show ?thesis
    using inform alone
    by (cases ex)
      (simp_all add: Let_def wp_thenA wp_seqA_Cons [of "send_message e m" for m]
        wp_seqA_Cons [of "write_log l m" for l m] wp_send_message wp_write_log wp_if wp_retA
        wp_throwA settings del: seqA.simps)
qed

text \<open>
  C6: a run of the license task that returns leaves a timer pending - the retry time after an
  exception, the retry time or the next day otherwise - with one exception: after an
  \<open>http_exception\<close> whose code is not the one of a wrong MIME type, no timer is set and the task
  never runs again.  A run fails only as its body does, with an exception no handler names, or
  on a retry time too long for its message.
\<close>

theorem glt_svc_rearms:
  "case glt_svc e w of
     (Inr n, w') \<Rightarrow> n = 0 \<and>
       (case fst (glt_body e w) of
          Inl (Thrown ex) \<Rightarrow> after_handler ex w w'
        | Inl _ \<Rightarrow> False
        | Inr _ \<Rightarrow> glt_armed w w')
   | (Inl f, _) \<Rightarrow>
       fst (glt_body e w) = Inl f \<and> (case f of Thrown ex \<Rightarrow> escapes ex | _ \<Rightarrow> True) \<or>
       f = Undefined Buffer_Overflow \<and> \<not> next_try_fits w"
proof -
  obtain r w1 where body: "glt_body e w = (r, w1)" by fastforce
  have arms: "wp (glt_body e) (\<lambda>_ w'. glt_armed w w' \<and> glt_settings w' = glt_settings w)
      (thrown_before w) w"
    using arms_glt_body [of e] unfolding arms_def by blast
  show ?thesis
  proof (cases r)
    case (Inr u)
    with body arms show ?thesis
      by (simp add: glt_svc_def thenA_def bindA_def catchA_def retA_def wp_def)
  next
    case (Inl f)
    show ?thesis
    proof (cases f)
      case (Thrown ex)
      with body Inl arms have view: "glt_view w1 = glt_view w"
        by (simp add: wp_def thrown_before_def)
      then have same: "after_handler ex w1 w' = after_handler ex w w'"
          "next_try_fits w1 = next_try_fits w" for w'
        using next_try_fits_settings [of w1 w] next_try_secs_settings [of w1 w]
        by (cases ex; simp add: glt_view_def retried_def)+
      obtain r2 w2 where "glt_handler e ex w1 = (r2, w2)" by fastforce
      with wp_glt_handler [of e ex w1] body Inl Thrown same show ?thesis
        by (auto simp: glt_svc_def thenA_def bindA_def catchA_def retA_def wp_def
            split: sum.splits)
    qed (simp_all add: glt_svc_def thenA_def bindA_def catchA_def body Inl)
  qed
qed

subsection \<open>What a run writes\<close>

text \<open>
  \<open>stores e L m\<close>: \<open>m\<close> changes no file but the license file, and that only to one of the texts
  \<open>L\<close>; the configuration stays.
\<close>

definition stored :: "'j env \<Rightarrow> cstring set \<Rightarrow> world \<Rightarrow> world \<Rightarrow> bool" where
  "stored e L w w' \<longleftrightarrow> parser_obj w' = parser_obj w \<and>
     (files w' = files w \<or>
      can_write e (opt_lic_file (config w)) \<and>
        (\<exists>l \<in> L. files w' = (files w)(opt_lic_file (config w) \<mapsto> erase_last_if NUL l)))"

definition stores :: "'j env \<Rightarrow> cstring set \<Rightarrow> (world, 'a) act \<Rightarrow> bool" where
  "stores e L m \<longleftrightarrow> (\<forall>w. stored e L w (snd (m w)))"

named_theorems storing \<open>rules that show what a step writes\<close>

lemma stored_trans: "stored e L w w1 \<Longrightarrow> stored e L w1 w2 \<Longrightarrow> stored e L w w2"
  by (auto simp: stored_def config_def)

lemma stored_refl [simp]: "stored e L w w"
  by (simp add: stored_def)

lemma stores_bindA [storing]:
  "stores e L m \<Longrightarrow> (\<And>a. stores e L (k a)) \<Longrightarrow> stores e L (bindA m k)"
  by (auto simp: stores_def bindA_def split: prod.split sum.split)
    (metis snd_conv stored_trans)+

lemma stores_thenA [storing]: "stores e L m \<Longrightarrow> stores e L k \<Longrightarrow> stores e L (thenA m k)"
  unfolding thenA_def by (rule stores_bindA)

lemma stores_catchA [storing]:
  "stores e L m \<Longrightarrow> (\<And>ex. stores e L (h ex)) \<Longrightarrow> stores e L (catchA m h)"
  by (auto simp: stores_def catchA_def split: prod.split sum.split failure.split)
    (metis snd_conv stored_trans)+

lemma stores_if [storing]:
  "(b \<Longrightarrow> stores e L m) \<Longrightarrow> (\<not> b \<Longrightarrow> stores e L n) \<Longrightarrow> stores e L (if b then m else n)"
  by simp

lemma stores_seqA [storing]:
  "stores e L (seqA [])"
  "stores e L m \<Longrightarrow> stores e L (seqA ms) \<Longrightarrow> stores e L (seqA (m # ms))"
  by (simp_all add: storing) (simp add: stores_def retA_def)

lemma stores_quiet: "keeps quiet_part m \<Longrightarrow> stores e L m"
  by (simp add: stores_def stored_def keeps_def quiet_part_def)

lemma stores_glt_schedule [storing]: "stores e L (glt_schedule_handle_timeout e s)"
  using glt.keeps_reschedule [of e s] by (simp add: stores_def stored_def keeps_def)

lemma stores_reschedule [storing]: "stores e L (retry e)" "stores e L (wait_next_day e)"
  unfolding retry_def wait_next_day_def by (rule storing stores_quiet frame_intros)+

lemma stores_update_task [storing]: "stores e L (update_license_task f)"
  by (simp add: stores_def stored_def update_license_task_def modifyA_def)

lemma stores_save: "l \<in> L \<Longrightarrow> stores e L (save_license_to_file e l)"
  by (auto simp: stores_def save_license_to_file_def Let_def bindA_def readA_def thenA_def
      modifyA_def retA_def stored_def)

lemma stores_write [storing]: "hl_license hl \<in> L \<Longrightarrow> stores e L (glt_write_license e hl)"
  unfolding glt_write_license_def sprintf_info_def
  by (rule storing stores_save stores_quiet frame_intros | assumption)+

lemma stores_on_received [storing]: "hl_license hl \<in> L \<Longrightarrow> stores e L (on_received e hl)"
  unfolding on_received_def store_if_newer_def
  by (rule storing stores_quiet frame_intros | assumption)+

text \<open>The texts an answer offers: an ACTIVE host's license, when it is not empty.\<close>

definition offered :: "result \<Rightarrow> cstring set" where
  "offered r = {l. l \<noteq> [] \<and> (\<exists>hs hl. res_host_status r = Some hs \<and> hs_id hs = status_ACTIVE \<and>
     res_host_license r = Some hl \<and> hl_license hl = l)}"

lemma stores_on_active:
  assumes "\<And>hl. license = Some hl \<Longrightarrow> hl_license hl \<noteq> [] \<Longrightarrow> hl_license hl \<in> L"
  shows "stores e L (on_active e hs license)"
  unfolding on_active_def using assms
  by (cases license; simp only: option.case)
    (rule storing stores_quiet frame_intros | simp)+

lemma stores_on_answer: "stores e (offered r) (on_answer e r)"
proof (cases "res_host_status r")
  case None
  then show ?thesis by (simp add: on_answer_def deref_def stores_def bindA_def failA_def)
next
  case (Some hs)
  have active: "stores e (offered r) (on_active e hs (res_host_license r))"
    if "hs_id hs = status_ACTIVE"
    using that Some by (intro stores_on_active) (auto simp: offered_def)
  show ?thesis
    unfolding on_answer_def Some deref_def option.case bindA_retA
    by (rule storing active stores_quiet frame_intros | assumption)+
qed

lemma stores_glt_handler: "stores e L (glt_handler e ex)"
  by (cases ex; simp only: glt_handler.simps Let_def)
    (rule storing stores_quiet frame_intros)+

lemma stored_mono: "stored e L w w' \<Longrightarrow> L \<subseteq> M \<Longrightarrow> stored e M w w'"
  by (auto simp: stored_def)

text \<open>\<open>r\<close> is a result the client returns for a request made with the configuration of \<open>w\<close>.\<close>

definition received :: "'j env \<Rightarrow> int \<Rightarrow> world \<Rightarrow> result \<Rightarrow> bool" where
  "received e attempt w r \<longleftrightarrow> sound_result r \<and>
     (\<exists>x w1. ex_attempt x = attempt \<and> quiet_part w1 = quiet_part w \<and>
        fst (run_client (processing_license e x) w1) = Inr r)"

lemma stored_quiet: "quiet_part w1 = quiet_part w \<Longrightarrow> stored e L w1 w' \<Longrightarrow> stored e L w w'"
  by (auto simp: stored_def quiet_part_def config_def)

lemma wp_make_license_extractor:
  assumes "\<And>x w'. quiet_part w' = quiet_part w \<Longrightarrow> ex_attempt x = n \<Longrightarrow> Q x w'"
    and "\<And>f w'. quiet_part w' = quiet_part w \<Longrightarrow> E f w'"
  shows "wp (make_license_extractor e n) Q E w"
proof -
  obtain r w' where run: "make_license_extractor e n w = (r, w')" by fastforce
  have "quiet_part w' = quiet_part w"
    using keepsD [OF keeps_quiet_make_license_extractor run] .
  moreover have "yields (\<lambda>x. ex_attempt x = n) (make_license_extractor e n)"
    unfolding make_license_extractor_def new_license_extractor_def
    by (intro frame_intros) simp
  ultimately show ?thesis
    using assms run yieldsD [of "\<lambda>x. ex_attempt x = n" "make_license_extractor e n" w]
    by (auto simp: wp_def split: sum.split)
qed

text \<open>A client run followed by a step that stores what the answer offers.\<close>

lemma wp_client_then:
  assumes "\<And>r. sound_result r \<Longrightarrow> stores e (offered r) (k r)"
    and "\<And>L w'. L = {} \<or> (\<exists>r. received e n w r \<and> L = offered r) \<Longrightarrow> stored e L w w' \<Longrightarrow> P w'"
    and "keeps quiet_part (m :: (world, unit) act)"
  shows "wp (bindA (make_license_extractor e n) (\<lambda>x. thenA m (bindA (run_client (processing_license e x)) k)))
    (\<lambda>_. P) (\<lambda>_. P) w"
  unfolding wp_bindA wp_thenA
proof (intro wp_make_license_extractor wp_keeps [OF assms(3)] wp_run_processing_license)
  have same: "P w'" if "quiet_part w' = quiet_part w" for w' :: world
    using assms(2) [of "{}" w'] stored_quiet [of w' w e "{}" w'] that by simp
  fix x :: license_extractor and w1 :: world assume x: "ex_attempt x = n" and w1: "quiet_part w1 = quiet_part w"
  {
    fix w2 :: world assume "quiet_part w2 = quiet_part w1"
    with w1 show "P w2" by (intro same) simp
  }
  fix w2 :: world assume w2: "quiet_part w2 = quiet_part w1"
  {
    fix w3 :: world assume "quiet_part w3 = quiet_part w2"
    with w1 w2 show "P w3" by (intro same) simp
  }
  fix r and w3 :: world assume r: "sound_result r" and w3: "quiet_part w3 = quiet_part w2"
    and "fst (run_client (processing_license e x) w2) = Inr r"
  then have "received e n w r"
    using x w1 w2 unfolding received_def by auto
  moreover have "stored e (offered r) w (snd (k r w3))"
  proof (rule stored_quiet)
    show "quiet_part w3 = quiet_part w" using w1 w2 w3 by simp
    show "stored e (offered r) w3 (snd (k r w3))" using assms(1) [OF r] by (simp add: stores_def)
  qed
  ultimately have "P (snd (k r w3))" using assms(2) by blast
  then show "wp (k r) (\<lambda>_. P) (\<lambda>_. P) w3"
    by (simp add: wp_def split_beta split: sum.split)
next
  fix w' :: world assume "quiet_part w' = quiet_part w"
  then show "P w'" using assms(2) [of "{}" w'] stored_quiet [of w' w e "{}" w'] by simp
qed

text \<open>
  C7: a run of the license task changes no file but the license file, and that only on an
  update day, to the license of an ACTIVE host in an answer with status 200, less one zero at
  its end, and never to an empty text; the configuration stays as it was.  This holds however
  the run ends.
\<close>

theorem glt_svc_stores:
  "\<exists>L. stored e L w (snd (glt_svc e w)) \<and>
     (L = {} \<or>
      fst (is_license_update_day e w) = Inr True \<and> (\<exists>r. received e 1 w r \<and> L = offered r))"
proof -
  define P where "P w' \<longleftrightarrow> (\<exists>L. stored e L w w' \<and> (L = {} \<or>
      fst (is_license_update_day e w) = Inr True \<and> (\<exists>r. received e 1 w r \<and> L = offered r)))"
    for w'
  have body: "P (snd (glt_body e w))"
  proof (cases "fst (is_license_update_day e w) = Inr True")
    case True
    let ?w1 = "w\<lparr>log := log w @ [(Info, ''Attempt to get a license...'')]\<rparr>"
    let ?rest = "bindA (make_license_extractor e 1)
       (\<lambda>x. thenA (retA ()) (bindA (run_client (processing_license e x)) (on_answer e)))"
    have run: "glt_body e w = ?rest ?w1"
      using True
      unfolding glt_body_def is_license_update_day_def
      by (simp only: bindA_readA readA_def thenA_retA thenA_write_log fst_conv sum.inject
          simp_thms if_True)
    have "wp ?rest (\<lambda>_. P) (\<lambda>_. P) ?w1"
    proof (rule wp_client_then [OF stores_on_answer _ keeps_simple(1)])
      fix L w' assume "L = {} \<or> (\<exists>r. received e 1 ?w1 r \<and> L = offered r)"
        and "stored e L ?w1 w'"
      moreover have "stored e L w w'" if "stored e L ?w1 w'"
        using that by (rule stored_quiet [rotated]) simp
      ultimately show "P w'" using True unfolding P_def received_def by fastforce
    qed
    then show ?thesis
      unfolding run by (simp add: wp_def split_beta split: sum.splits)
  next
    case False
    have "stores e {} (seqA [update_license_task (\<lambda>t. t\<lparr>glt_day_counter := glt_day_counter t + 1\<rparr>),
              wait_next_day e, write_log Info ''Wait next day''])"
      by (rule storing stores_quiet frame_intros)+
    with False have "stored e {} w (snd (glt_body e w))"
      by (auto simp add: glt_body_def is_license_update_day_def bindA_readA stores_def readA_def
          simp del: seqA.simps)
    then show ?thesis unfolding P_def by blast
  qed
  have "P (snd (catchA (glt_body e) (glt_handler e) w))"
  proof -
    have step: "P (snd (glt_handler e ex w1))" if "P w1" for ex w1
      using that stores_glt_handler [of e _ ex] stored_trans unfolding P_def stores_def by blast
    show ?thesis
      using body step by (auto simp: catchA_def split: prod.split sum.split failure.split)
  qed
  then show ?thesis
    unfolding P_def glt_svc_def by (simp add: thenA_def bindA_def retA_def split_beta split: sum.split)
qed

end
