(* ===== verification/Killer_Task.thy ===== *)
theory Killer_Task
  imports License_Check
begin

section \<open>The task that stops the process without a license\<close>

text \<open>
  \<open>process_killer_task/process_killer_task.h\<close> and
  \<open>process_killer_task/process_killer_task.cpp\<close>.
\<close>

subsection \<open>Process_Killer_Task\<close>

definition update_killer_task ::
    "(process_killer_task \<Rightarrow> process_killer_task) \<Rightarrow> (world, unit) act" where
  "update_killer_task f = modifyA (\<lambda>w. w\<lparr>killer_task := f (killer_task w)\<rparr>)"

definition pkt_next_day_waiting_secs :: "world \<Rightarrow> int" where
  "pkt_next_day_waiting_secs w = pkt_day_waiting_hours (killer_task w) * 60 * 60"

definition pkt_schedule_timer :: "'j env \<Rightarrow> int \<Rightarrow> (world, unit) act" where
  "pkt_schedule_timer e seconds =
     thenA (call (Schedule_Timer Killer_Task seconds)) (
     bindA (readA (\<lambda>w. timer_id_of e (calls w))) (\<lambda>i.
       update_killer_task (\<lambda>t. t\<lparr>pkt_timer_id := i\<rparr>)))"

definition pkt_open :: "'j env \<Rightarrow> int \<Rightarrow> (world, int) act" where
  "pkt_open e tv = thenA (pkt_schedule_timer e tv) (retA 0)"

definition pkt_destroy :: "(world, unit) act" where
  "pkt_destroy = call (Cancel_Timer Killer_Task)"

definition pkt_handle_timeout :: "'j env \<Rightarrow> (world, int) act" where
  "pkt_handle_timeout e =
     (if \<not> activate_ok e Killer_Task then retA (-1)
      else thenA (call (Activate Killer_Task)) (retA 0))"

definition pkt_schedule_handle_timeout :: "'j env \<Rightarrow> int \<Rightarrow> (world, int) act" where
  "pkt_schedule_handle_timeout e seconds =
     thenA (call (Cancel_Timer Killer_Task)) (thenA (pkt_schedule_timer e seconds) (retA 0))"

definition pkt_shutdown_service :: "int \<Rightarrow> (world, int) act" where
  "pkt_shutdown_service end_event_loop =
     thenA (call (Cancel_Timer Killer_Task)) (thenA (call End_Event_Loop) (retA end_event_loop))"

text \<open>
  \<open>execute_process\<close>: the child is a parameter, the exit code it ends with if it can be
  spawned.
\<close>

definition pkt_execute_process :: "int option \<Rightarrow> cstring \<Rightarrow> (world, int) act" where
  "pkt_execute_process exit_code process_name =
     (case exit_code of
        None \<Rightarrow> retA (-1)
      | Some status \<Rightarrow>
          thenA (call (Run_Child (c_str process_name)))
            (if status \<noteq> 1 then retA (-1) else retA 0))"

subsection \<open>svc\<close>

definition killer_report :: "cstring \<Rightarrow> cstring" where
  "killer_report message = ''{ \"code\": \"1\", \"disc\": \"'' @ message @ ''\" }''"

definition stop_process :: "'j env \<Rightarrow> (world, unit) act" where
  "stop_process e =
     bindA (readA (\<lambda>w. pkt_process_stopping_name (killer_task w))) (\<lambda>name.
     bindA (terminate_process e name) (\<lambda>terminated.
       if terminated
       then let message = name @ '' was killed''
            in seqA [write_log Info (c_str message), send_message e (killer_report message)]
       else let message = ''Process '' @ name @ '' not found''
            in seqA [write_log Info (c_str message), send_message e (killer_report message)]))"

text \<open>\<open>is_license_check_day() && (!is_license_file() || !verify_license())\<close>, left to right.\<close>

definition license_missing :: "'j env \<Rightarrow> (world, bool) act" where
  "license_missing e =
     bindA (is_license_file e) (\<lambda>have_file.
       if \<not> have_file then retA True
       else bindA (verify_license e) (\<lambda>verified. retA (\<not> verified)))"

definition pkt_must_stop :: "'j env \<Rightarrow> (world, bool) act" where
  "pkt_must_stop e =
     bindA (is_license_check_day e) (\<lambda>check_day.
       if \<not> check_day then retA False else license_missing e)"

definition pkt_next_day :: "'j env \<Rightarrow> (world, unit) act" where
  "pkt_next_day e = bindA (readA pkt_next_day_waiting_secs)
     (\<lambda>s. bindA (pkt_schedule_handle_timeout e s) (\<lambda>_. retA ()))"

definition pkt_body :: "'j env \<Rightarrow> (world, unit) act" where
  "pkt_body e =
     bindA (pkt_must_stop e) (\<lambda>must_stop.
       thenA (if must_stop then stop_process e else retA ()) (pkt_next_day e))"

fun pkt_handler :: "'j env \<Rightarrow> cpp_exn \<Rightarrow> (world, unit) act" where
  "pkt_handler e (Process_Error msg) =
     (let message = substr_upto (c_str msg) (find_first_of CHR '':'' (c_str msg))
      in seqA [send_message e (''0#Critical#'' @ message), write_log Error message,
           pkt_next_day e])"
| "pkt_handler e (Runtime_Error msg) =
     (let message = c_str msg
      in seqA [send_message e (''0#Critical#'' @ message), write_log Error message,
           pkt_next_day e])"
| "pkt_handler e ex = throwA ex"

definition pkt_svc :: "'j env \<Rightarrow> (world, int) act" where
  "pkt_svc e = thenA (catchA (pkt_body e) (pkt_handler e)) (retA 0)"

subsection \<open>The task schedules itself\<close>

definition pkt_settings :: "world \<Rightarrow> cstring \<times> int" where
  "pkt_settings w =
     (pkt_process_stopping_name (killer_task w), pkt_day_waiting_hours (killer_task w))"

interpretation pkt: self_scheduling "pkt_schedule_handle_timeout e" Killer_Task pkt_settings
  for e :: "'j env"
  by unfold_locales
    (simp add: pkt_schedule_handle_timeout_def pkt_schedule_timer_def update_killer_task_def
      call_def thenA_def bindA_def modifyA_def readA_def retA_def pkt_settings_def)

lemma pkt_secs_settings:
  "pkt_settings w' = pkt_settings w \<Longrightarrow> pkt_next_day_waiting_secs w' = pkt_next_day_waiting_secs w"
  by (simp add: pkt_settings_def pkt_next_day_waiting_secs_def)

lemma keeps_quiet_license_missing [frame_intros]: "keeps quiet_part (license_missing e)"
  unfolding license_missing_def by (intro frame_intros)

lemma keeps_quiet_pkt_must_stop [frame_intros]: "keeps quiet_part (pkt_must_stop e)"
  unfolding pkt_must_stop_def by (intro frame_intros)

lemma keeps_quiet_stop_process [frame_intros]: "keeps quiet_part (stop_process e)"
  unfolding stop_process_def Let_def by (intro frame_intros)

lemma wp_pkt_next_day:
  assumes "\<And>w'. pending_timer Killer_Task (calls w') = Some (pkt_next_day_waiting_secs w) \<Longrightarrow>
      files w' = files w \<Longrightarrow> parser_obj w' = parser_obj w \<Longrightarrow> Q () w'"
  shows "wp (pkt_next_day e) Q E w"
  using assms by (auto simp: pkt_next_day_def effect_simps intro!: pkt.wp_reschedule)

definition next_day_set :: "world \<Rightarrow> world \<Rightarrow> bool" where
  "next_day_set w w' \<longleftrightarrow>
     pending_timer Killer_Task (calls w') = Some (pkt_next_day_waiting_secs w) \<and>
     files w' = files w \<and> parser_obj w' = parser_obj w"

lemma quiet_then_next_day:
  assumes "quiet_part w1 = quiet_part w"
  shows "wp (pkt_next_day e) (\<lambda>_ w'. next_day_set w w') E w1"
  using assms pkt_secs_settings [of w1 w]
  by (intro wp_pkt_next_day) (auto simp: next_day_set_def quiet_part_def pkt_settings_def)

lemma pkt_body_run:
  "wp (pkt_body e) (\<lambda>_ w'. next_day_set w w') (\<lambda>_ w'. quiet_part w' = quiet_part w) w"
proof -
  have stop: "wp (if b then stop_process e else retA ())
      (\<lambda>_ w'. wp (pkt_next_day e) (\<lambda>_ w'. next_day_set w w')
        (\<lambda>_ w'. quiet_part w' = quiet_part w) w')
      (\<lambda>_ w'. quiet_part w' = quiet_part w) w1"
    if "quiet_part w1 = quiet_part w" for b w1
  proof (rule wp_keeps [where g = quiet_part])
    show "keeps quiet_part (if b then stop_process e else retA ())" by (intro frame_intros)
  qed (use that quiet_then_next_day in auto)
  show ?thesis
    unfolding pkt_body_def wp_bindA wp_thenA
    by (rule wp_keeps [OF keeps_quiet_pkt_must_stop stop]) simp_all
qed

fun handled :: "cpp_exn \<Rightarrow> bool" where
  "handled (Process_Error s) = True"
| "handled (Runtime_Error s) = True"
| "handled _ = False"

lemma pkt_handler_run:
  assumes "quiet_part w1 = quiet_part w"
  shows "wp (pkt_handler e ex) (\<lambda>_ w'. handled ex \<and> next_day_set w w')
    (\<lambda>f w'. f = Thrown ex \<and> \<not> handled ex) w1"
proof -
  have report: "wp (seqA [send_message e m, write_log Error s, pkt_next_day e])
      (\<lambda>_ w'. next_day_set w w') E w1" for m s E
  proof -
    have "wp (thenA (send_message e m) (write_log Error s))
        (\<lambda>_ w'. wp (pkt_next_day e) (\<lambda>_ w'. next_day_set w w') E w') E w1"
    proof (simp only: wp_thenA wp_send_message wp_write_log, rule quiet_then_next_day)
      let ?w2 = "if peer_up e then w1\<lparr>calls := calls w1 @ [Send_Message (m @ [NUL])]\<rparr> else w1"
      have "quiet_part ?w2 = quiet_part w1" by (simp add: quiet_part_call timer_call_def)
      with assms show "quiet_part (?w2\<lparr>log := log ?w2 @ [(Error, s)]\<rparr>) = quiet_part w"
        by (simp only: quiet_part_log)
    qed
    then show ?thesis by (simp add: wp_thenA wp_retA)
  qed
  show ?thesis
    by (cases ex) (simp_all add: Let_def report wp_throwA del: seqA.simps)
qed

text \<open>
  Every run of the killer task that returns - after an exception too - sets the timer for the next
  day and changes no file and no option.  It fails only with what its body fails with, and then
  with an exception that is neither a \<open>process_error\<close> nor a \<open>runtime_error\<close>, or not an exception
  at all.
\<close>

lemma pkt_svc_rearms:
  "case pkt_svc e w of
     (Inr n, w') \<Rightarrow> n = 0 \<and> next_day_set w w'
   | (Inl f, _) \<Rightarrow> fst (pkt_body e w) = Inl f \<and> (case f of Thrown ex \<Rightarrow> \<not> handled ex | _ \<Rightarrow> True)"
proof -
  obtain r w1 where body: "pkt_body e w = (r, w1)" by fastforce
  with pkt_body_run [of e w] have post:
    "case r of Inl _ \<Rightarrow> quiet_part w1 = quiet_part w | Inr _ \<Rightarrow> next_day_set w w1"
    by (simp add: wp_def split: sum.splits)
  show ?thesis
  proof (cases r)
    case (Inr u)
    with body post show ?thesis
      by (simp add: pkt_svc_def thenA_def bindA_def catchA_def retA_def)
  next
    case (Inl f)
    show ?thesis
    proof (cases f)
      case (Thrown ex)
      obtain r2 w2 where "pkt_handler e ex w1 = (r2, w2)" by fastforce
      with pkt_handler_run [of w1 w e ex] body post Inl Thrown show ?thesis
        by (auto simp: pkt_svc_def thenA_def bindA_def catchA_def retA_def wp_def
            split: sum.splits)
    qed (simp_all add: pkt_svc_def thenA_def bindA_def catchA_def body Inl)
  qed
qed

subsection \<open>When a process is stopped\<close>

text \<open>The processes that got a signal, in order.\<close>

definition kills :: "sys_call list \<Rightarrow> int list" where
  "kills cs = concat (map (\<lambda>c. case c of Kill_Process p \<Rightarrow> [p] | _ \<Rightarrow> []) cs)"

lemma kills_append [simp]: "kills (cs @ ds) = kills cs @ kills ds"
  by (simp add: kills_def)

lemma kills_list [simp]:
  "kills [] = []"
  "kills (c # cs) = (case c of Kill_Process p \<Rightarrow> [p] | _ \<Rightarrow> []) @ kills cs"
  by (simp_all add: kills_def)

definition killed :: "world \<Rightarrow> int list \<times> process_killer_task \<times> parser \<times> (cstring \<rightharpoonup> cstring)" where
  "killed w = (kills (calls w), killer_task w, parser_obj w, files w)"

lemma keeps_killed_simple [frame_intros]:
  "keeps killed (write_log l s)" "keeps killed (call (Run_Child c))"
  "keeps killed (call (Send_Message m))"
  by (simp_all add: write_log_def call_def keeps_modifyA killed_def)

lemma keeps_killed_steps [frame_intros]:
  "keeps killed (send_message e m)" "keeps killed (run_proc e c)"
  "keeps killed (is_license_file e)" "keeps killed (is_license_check_day e)"
  "keeps killed (verify_license e)"
  unfolding send_message_def sender_send_def run_proc_def is_license_file_def find_file_def
    is_license_check_day_def verify_license_def make_verify_license_cmd_def Let_def
  by (intro frame_intros | simp add: frame_intros split: sum.split)+

lemma keeps_killed_must_stop [frame_intros]: "keeps killed (pkt_must_stop e)"
  unfolding pkt_must_stop_def license_missing_def by (intro frame_intros)

definition target :: "'j env \<Rightarrow> world \<Rightarrow> int" where
  "target e w = getProcIdByName e (pkt_process_stopping_name (killer_task w))"

lemma wp_stop_process:
  assumes "\<And>w'. kills (calls w') = kills (calls w) @ (if 0 < target e w then [target e w] else []) \<Longrightarrow> Q () w'"
  shows "wp (stop_process e) Q E w"
  using assms
  by (auto simp: stop_process_def effect_simps Let_def target_def killer_report_def)

lemma wp_next_day_kills:
  assumes "\<And>w'. kills (calls w') = kills (calls w) \<Longrightarrow> Q () w'"
  shows "wp (pkt_next_day e) Q E w"
proof -
  have "wp (pkt_schedule_handle_timeout e s) (\<lambda>n w'. wp (retA ()) Q E w') E w" for s
    using pkt.reschedule_run [of e s w]
    by (auto simp: wp_def retA_def intro!: assms)
  then show ?thesis by (simp add: pkt_next_day_def wp_bindA wp_readA)
qed

lemma pkt_handler_kills: "kills (calls (snd (pkt_handler e ex w))) = kills (calls w)"
proof -
  have "wp (pkt_handler e ex) (\<lambda>_ w'. kills (calls w') = kills (calls w))
      (\<lambda>_ w'. kills (calls w') = kills (calls w)) w"
    by (cases ex) (auto simp: Let_def effect_simps intro!: wp_next_day_kills)
  then show ?thesis by (simp add: wp_def split_beta split: sum.splits)
qed

text \<open>
  When a run decides to stop the process: it is the check day, and the license file is absent
  from its directory, or the license program reports ERROR for it.
\<close>

definition license_refused :: "'j env \<Rightarrow> world \<Rightarrow> bool" where
  "license_refused e w \<longleftrightarrow>
     (let opts = config w; dir = split_file_path (opt_lic_file opts);
          present = (\<lambda>entries. \<exists>es. entries = Some es \<and> (opt_lic_file_name opts, False) \<in> set es)
      in today e = opt_day_license_check opts \<and>
         (\<exists>entries. list_dir e (files w) dir = Inr entries \<and>
            (\<not> present entries \<or>
             length (verify_text opts) < BUFSIZ \<and>
             (\<exists>out. run_child e (verify_text opts) = Inr out \<and> report_code out = ''ERROR''))))"

lemma report_code_empty: "report_code out = c # s \<Longrightarrow> first_line out \<noteq> []"
  by (auto simp: report_code_def)

lemma verify_license_False:
  "fst (verify_license e w) = Inr False \<longleftrightarrow> length (verify_text (config w)) < BUFSIZ \<and>
     (\<exists>out. run_child e (verify_text (config w)) = Inr out \<and> report_code out = ''ERROR'')"
  using report_code_empty [of _ "CHR ''E''" "''RROR''"]
  by (auto simp: verify_license_run split: sum.split)

lemma is_license_file_run:
  "fst (is_license_file e w) =
     (case list_dir e (files w) (split_file_path (opt_lic_file (config w))) of
        Inl ex \<Rightarrow> Inl (Thrown ex)
      | Inr entries \<Rightarrow> Inr (\<exists>es. entries = Some es \<and> (opt_lic_file_name (config w), False) \<in> set es))"
  unfolding fst_iff_wp by (simp add: wp_is_license_file Let_def split: sum.split)

lemma must_stop_iff: "fst (pkt_must_stop e w) = Inr True \<longleftrightarrow> license_refused e w"
proof -
  obtain r w1 where run: "is_license_file e w = (r, w1)" by fastforce
  have "quiet_part w1 = quiet_part w" by (rule keepsD [OF keeps_quiet_is_license_file run])
  then have "config w1 = config w" by (simp add: quiet_part_def config_def)
  moreover have "fst (bindA (verify_license e) (\<lambda>v. retA (\<not> v)) w1) = Inr True \<longleftrightarrow>
      fst (verify_license e w1) = Inr False"
    by (auto simp: bindA_def retA_def split: prod.split sum.split)
  moreover have "fst (license_missing e w) = Inr True \<longleftrightarrow>
      r = Inr False \<or> r = Inr True \<and> fst (bindA (verify_license e) (\<lambda>v. retA (\<not> v)) w1) = Inr True"
    by (auto simp: license_missing_def bindA_def [of "is_license_file e"] run retA_def
        split: sum.split)
  moreover have "fst (pkt_must_stop e w) = Inr True \<longleftrightarrow>
      today e = opt_day_license_check (config w) \<and> fst (license_missing e w) = Inr True"
    by (simp add: pkt_must_stop_def is_license_check_day_def bindA_readA retA_def)
  ultimately show ?thesis
    using is_license_file_run [of e w] run verify_license_False [of e w1]
    by (auto simp: license_refused_def Let_def split: sum.splits)
qed

text \<open>
  C8: a run signals at most one process: the first one of /proc with the configured name, and
  it does so exactly when it is the check day and the license is refused, however the run ends.
\<close>

theorem pkt_svc_kills:
  "kills (calls (snd (pkt_svc e w))) =
     kills (calls w) @ (if license_refused e w \<and> 0 < target e w then [target e w] else [])"
proof -
  define after where "after w' \<longleftrightarrow> kills (calls w') =
     kills (calls w) @ (if license_refused e w \<and> 0 < target e w then [target e w] else [])" for w' :: world
  obtain r w1 where dec: "pkt_must_stop e w = (r, w1)" by fastforce
  have same: "killed w1 = killed w" by (rule keepsD [OF keeps_killed_must_stop dec])
  have "wp (thenA (if b then stop_process e else retA ()) (pkt_next_day e)) (\<lambda>_. after) (\<lambda>_. after) w1"
    if "r = Inr b" for b
  proof -
    have "b = license_refused e w" using must_stop_iff [of e w] dec that by auto
    then show ?thesis
      using same
      by (auto simp: wp_thenA wp_if wp_retA killed_def target_def after_def
          intro!: wp_stop_process wp_next_day_kills)
  qed
  moreover have "after w1" if "r = Inl f" for f
    using must_stop_iff [of e w] dec that same by (auto simp: killed_def after_def)
  ultimately have body: "wp (pkt_body e) (\<lambda>_. after) (\<lambda>_. after) w"
    unfolding pkt_body_def wp_bindA using dec by (auto simp: wp_def [of "pkt_must_stop e"] split: sum.split)
  have "snd (pkt_svc e w) =
      (case fst (pkt_body e w) of
         Inl (Thrown ex) \<Rightarrow> snd (pkt_handler e ex (snd (pkt_body e w)))
       | _ \<Rightarrow> snd (pkt_body e w))"
    by (simp add: pkt_svc_def thenA_def bindA_def catchA_def retA_def split_beta
        split: sum.split failure.split)
  then have "kills (calls (snd (pkt_svc e w))) = kills (calls (snd (pkt_body e w)))"
    by (simp add: pkt_handler_kills split: sum.split failure.split)
  moreover have "after (snd (pkt_body e w))" using body by (simp only: wp_snd)
  ultimately show ?thesis unfolding after_def by simp
qed

end
