(* ===== verification/Sink_Task.thy ===== *)
theory Sink_Task
  imports License_Task
begin

section \<open>The task that gets a license when the client starts\<close>

text \<open>
  \<open>event_sink_task/event_sink_task.h\<close> and \<open>event_sink_task/event_sink_task.cpp\<close>: a thread that
  looks at the license when the watched program starts, and fetches one when it is missing or
  refused.  It sets no timer.
\<close>

subsection \<open>EventSink_Task\<close>

definition est_open :: "bool \<Rightarrow> (world, int) act" where
  "est_open activated =
     (if \<not> activated then retA (-1) else thenA (call Activate_Worker) (retA 0))"

definition est_write_license :: "'j env \<Rightarrow> host_license \<Rightarrow> (world, int) act" where
  "est_write_license e hl =
     bindA (save_license_to_file e (hl_license hl)) (\<lambda>saved.
       if \<not> saved then thenA (write_log Error ''Error: don't save license to file'') (retA (-1))
       else thenA (sprintf_info 50 (saved_text hl)) (retA 0))"

definition est_on_answer :: "'j env \<Rightarrow> result \<Rightarrow> (world, unit) act" where
  "est_on_answer e r =
     bindA (deref (res_host_status r)) (\<lambda>hs.
     thenA (send_message e (''2#Host Status#'' @ hs_name hs)) (
     thenA (write_log Info (c_str (''Host Status: '' @ hs_name hs))) (
       if hs_id hs = status_ACTIVE
       then (case res_host_license r of
               Some hl \<Rightarrow>
                 if hl_license hl = [] then retA ()
                 else thenA (write_log Info ''Received a license'')
                        (bindA (est_write_license e hl) (\<lambda>_. retA ()))
             | None \<Rightarrow> write_log Error (c_str (''ERROR: Host Status is '' @ hs_name hs @
                         '', Lisence of Host is NULL. Call to administrator.'')))
       else write_log Info ''Try to get license arter 5 minutes'')))"

text \<open>\<open>!is_license_file() || !verify_license()\<close>, left to right.\<close>

definition est_license_missing :: "'j env \<Rightarrow> (world, bool) act" where
  "est_license_missing e =
     bindA (is_license_file e) (\<lambda>have_file.
       if \<not> have_file then retA True
       else bindA (verify_license e) (\<lambda>verified. retA (\<not> verified)))"

definition est_body :: "'j env \<Rightarrow> (world, unit) act" where
  "est_body e =
     bindA (est_license_missing e) (\<lambda>missing.
       if missing
       then bindA (make_license_extractor e 60) (\<lambda>x.
            thenA (write_log Info ''Attempt to get a license...'') (
            bindA (run_client (processing_license e x)) (est_on_answer e)))
       else retA ())"

fun est_handler :: "'j env \<Rightarrow> cpp_exn \<Rightarrow> (world, unit) act" where
  "est_handler e (Process_Error msg) =
     (let message = substr_upto (c_str msg) (find_first_of CHR '':'' (c_str msg))
      in seqA [send_message e (''0#Critical#'' @ message), write_log Error message])"
| "est_handler e (Runtime_Error msg) =
     (let message = c_str msg
      in seqA [send_message e (''0#Critical#'' @ message), write_log Error message])"
| "est_handler e (Http_Exception code msg) =
     (let message = c_str msg
      in seqA [write_log Error message,
               if code = MIME_TYPES then send_message e (''0#Critical#'' @ message) else retA ()])"
| "est_handler e ex = throwA ex"

definition est_svc :: "'j env \<Rightarrow> (world, int) act" where
  "est_svc e = thenA (catchA (est_body e) (est_handler e)) (retA 0)"

subsection \<open>What a run writes\<close>

lemma stores_est_write [storing]: "hl_license hl \<in> L \<Longrightarrow> stores e L (est_write_license e hl)"
  unfolding est_write_license_def sprintf_info_def
  by (rule storing stores_save stores_quiet frame_intros | assumption)+

lemma stores_est_on_answer: "stores e (offered r) (est_on_answer e r)"
proof (cases "res_host_status r")
  case None
  then show ?thesis by (simp add: est_on_answer_def deref_def stores_def bindA_def failA_def)
next
  case (Some hs)
  have license: "stores e (offered r) (est_write_license e hl)"
    if "hs_id hs = status_ACTIVE" "res_host_license r = Some hl" "hl_license hl \<noteq> []" for hl
    using that Some by (intro stores_est_write) (auto simp: offered_def)
  show ?thesis
    unfolding est_on_answer_def Some deref_def option.case bindA_retA
    by (cases "res_host_license r"; simp only: option.case)
      (rule storing license stores_quiet frame_intros | assumption)+
qed

lemma keeps_quiet_est_license_missing [frame_intros]: "keeps quiet_part (est_license_missing e)"
  unfolding est_license_missing_def by (intro frame_intros)

lemma keeps_quiet_est_handler: "keeps quiet_part (est_handler e ex)"
  by (cases ex; simp only: est_handler.simps Let_def) (rule frame_intros)+

lemma received_quiet: "quiet_part w1 = quiet_part w \<Longrightarrow> received e n w1 r = received e n w r"
  by (simp add: received_def)

text \<open>
  A run of the sink task changes no file but the license file, and that only to the
  license of an ACTIVE host in an answer with status 200, when the license was absent or refused
  before; it touches no timer and no option.
\<close>

lemma est_svc_stores:
  "\<exists>L. stored e L w (snd (est_svc e w)) \<and>
     (L = {} \<or>
      fst (est_license_missing e w) = Inr True \<and> (\<exists>r. received e 60 w r \<and> L = offered r))"
proof -
  define P where "P w' \<longleftrightarrow> (\<exists>L. stored e L w w' \<and> (L = {} \<or>
      fst (est_license_missing e w) = Inr True \<and> (\<exists>r. received e 60 w r \<and> L = offered r)))"
    for w'
  obtain r w1 where dec: "est_license_missing e w = (r, w1)" by fastforce
  have same: "quiet_part w1 = quiet_part w"
    by (rule keepsD [OF keeps_quiet_est_license_missing dec])
  have quiet: "P w'" if "quiet_part w' = quiet_part w" for w'
    using stored_quiet [OF that, of e "{}" w'] unfolding P_def by auto
  have body: "P (snd (est_body e w))"
  proof (cases "r = Inr True")
    case True
    let ?rest = "bindA (make_license_extractor e 60)
       (\<lambda>x. thenA (write_log Info ''Attempt to get a license...'')
          (bindA (run_client (processing_license e x)) (est_on_answer e)))"
    have "wp ?rest (\<lambda>_. P) (\<lambda>_. P) w1"
    proof (rule wp_client_then [OF stores_est_on_answer _ keeps_quiet_write_log])
      fix L w' assume "L = {} \<or> (\<exists>r. received e 60 w1 r \<and> L = offered r)"
        and "stored e L w1 w'"
      with True dec same show "P w'"
        unfolding P_def using stored_quiet [OF same] received_quiet [OF same] by fastforce
    qed
    moreover have "est_body e w = ?rest w1"
      using True dec by (simp add: est_body_def bindA_def [of "est_license_missing e"])
    ultimately show ?thesis by (simp add: wp_def split_beta split: sum.splits)
  next
    case False
    then show ?thesis
      using dec same
      by (auto simp: est_body_def bindA_def [of "est_license_missing e"] retA_def
          intro: quiet split: sum.split)
  qed
  have handler: "P (snd (est_handler e ex w2))" if "P w2" for ex w2
    using that stores_quiet [OF keeps_quiet_est_handler, of e _ e ex] stored_trans
    unfolding P_def stores_def by blast
  have "P (snd (catchA (est_body e) (est_handler e) w))"
    using body handler by (auto simp: catchA_def split: prod.split sum.split failure.split)
  then show ?thesis
    unfolding P_def est_svc_def
    by (simp add: thenA_def bindA_def retA_def split_beta split: sum.split)
qed

subsection \<open>The message buffers\<close>

lemma length_saved_text:
  "length (saved_text hl) = 43 + length (show_int (hl_month hl)) + length (show_int (hl_year hl))"
  by (simp add: saved_text_def)

definition write_outcome :: "nat \<Rightarrow> 'j env \<Rightarrow> world \<Rightarrow> host_license \<Rightarrow> int outcome" where
  "write_outcome limit e w hl =
     (if \<not> can_write e (opt_lic_file (config w)) then Inr (-1)
      else if limit < length (show_int (hl_month hl)) + length (show_int (hl_year hl))
      then Inl (Undefined Buffer_Overflow) else Inr 0)"

text \<open>
  The message of a saved license overflows the 50 characters of the sink task exactly when
  month and year print in more than 6 characters together; in the 100 characters of the license
  task every pair of 32-bit numbers fits.
\<close>

lemma write_license_buffers:
  "fst (est_write_license e hl w) = write_outcome 6 e w hl \<and>
   fst (glt_write_license e hl w) = write_outcome 56 e w hl \<and>
   write_outcome 56 e w (hl\<lparr>hl_month := sint (m :: 32 word), hl_year := sint (y :: 32 word)\<rparr>) \<noteq>
     Inl (Undefined Buffer_Overflow)"
proof (intro conjI)
  show "fst (est_write_license e hl w) = write_outcome 6 e w hl"
    "fst (glt_write_license e hl w) = write_outcome 56 e w hl"
    unfolding fst_iff_wp est_write_license_def glt_write_license_def write_outcome_def
    by (simp_all add: effect_simps length_saved_text)
  have "length (show_int (sint v)) \<le> 11" for v :: "32 word"
    using sint_greater_eq [of v] sint_lt [of v] by (intro length_show_int_32) auto
  from this [of m] this [of y] show
    "write_outcome 56 e w (hl\<lparr>hl_month := sint m, hl_year := sint y\<rparr>) \<noteq> Inl (Undefined Buffer_Overflow)"
    by (simp add: write_outcome_def)
qed

end
