(* ===== verification/Debounce.thy ===== *)
theory Debounce
  imports Agent_Effects
begin

section \<open>Handlers that skip every third event\<close>

text \<open>
  The interface both inotify handlers implement: \<open>iterations_++ > 1\<close> lets two events of the
  watched file through and swallows the third.  \<open>handle\<close> handles one event, \<open>count\<close> is
  \<open>iterations_\<close>, \<open>concerned\<close> says that an event is one of the watched file, \<open>acted\<close> counts the
  events acted on, and \<open>ready\<close> is what acting needs.
\<close>

locale debounced =
  fixes handle :: "'e \<Rightarrow> ('s, int) act"
    and count :: "'s \<Rightarrow> int"
    and concerned :: "'s \<Rightarrow> 'e \<Rightarrow> bool"
    and acted :: "'s \<Rightarrow> nat"
    and ready :: "'s \<Rightarrow> bool"
  assumes other_event: "\<not> concerned s ev \<Longrightarrow> handle ev s = (Inr 0, s)"
    and swallowed: "concerned s ev \<Longrightarrow> 1 < count s \<Longrightarrow> ready s \<Longrightarrow>
      \<exists>s'. handle ev s = (Inr 0, s') \<and> count s' = 0 \<and> acted s' = acted s \<and> ready s' \<and>
        concerned s' = concerned s"
    and let_through: "concerned s ev \<Longrightarrow> count s \<le> 1 \<Longrightarrow> ready s \<Longrightarrow>
      \<exists>s'. handle ev s = (Inr 0, s') \<and> count s' = count s + 1 \<and> acted s' = Suc (acted s) \<and>
        ready s' \<and> concerned s' = concerned s"
begin

fun handle_all :: "'e list \<Rightarrow> ('s, unit) act" where
  "handle_all [] = retA ()"
| "handle_all (ev # evs) = thenA (handle ev) (handle_all evs)"

text \<open>
  A handler never fails on a sequence of events, and of \<open>n\<close> events of its file it acts on all
  but every third, counted from where it stands.
\<close>

lemma handle_all_acts:
  assumes "ready s" "0 \<le> count s" "count s \<le> 2"
  shows "\<exists>s'. handle_all evs s = (Inr (), s') \<and> ready s' \<and> concerned s' = concerned s \<and>
    (let n = length (filter (concerned s) evs) in
       count s' = (count s + int n) mod 3 \<and>
       int (acted s') = int (acted s) + int n - (count s + int n) div 3)"
  using assms
proof (induction evs arbitrary: s)
  case Nil
  then show ?case by (simp add: retA_def)
next
  case (Cons ev evs)
  show ?case
  proof (cases "concerned s ev")
    case False
    then show ?thesis
      using Cons.IH [OF Cons.prems] other_event [OF False] by (simp add: thenA_run)
  next
    case True
    show ?thesis
    proof (cases "1 < count s")
      case swallow: True
      obtain s1 where s1: "handle ev s = (Inr 0, s1)" "count s1 = 0" "acted s1 = acted s"
        "ready s1" "concerned s1 = concerned s"
        using swallowed [OF True swallow Cons.prems(1)] by blast
      have "count s = 2" using swallow Cons.prems by simp
      with s1 True Cons.IH [of s1] show ?thesis
        by (auto simp: thenA_run [where m = "handle ev", OF s1(1)] Let_def)
    next
      case False
      then obtain s1 where s1: "handle ev s = (Inr 0, s1)" "count s1 = count s + 1"
        "acted s1 = Suc (acted s)" "ready s1" "concerned s1 = concerned s"
        using let_through [OF True _ Cons.prems(1)] by auto
      with False True Cons.prems Cons.IH [of s1] show ?thesis
        by (auto simp: thenA_run [where m = "handle ev", OF s1(1)] Let_def algebra_simps)
    qed
  qed
qed

text \<open>From a fresh handler: two of three.\<close>

lemma fresh_handler_acts:
  assumes "ready s" "count s = 0"
  shows "\<exists>s'. handle_all evs s = (Inr (), s') \<and>
    (let n = length (filter (concerned s) evs) in acted s' = acted s + (n - n div 3))"
proof -
  obtain s' where run: "handle_all evs s = (Inr (), s')"
    and n: "int (acted s') = int (acted s) + int (length (filter (concerned s) evs)) -
      int (length (filter (concerned s) evs)) div 3"
    using handle_all_acts [of s evs] assms by (auto simp: Let_def)
  have "acted s' = acted s + (length (filter (concerned s) evs) - length (filter (concerned s) evs) div 3)"
    using n by linarith
  with run show ?thesis by (auto simp: Let_def)
qed

end

end
