(* ===== verification/Nx_Service.thy ===== *)
theory Nx_Service
  imports License_Task Killer_Task Sink_Task Debounce
begin

section \<open>The Linux service and its file watches\<close>

text \<open>
  \<open>nx_service/nxsvc.cpp\<close>, \<open>nx_service/config_change.cpp\<close> and
  \<open>nx_service/itvpn_exec_handler.cpp\<close>: the start of the service, the rescheduling of the two
  tasks when the configuration changes, and the two handlers of inotify events.
\<close>

subsection \<open>reshedule_tasks\<close>

definition reshedule_tasks :: "'j env \<Rightarrow> (world, int) act" where
  "reshedule_tasks e =
     bindA (readA config) (\<lambda>options.
     thenA (update_license_task (\<lambda>t. t\<lparr>glt_day_waiting_hours := opt_next_day_waiting_hours options\<rparr>)) (
     thenA (update_license_task (\<lambda>t.
       t\<lparr>glt_try_get_license_mins := opt_next_try_get_license_mins options\<rparr>)) (
     thenA (glt_schedule_handle_timeout e 5) (
     thenA (update_killer_task (\<lambda>t. t\<lparr>pkt_process_stopping_name := opt_kill_file_name options\<rparr>)) (
     thenA (update_killer_task (\<lambda>t. t\<lparr>pkt_day_waiting_hours := opt_next_day_waiting_hours options\<rparr>)) (
     thenA (pkt_schedule_handle_timeout e 5)
       (retA 0)))))))"

text \<open>What the tasks run with are the options in force.\<close>

definition tasks_follow :: "options \<Rightarrow> world \<Rightarrow> bool" where
  "tasks_follow opts w \<longleftrightarrow>
     glt_day_waiting_hours (license_task w) = opt_next_day_waiting_hours opts \<and>
     glt_try_get_license_mins (license_task w) = opt_next_try_get_license_mins opts \<and>
     pkt_process_stopping_name (killer_task w) = opt_kill_file_name opts \<and>
     pkt_day_waiting_hours (killer_task w) = opt_next_day_waiting_hours opts"

lemma glt_schedule_run:
  "glt_schedule_handle_timeout e s w =
     (Inr 0, w\<lparr>calls := calls w @ [Cancel_Timer License_Task, Schedule_Timer License_Task s],
       license_task := (license_task w)\<lparr>glt_timer_id :=
         timer_id_of e (calls w @ [Cancel_Timer License_Task, Schedule_Timer License_Task s])\<rparr>\<rparr>)"
  by (simp add: glt_schedule_handle_timeout_def glt_schedule_timer_def update_license_task_def
      call_def thenA_def bindA_def modifyA_def readA_def retA_def)

lemma pkt_schedule_run:
  "pkt_schedule_handle_timeout e s w =
     (Inr 0, w\<lparr>calls := calls w @ [Cancel_Timer Killer_Task, Schedule_Timer Killer_Task s],
       killer_task := (killer_task w)\<lparr>pkt_timer_id :=
         timer_id_of e (calls w @ [Cancel_Timer Killer_Task, Schedule_Timer Killer_Task s])\<rparr>\<rparr>)"
  by (simp add: pkt_schedule_handle_timeout_def pkt_schedule_timer_def update_killer_task_def
      call_def thenA_def bindA_def modifyA_def readA_def retA_def)

lemma pending_append_four:
  "pending_timer t (cs @ [a, b, c, d]) =
     after_call t (after_call t (after_call t (after_call t (pending_timer t cs) a) b) c) d"
  by (simp add: pending_timer_def)

lemma reshedule_tasks_run:
  "\<exists>w'. reshedule_tasks e w = (Inr 0, w') \<and> tasks_follow (config w) w' \<and>
     calls w' = calls w @ [Cancel_Timer License_Task, Schedule_Timer License_Task 5,
       Cancel_Timer Killer_Task, Schedule_Timer Killer_Task 5] \<and>
     log w' = log w \<and> files w' = files w \<and> parser_obj w' = parser_obj w \<and>
     glt_day_counter (license_task w') = glt_day_counter (license_task w)"
  by (simp add: reshedule_tasks_def bindA_readA thenA_modifyA update_license_task_def
      update_killer_task_def retA_def thenA_run [OF glt_schedule_run]
      thenA_run [OF pkt_schedule_run] tasks_follow_def config_def)

text \<open>
  \<open>reshedule_tasks\<close> gives both tasks the options in force and leaves each with exactly one
  pending timer, of 5 seconds, whatever was pending before; it touches no file.
\<close>

lemma reshedule_tasks_correct:
  "case reshedule_tasks e w of
     (Inl _, _) \<Rightarrow> False
   | (Inr n, w') \<Rightarrow> n = 0 \<and> tasks_follow (config w) w' \<and>
       (\<forall>t. pending_timer t (calls w') = Some 5) \<and> files w' = files w \<and> config w' = config w"
proof -
  obtain w' where run: "reshedule_tasks e w = (Inr 0, w')" and "tasks_follow (config w) w'"
    and "calls w' = calls w @ [Cancel_Timer License_Task, Schedule_Timer License_Task 5,
       Cancel_Timer Killer_Task, Schedule_Timer Killer_Task 5]"
    and "files w' = files w" "parser_obj w' = parser_obj w"
    using reshedule_tasks_run [of e w] by blast
  moreover have "pending_timer t (calls w') = Some 5" for t
    using calculation(3) by (cases t) (simp_all add: pending_append_four)
  ultimately show ?thesis by (simp add: config_def)
qed

subsection \<open>Starting the service\<close>

text \<open>
  What \<open>ACE_Get_Opt\<close> reports for the arguments with the options \<open>":f:"\<close>: an option with its
  argument, a missing argument, or something it does not know.
\<close>

datatype arg_event = Opt_F cstring | Missing_Argument | Unknown_Option

definition MAXPATHLEN :: nat where "MAXPATHLEN = 4096"

text \<open>
  \<open>strncpy\<close> fills the static \<open>config_file\<close>; a path of \<open>MAXPATHLEN\<close> or more has no final zero.
\<close>

fun svc_parse_args :: "arg_event list \<Rightarrow> cstring \<Rightarrow> int \<times> cstring" where
  "svc_parse_args [] config_file = (0, config_file)"
| "svc_parse_args (Opt_F arg # es) config_file = svc_parse_args es (take MAXPATHLEN (c_str arg))"
| "svc_parse_args (Missing_Argument # es) config_file = (-1, config_file)"
| "svc_parse_args (Unknown_Option # es) config_file = (-1, config_file)"

text \<open>
  \<open>raise(SIGINT)\<close>: with the reactor's handler registered it returns; before that the default
  action ends the process, and the call does not return.
\<close>

definition raise_SIGINT :: "(world, unit) act" where
  "raise_SIGINT =
     bindA (readA (\<lambda>w. Register_SIGINT \<in> set (calls w))) (\<lambda>registered.
       thenA (call Raise_SIGINT) (if registered then retA () else failA No_Return))"

definition IN_MODIFY :: "32 word" where "IN_MODIFY = 0x00000002"
definition IN_OPEN :: "32 word" where "IN_OPEN = 0x00000020"
definition IN_ISDIR :: "32 word" where "IN_ISDIR = 0x40000000"

text \<open>The members \<open>iterations_\<close>, \<open>file_name_\<close> and \<open>directory_\<close> of the two handlers.\<close>

record watcher =
  iterations :: int
  watch_file :: cstring
  watch_dir :: cstring

record service_world = world +
  config_watch :: watcher
  exec_watch :: watcher

definition in_world :: "(world, 'a) act \<Rightarrow> (service_world, 'a) act" where
  "in_world m s =
     (let rw = m (world.truncate s)
      in (fst rw, world.extend (snd rw) (service_world.fields (config_watch s) (exec_watch s))))"

definition started_text :: "cstring \<Rightarrow> cstring" where
  "started_text path = ''Started monitoring file '' @ [CHR 0x27] @ c_str path @ [CHR 0x27]"

definition set_config_watch :: "watcher \<Rightarrow> (service_world, unit) act" where
  "set_config_watch v = modifyA (\<lambda>s. s\<lparr>config_watch := v\<rparr>)"

definition set_exec_watch :: "watcher \<Rightarrow> (service_world, unit) act" where
  "set_exec_watch v = modifyA (\<lambda>s. s\<lparr>exec_watch := v\<rparr>)"

text \<open>The constructors \<open>Config_Handler\<close> and \<open>Itvpn_Exec_Handler\<close>, and their destructors.\<close>

definition new_config_handler :: "(service_world, unit) act" where
  "new_config_handler =
     bindA (readA parser_obj) (\<lambda>p.
     let v = \<lparr>iterations = 0, watch_file = parser_file_name p, watch_dir = parser_service_path p\<rparr>
     in thenA (set_config_watch v) (
        thenA (in_world (sprintf_info BUFSIZ (started_text (watch_dir v)))) (
          in_world (call (Watch (watch_dir v) IN_MODIFY)))))"

definition new_exec_handler :: "(service_world, unit) act" where
  "new_exec_handler =
     bindA (readA (\<lambda>s. config (world.truncate s))) (\<lambda>opts.
     let path = opt_openvpn_file_path opts;
         v = \<lparr>iterations = 0, watch_file = split_file_name path, watch_dir = split_file_path path\<rparr>
     in thenA (set_exec_watch v) (
        thenA (in_world (sprintf_info BUFSIZ (started_text path))) (
          in_world (call (Watch (watch_dir v) IN_OPEN)))))"

definition destroy_handlers :: "(service_world, unit) act" where
  "destroy_handlers =
     bindA (readA (\<lambda>s. (watch_dir (exec_watch s), watch_dir (config_watch s)))) (\<lambda>(exec, conf).
       seqA [in_world (call (Unwatch exec)), in_world (call (Unwatch conf))])"

definition new_process_killer_task :: process_killer_task where
  "new_process_killer_task =
     \<lparr>pkt_timer_id = 0, pkt_process_stopping_name = [], pkt_day_waiting_hours = 0\<rparr>"

text \<open>\<open>parse_args(argc, argv) == -1 || PARSER::instance2nd(config_file)->make_paths() == -1\<close>\<close>

definition configure :: "'j env \<Rightarrow> arg_event list \<Rightarrow> (world, bool) act" where
  "configure e args =
     (let r = svc_parse_args args [] in
      if fst r = -1 then retA False
      else if length (snd r) = MAXPATHLEN then failA (Undefined Out_Of_Range)
      else thenA (update_parser (\<lambda>_. new_parser_at (snd r)))
             (bindA (make_paths e) (\<lambda>n. retA (n \<noteq> -1))))"

definition notify_if :: "bool \<Rightarrow> (world, unit) act" where
  "notify_if b = (if b then call Notify_Exception else retA ())"

text \<open>\<open>Service::run\<close> up to the event loop; \<open>register_ok\<close>: the reactor takes the signal handler.\<close>

definition open_tasks :: "'j env \<Rightarrow> bool \<Rightarrow> (world, unit) act" where
  "open_tasks e register_ok =
     bindA (readA config) (\<lambda>options.
     thenA (write_log Debug ''Start Service::svc'') (
     thenA (if register_ok then call Register_SIGINT else notify_if True) (
     thenA (update_license_task (\<lambda>_. new_get_license_task
       (opt_next_try_get_license_mins options) (opt_next_day_waiting_hours options))) (
     thenA (bindA (glt_open e 5) (\<lambda>n. notify_if (n = -1))) (
     thenA (update_killer_task (\<lambda>_. new_process_killer_task)) (
     thenA (update_killer_task (\<lambda>t. t\<lparr>pkt_process_stopping_name := opt_kill_file_name options\<rparr>)) (
     thenA (update_killer_task (\<lambda>t. t\<lparr>pkt_day_waiting_hours := opt_next_day_waiting_hours options\<rparr>)) (
     thenA (bindA (pkt_open e 5) (\<lambda>n. notify_if (n = -1)))
       (call Spawn_Event_Loop)))))))))"

definition svc_start :: "'j env \<Rightarrow> arg_event list \<Rightarrow> bool \<Rightarrow> (service_world, unit) act" where
  "svc_start e args register_ok =
     thenA (in_world (bindA (configure e args) (\<lambda>ok. if ok then retA () else raise_SIGINT))) (
     thenA (in_world (open_tasks e register_ok)) (
     thenA new_config_handler new_exec_handler))"

text \<open>\<open>Service::run\<close>: the handlers run inside the event loop, between the two halves.\<close>

definition svc_run :: "'j env \<Rightarrow> arg_event list \<Rightarrow> bool \<Rightarrow> (service_world, int) act" where
  "svc_run e args register_ok =
     thenA (svc_start e args register_ok) (
     thenA (in_world (seqA [call Run_Event_Loop, call End_Notify_Loop, call (Wait_Threads 3),
       write_log Info ''Shutting down service''])) (
     thenA destroy_handlers (retA 0)))"

definition svc_handle_close :: "(world, int) act" where
  "svc_handle_close = thenA (call End_Event_Loop) (retA 0)"

subsection \<open>The event handlers\<close>

text \<open>
  What \<open>read\<close> puts at the start of the buffer: nothing (it failed), or the first event with
  its length, mask and name; the events after the first are not looked at.
\<close>

record inotify_event =
  ev_len :: nat
  ev_mask :: "32 word"
  ev_name :: cstring

unbundle bit_operations_syntax

definition has_bits :: "32 word \<Rightarrow> 32 word \<Rightarrow> bool" where
  "has_bits m bits \<longleftrightarrow> m AND bits \<noteq> 0"

text \<open>The tests of \<open>handle_input\<close> up to the name, for the event bits \<open>bits\<close>.\<close>

definition concerns :: "32 word \<Rightarrow> watcher \<Rightarrow> inotify_event \<Rightarrow> bool" where
  "concerns bits v ev \<longleftrightarrow> ev_len ev \<noteq> 0 \<and> \<not> has_bits (ev_mask ev) IN_ISDIR \<and>
     has_bits (ev_mask ev) bits \<and> c_str (watch_file v) = c_str (ev_name ev)"

definition config_update :: "'j env \<Rightarrow> cstring \<Rightarrow> (world, unit) act" where
  "config_update e name =
     thenA (sprintf_info BUFSIZ (''The '' @ c_str name @ '' was update'' @ [LF])) (
     thenA (call (Sleep_Seconds 1)) (
     bindA (parser_init e) (\<lambda>n.
       if n = -1 then raise_SIGINT else bindA (reshedule_tasks e) (\<lambda>_. retA ()))))"

definition config_handle_input ::
    "'j env \<Rightarrow> inotify_event option \<Rightarrow> (service_world, int) act" where
  "config_handle_input e event =
     (case event of
        None \<Rightarrow> retA (-1)
      | Some ev \<Rightarrow>
          bindA (readA config_watch) (\<lambda>v.
            if \<not> concerns IN_MODIFY v ev then retA 0
            else thenA (set_config_watch (v\<lparr>iterations := iterations v + 1\<rparr>))
              (if iterations v > 1
               then thenA (set_config_watch (v\<lparr>iterations := 0\<rparr>)) (retA 0)
               else thenA (in_world (config_update e (ev_name ev))) (retA 0))))"

definition exec_open :: "'j env \<Rightarrow> cstring \<Rightarrow> bool \<Rightarrow> (world, unit) act" where
  "exec_open e name activated =
     thenA (sprintf_info BUFSIZ (''The '' @ c_str name @ '' is opening...'' @ [LF]))
       (bindA (est_open activated) (\<lambda>_. retA ()))"

definition exec_handle_input ::
    "'j env \<Rightarrow> bool \<Rightarrow> inotify_event option \<Rightarrow> (service_world, int) act" where
  "exec_handle_input e activated event =
     (case event of
        None \<Rightarrow> retA (-1)
      | Some ev \<Rightarrow>
          bindA (readA exec_watch) (\<lambda>v.
            if \<not> concerns IN_OPEN v ev then retA 0
            else thenA (set_exec_watch (v\<lparr>iterations := iterations v + 1\<rparr>))
              (if iterations v > 1
               then thenA (set_exec_watch (v\<lparr>iterations := 0\<rparr>)) (retA 0)
               else thenA (in_world (exec_open e (ev_name ev) activated)) (retA 0))))"

subsection \<open>Both handlers skip every third event\<close>

text \<open>The INFO lines of the log, and a watched name short enough for the message buffer.\<close>

definition infos :: "'z logged_scheme \<Rightarrow> nat" where
  "infos w = length (filter (\<lambda>x. fst x = Info) (log w))"

lemma keeps_infos_write_log [frame_intros]:
  "l \<noteq> Info \<Longrightarrow> keeps infos (write_log l s :: ('z logged_scheme, unit) act)"
  by (simp add: write_log_def keeps_modifyA infos_def)

lemma keeps_infos_update_parser [frame_intros]: "keeps infos (update_parser f)"
  by (simp add: update_parser_def keeps_modifyA infos_def)

lemma keeps_infos_create_root [frame_intros]: "keeps infos (create_root e path)"
  unfolding create_root_def
  by (intro frame_intros) (auto intro!: frame_intros split: sum.split)

lemma keeps_infos_reads [frame_intros]:
  "keeps infos (get_value e k)" "keeps infos (get_number e c k hi r)"
  unfolding get_number_def get_value_def Let_def by (intro frame_intros; simp)+

lemma keeps_infos_parser_init [frame_intros]: "keeps infos (parser_init e)"
  unfolding parser_init_def read_options_def read_tree_def read_texts_def read_numbers_def
    make_config_file_path_def set_options_def
  by (intro frame_intros; simp)

definition fits_buffer :: "watcher \<Rightarrow> bool" where
  "fits_buffer v \<longleftrightarrow> length (c_str (watch_file v)) < 8000"

lemma in_world_run:
  "m (world.truncate s) = (r, w') \<Longrightarrow>
     in_world m s = (r, world.extend w' (service_world.fields (config_watch s) (exec_watch s)))"
  by (simp add: in_world_def)

lemma then_in_world:
  "m (world.truncate s) = (Inr a, w') \<Longrightarrow>
     thenA (in_world m) (retA b) s =
       (Inr b, world.extend w' (service_world.fields (config_watch s) (exec_watch s)))"
  by (simp add: in_world_def thenA_def bindA_def retA_def)

lemma extend_fields [simp]:
  "config_watch (world.extend w (service_world.fields c x)) = c"
  "exec_watch (world.extend w (service_world.fields c x)) = x"
  "infos (world.extend w (service_world.fields c x)) = infos w"
  "calls (world.extend w (service_world.fields c x)) = calls w"
  by (simp_all add: world.defs service_world.defs infos_def)

lemma truncate_fields [simp]:
  "infos (world.truncate s) = infos s" "calls (world.truncate s) = calls s"
  "world.truncate (u\<lparr>exec_watch := v\<rparr>) = world.truncate u"
  "world.truncate (u\<lparr>config_watch := v\<rparr>) = world.truncate u"
  "infos (u\<lparr>exec_watch := v\<rparr>) = infos u" "infos (u\<lparr>config_watch := v\<rparr>) = infos u"
  by (simp_all add: world.defs infos_def)

lemma set_watch_run:
  "thenA (set_config_watch v) k s = k (s\<lparr>config_watch := v\<rparr>)"
  "thenA (set_exec_watch v) k s = k (s\<lparr>exec_watch := v\<rparr>)"
  by (simp_all add: set_config_watch_def set_exec_watch_def thenA_modifyA)

lemma exec_open_run:
  assumes "length (c_str name) < 8000"
  shows "\<exists>w'. exec_open e name activated w = (Inr (), w') \<and> infos w' = Suc (infos w) \<and>
    calls w' = calls w @ (if activated then [Activate_Worker] else [])"
  using assms
  by (simp add: exec_open_def sprintf_info_def BUFSIZ_def thenA_write_log est_open_def
      thenA_def bindA_def write_log_run call_def modifyA_def retA_def infos_def)

interpretation exec: debounced "\<lambda>ev. exec_handle_input e activated (Some ev)"
  "\<lambda>s. iterations (exec_watch s)" "\<lambda>s. concerns IN_OPEN (exec_watch s)" infos
  "\<lambda>s. fits_buffer (exec_watch s)" for e :: "'j env" and activated
proof
  fix s :: service_world and ev assume "\<not> concerns IN_OPEN (exec_watch s) ev"
  then show "exec_handle_input e activated (Some ev) s = (Inr 0, s)"
    by (simp add: exec_handle_input_def bindA_readA retA_def)
next
  fix s :: service_world and ev
  assume ev: "concerns IN_OPEN (exec_watch s) ev" and n: "1 < iterations (exec_watch s)"
    and fits: "fits_buffer (exec_watch s)"
  then show "\<exists>s'. exec_handle_input e activated (Some ev) s = (Inr 0, s') \<and>
      iterations (exec_watch s') = 0 \<and> infos s' = infos s \<and> fits_buffer (exec_watch s') \<and>
      concerns IN_OPEN (exec_watch s') = concerns IN_OPEN (exec_watch s)"
    by (auto simp: exec_handle_input_def bindA_readA set_watch_run retA_def
        fits_buffer_def concerns_def fun_eq_iff)
next
  fix s :: service_world and ev
  assume ev: "concerns IN_OPEN (exec_watch s) ev" and n: "iterations (exec_watch s) \<le> 1"
    and fits: "fits_buffer (exec_watch s)"
  let ?s1 = "s\<lparr>exec_watch := (exec_watch s)\<lparr>iterations := iterations (exec_watch s) + 1\<rparr>\<rparr>"
  obtain w' where run: "exec_open e (ev_name ev) activated (world.truncate ?s1) = (Inr (), w')"
    and w': "infos w' = Suc (infos s)"
    using exec_open_run [of "ev_name ev" e activated "world.truncate ?s1"] ev fits
    by (auto simp: concerns_def fits_buffer_def)
  have "exec_handle_input e activated (Some ev) s = thenA (in_world (exec_open e (ev_name ev) activated)) (retA 0) ?s1"
    using ev n by (simp add: exec_handle_input_def bindA_readA set_watch_run)
  also have "\<dots> = (Inr 0, world.extend w' (service_world.fields (config_watch ?s1) (exec_watch ?s1)))"
    by (rule then_in_world) (rule run)
  finally show "\<exists>s'. exec_handle_input e activated (Some ev) s = (Inr 0, s') \<and>
      iterations (exec_watch s') = iterations (exec_watch s) + 1 \<and> infos s' = Suc (infos s) \<and>
      fits_buffer (exec_watch s') \<and> concerns IN_OPEN (exec_watch s') = concerns IN_OPEN (exec_watch s)"
    using fits w' by (auto simp: fits_buffer_def concerns_def fun_eq_iff)
qed

lemma config_update_run:
  assumes "length (c_str name) < 8000" and "Register_SIGINT \<in> set (calls w)"
  shows "\<exists>w'. config_update e name w = (Inr (), w') \<and> infos w' = Suc (infos w) \<and>
    Register_SIGINT \<in> set (calls w')"
proof -
  define w1 where "w1 = w\<lparr>log := log w @ [(Info, ''The '' @ c_str name @ '' was update'' @ [LF])],
    calls := calls w @ [Sleep_Seconds 1]\<rparr>"
  obtain n w2 where init: "parser_init e w1 = (Inr n, w2)" and n: "n = 0 \<or> n = -1"
    and w2: "calls w2 = calls w1"
    using parser_init_run [of e w1] by (auto split: option.splits if_splits)
  have infos2: "infos w2 = infos w1" by (rule keepsD [OF keeps_infos_parser_init init])
  have w1: "infos w1 = Suc (infos w)" "Register_SIGINT \<in> set (calls w1)"
    using assms(2) by (simp_all add: w1_def infos_def)
  have step: "config_update e name w =
      (if n = -1 then raise_SIGINT else bindA (reshedule_tasks e) (\<lambda>_. retA ())) w2"
    using assms(1) init
    by (simp add: config_update_def sprintf_info_def BUFSIZ_def thenA_write_log call_def
        thenA_modifyA bindA_def [of "parser_init e"] w1_def)
  show ?thesis
  proof (cases "n = -1")
    case True
    then show ?thesis
      using step w1 w2 infos2
      by (simp add: raise_SIGINT_def bindA_readA call_def thenA_modifyA retA_def infos_def)
  next
    case False
    then show ?thesis
      using step w1 w2 infos2 reshedule_tasks_run [of e w2]
      by (auto simp: bindA_def [of "reshedule_tasks e"] retA_def infos_def)
  qed
qed

definition config_ready :: "service_world \<Rightarrow> bool" where
  "config_ready s \<longleftrightarrow> fits_buffer (config_watch s) \<and> Register_SIGINT \<in> set (calls s)"

interpretation conf: debounced "\<lambda>ev. config_handle_input e (Some ev)"
  "\<lambda>s. iterations (config_watch s)" "\<lambda>s. concerns IN_MODIFY (config_watch s)" infos
  config_ready for e :: "'j env"
proof
  fix s :: service_world and ev assume "\<not> concerns IN_MODIFY (config_watch s) ev"
  then show "config_handle_input e (Some ev) s = (Inr 0, s)"
    by (simp add: config_handle_input_def bindA_readA retA_def)
next
  fix s :: service_world and ev
  assume "concerns IN_MODIFY (config_watch s) ev" "1 < iterations (config_watch s)" "config_ready s"
  then show "\<exists>s'. config_handle_input e (Some ev) s = (Inr 0, s') \<and>
      iterations (config_watch s') = 0 \<and> infos s' = infos s \<and> config_ready s' \<and>
      concerns IN_MODIFY (config_watch s') = concerns IN_MODIFY (config_watch s)"
    by (auto simp: config_handle_input_def bindA_readA set_watch_run retA_def
        fits_buffer_def config_ready_def concerns_def fun_eq_iff)
next
  fix s :: service_world and ev
  assume ev: "concerns IN_MODIFY (config_watch s) ev" and n: "iterations (config_watch s) \<le> 1"
    and ready: "config_ready s"
  let ?s1 = "s\<lparr>config_watch := (config_watch s)\<lparr>iterations := iterations (config_watch s) + 1\<rparr>\<rparr>"
  obtain w' where run: "config_update e (ev_name ev) (world.truncate ?s1) = (Inr (), w')"
    and w': "infos w' = Suc (infos s)" "Register_SIGINT \<in> set (calls w')"
    using config_update_run [of "ev_name ev" "world.truncate ?s1" e] ev ready
    by (auto simp: concerns_def fits_buffer_def config_ready_def)
  have "config_handle_input e (Some ev) s = thenA (in_world (config_update e (ev_name ev))) (retA 0) ?s1"
    using ev n by (simp add: config_handle_input_def bindA_readA set_watch_run)
  also have "\<dots> = (Inr 0, world.extend w' (service_world.fields (config_watch ?s1) (exec_watch ?s1)))"
    by (rule then_in_world) (rule run)
  finally show "\<exists>s'. config_handle_input e (Some ev) s = (Inr 0, s') \<and>
      iterations (config_watch s') = iterations (config_watch s) + 1 \<and> infos s' = Suc (infos s) \<and>
      config_ready s' \<and> concerns IN_MODIFY (config_watch s') = concerns IN_MODIFY (config_watch s)"
    using ready w' by (auto simp: fits_buffer_def config_ready_def concerns_def fun_eq_iff)
qed

text \<open>The events one after the other, as the reactor dispatches them.\<close>

fun config_events :: "'j env \<Rightarrow> inotify_event list \<Rightarrow> (service_world, unit) act" where
  "config_events e [] = retA ()"
| "config_events e (ev # evs) = thenA (config_handle_input e (Some ev)) (config_events e evs)"

lemma config_events_all:
  "config_events e evs = debounced.handle_all (\<lambda>ev. config_handle_input e (Some ev)) evs"
  by (induction evs) (simp_all add: conf.handle_all.simps)


definition sample_watch :: watcher where
  "sample_watch = \<lparr>iterations = 0, watch_file = ''lic_check_l.ini'', watch_dir = ''/etc/''\<rparr>"

definition sample_event :: inotify_event where
  "sample_event = \<lparr>ev_len = 16, ev_mask = IN_MODIFY, ev_name = ''lic_check_l.ini''\<rparr>"

lemma sample_concerns: "concerns IN_MODIFY sample_watch sample_event"
  by (simp add: concerns_def sample_watch_def sample_event_def has_bits_def IN_MODIFY_def
      IN_ISDIR_def)


subsection \<open>What the service starts with\<close>

lemma wp_in_world [effect_simps]:
  "wp (in_world m) Q E s =
     wp m (\<lambda>a w'. Q a (world.extend w' (service_world.fields (config_watch s) (exec_watch s))))
       (\<lambda>f w'. E f (world.extend w' (service_world.fields (config_watch s) (exec_watch s))))
       (world.truncate s)"
  by (simp add: wp_def in_world_def Let_def split_beta)

lemma wp_make_paths:
  assumes "\<And>w'. options_in_range (config w') \<Longrightarrow> calls w' = calls w \<Longrightarrow> Q 0 w'"
    and "\<And>w'. calls w' = calls w \<Longrightarrow> Q (-1) w'"
  shows "wp (make_paths e) Q E w"
proof -
  have init: "wp (parser_init e) Q E w1" if "calls w1 = calls w" for w1
  proof -
    obtain n w2 where run: "parser_init e w1 = (Inr n, w2)" by (metis parser_init_run)
    with parser_init_run [of e w1] have "n = 0 \<and> options_in_range (config w2) \<or> n = -1"
      "calls w2 = calls w1"
      by (auto simp: acceptable_def split: option.splits if_splits)
    with run that show ?thesis
      using assms by (auto simp: wp_def)
  qed
  show ?thesis
    by (simp add: make_paths_def effect_simps update_parser_def Let_def) (rule init, simp)
qed

lemma pending_snoc2:
  "pending_timer t (cs @ [Schedule_Timer License_Task 5, Schedule_Timer Killer_Task 5, c]) =
     after_call t (Some 5) c"
  "pending_timer t (cs @ [a, Schedule_Timer License_Task 5, Schedule_Timer Killer_Task 5, c]) =
     after_call t (Some 5) c"
  by (cases t; simp add: pending_timer_def)+

lemma all_tasks: "(\<forall>t. P t) \<longleftrightarrow> P License_Task \<and> P Killer_Task"
  by (metis task.exhaust)

definition started :: "bool \<Rightarrow> world \<Rightarrow> bool" where
  "started register_ok w \<longleftrightarrow> options_in_range (config w) \<and> tasks_follow (config w) w \<and>
     (\<forall>t. pending_timer t (calls w) = Some 5) \<and>
     (Register_SIGINT \<in> set (calls w) \<or> \<not> register_ok)"

lemma wp_open_tasks:
  assumes "options_in_range (config w)" and "\<And>w'. started register_ok w' \<Longrightarrow> Q () w'"
  shows "wp (open_tasks e register_ok) Q E w"
proof -
  have "wp (open_tasks e register_ok) (\<lambda>_ w'. started register_ok w') (\<lambda>_ _. False) w"
    using assms(1)
    by (cases register_ok)
      (auto simp: open_tasks_def effect_simps notify_if_def glt_open_def glt_schedule_timer_def
        pkt_open_def pkt_schedule_timer_def update_license_task_def update_killer_task_def
        started_def config_def tasks_follow_def new_get_license_task_def
        pending_snoc2 all_tasks)
  then show ?thesis
    by (rule wp_mono) (use assms(2) in auto)
qed

lemma truncate_extend [simp]:
  "world.truncate (world.extend w x) = w" "parser_obj (world.truncate s) = parser_obj s"
  "parser_obj (world.extend w x) = parser_obj w"
  by (simp_all add: world.defs)

text \<open>The files the two handlers of a started service watch.\<close>

definition watches :: "service_world \<Rightarrow> bool" where
  "watches s \<longleftrightarrow>
     (let w = world.truncate s; p = parser_obj w; path = opt_openvpn_file_path (config w) in
      config_watch s = \<lparr>iterations = 0, watch_file = parser_file_name p,
        watch_dir = parser_service_path p\<rparr> \<and>
      exec_watch s = \<lparr>iterations = 0, watch_file = split_file_name path,
        watch_dir = split_file_path path\<rparr>)"

lemma wp_new_handlers:
  assumes "started r (world.truncate s)"
  shows "wp (thenA new_config_handler new_exec_handler)
    (\<lambda>_ s'. started r (world.truncate s') \<and> watches s')
    (\<lambda>f _. f = Undefined Buffer_Overflow) s"
  using assms
  by (auto simp: new_config_handler_def new_exec_handler_def effect_simps Let_def set_config_watch_def
      set_exec_watch_def watches_def started_def tasks_follow_def config_def)

definition start_failure :: "arg_event list \<Rightarrow> failure \<Rightarrow> bool" where
  "start_failure args f \<longleftrightarrow>
     (case f of
        Undefined u \<Rightarrow> u = Buffer_Overflow \<or>
          u = Out_Of_Range \<and> length (snd (svc_parse_args args [])) = MAXPATHLEN
      | No_Return \<Rightarrow> True
      | Thrown _ \<Rightarrow> False)"

lemma wp_svc_start:
  "wp (svc_start e args register_ok) (\<lambda>_ s'. started register_ok (world.truncate s') \<and> watches s')
     (\<lambda>f _. start_failure args f) (s\<lparr>calls := []\<rparr>)"
proof -
  let ?Q = "\<lambda>_ s'. started register_ok (world.truncate s') \<and> watches s'"
  let ?E = "\<lambda>f _. start_failure args f"
  define rest where "rest = thenA (in_world (open_tasks e register_ok)) (thenA new_config_handler new_exec_handler)"
  have rest: "wp rest ?Q ?E s1" if "options_in_range (config (world.truncate s1))" for s1
    unfolding rest_def wp_thenA [of "in_world m" for m] wp_in_world
  proof (rule wp_open_tasks [OF that])
    fix w' assume "started register_ok w'"
    then show "wp (thenA new_config_handler new_exec_handler) ?Q ?E
        (world.extend w' (service_world.fields (config_watch s1) (exec_watch s1)))"
      by (intro wp_mono [OF wp_new_handlers [of register_ok]]) (simp_all add: start_failure_def)
  qed
  have stop: "wp raise_SIGINT Q (\<lambda>f _. start_failure args f) w" if "calls w = []" for Q w
    using that by (simp add: raise_SIGINT_def effect_simps start_failure_def)
  have conf: "wp (bindA (configure e args) (\<lambda>ok. if ok then retA () else raise_SIGINT))
      (\<lambda>_ w'. wp rest ?Q ?E (world.extend w' x)) (\<lambda>f _. start_failure args f) w"
    if "calls w = []" for x w
    using that rest stop
    by (auto simp: configure_def Let_def effect_simps start_failure_def update_parser_def
        intro!: wp_make_paths)
  show ?thesis
    unfolding svc_start_def rest_def [symmetric] wp_thenA [of "in_world m" for m] wp_in_world
    by (rule conf) simp
qed


end
