(* ===== verification/Agent_Run.thy ===== *)
theory Agent_Run
  imports Nx_Service
begin

section \<open>The agent at work\<close>

text \<open>
  What happens between the two halves of \<open>Service::run\<close>: the reactors of \<open>nx_service/nxsvc.cpp\<close>
  dispatch timers and file events, and the threads of the tasks run.  ACE is a parameter of the
  model in what it does, at its documented behaviour: a one-shot timer is forgotten when it
  expires, \<open>activate\<close> of a task whose thread still runs starts no other, a handler of input that
  returns -1 is removed, and the loop of the timers ends after SIGINT.  Each event comes with the
  environment at its time; a handler or a run of a task is one step.
\<close>

record agent =
  ag_world :: service_world
  ag_running :: "task set"
  ag_sinks :: nat
  ag_config_on :: bool
  ag_exec_on :: bool
  ag_lost :: "task set"

text \<open>
  \<open>ag_lost\<close> is no state of the code: the tasks that lost their timer, by a thread that could not
  be started or by an \<open>http_exception\<close> that sets none, and have none since.
\<close>

definition new_agent :: "service_world \<Rightarrow> agent" where
  "new_agent s = \<lparr>ag_world = s, ag_running = {}, ag_sinks = 0, ag_config_on = True, ag_exec_on = True,
     ag_lost = {}\<rparr>"

definition in_agent :: "(service_world, 'a) act \<Rightarrow> (agent, 'a) act" where
  "in_agent m a = (let rs = m (ag_world a) in (fst rs, a\<lparr>ag_world := snd rs\<rparr>))"

definition armed :: "agent \<Rightarrow> task \<Rightarrow> bool" where
  "armed a t \<longleftrightarrow> pending_timer t (calls (ag_world a)) \<noteq> None"

definition stopping :: "agent \<Rightarrow> bool" where
  "stopping a \<longleftrightarrow> Raise_SIGINT \<in> set (calls (ag_world a))"

text \<open>The expiry of a timer stands in the journal as its cancellation.\<close>

definition expire :: "task \<Rightarrow> (agent, unit) act" where
  "expire t = in_agent (in_world (call (Cancel_Timer t)))"

definition handle_timeout :: "'j env \<Rightarrow> task \<Rightarrow> (world, int) act" where
  "handle_timeout e t = (case t of License_Task \<Rightarrow> glt_handle_timeout e | Killer_Task \<Rightarrow> pkt_handle_timeout e)"

definition task_svc :: "'j env \<Rightarrow> task \<Rightarrow> (world, int) act" where
  "task_svc e t = (case t of License_Task \<Rightarrow> glt_svc e | Killer_Task \<Rightarrow> pkt_svc e)"

text \<open>Whether a run of the task ends with no timer set.\<close>

definition sets_none :: "'j env \<Rightarrow> task \<Rightarrow> world \<Rightarrow> bool" where
  "sets_none e t w =
     (case t of
        License_Task \<Rightarrow> (case fst (glt_body e w) of
            Inl (Thrown (Http_Exception code text)) \<Rightarrow> code \<noteq> MIME_TYPES | _ \<Rightarrow> False)
      | Killer_Task \<Rightarrow> False)"

definition timer_due :: "'j env \<Rightarrow> task \<Rightarrow> (agent, unit) act" where
  "timer_due e t =
     bindA (readA (\<lambda>a. armed a t \<and> \<not> stopping a)) (\<lambda>due.
     if \<not> due then retA ()
     else thenA (expire t) (
       bindA (readA (\<lambda>a. t \<in> ag_running a)) (\<lambda>busy.
       if busy then retA ()
       else bindA (in_agent (in_world (handle_timeout e t))) (\<lambda>n.
         modifyA (\<lambda>a. if n = -1 then a\<lparr>ag_lost := insert t (ag_lost a)\<rparr>
           else a\<lparr>ag_running := insert t (ag_running a)\<rparr>)))))"

definition task_runs :: "'j env \<Rightarrow> task \<Rightarrow> (agent, unit) act" where
  "task_runs e t =
     bindA (readA (\<lambda>a. (t \<in> ag_running a, sets_none e t (world.truncate (ag_world a))))) (\<lambda>(busy, none_set).
     if \<not> busy then retA ()
     else thenA (in_agent (in_world (task_svc e t)))
       (modifyA (\<lambda>a. a\<lparr>ag_running := ag_running a - {t},
          ag_lost := (if none_set then insert t (ag_lost a) else ag_lost a)\<rparr>)))"

definition config_input :: "'j env \<Rightarrow> inotify_event option \<Rightarrow> (agent, unit) act" where
  "config_input e ev =
     bindA (readA ag_config_on) (\<lambda>on.
     if \<not> on then retA ()
     else bindA (in_agent (config_handle_input e ev)) (\<lambda>n.
       modifyA (\<lambda>a. a\<lparr>ag_config_on := n \<noteq> -1\<rparr>)))"

text \<open>\<open>activated\<close>: whether the thread of the sink task starts.\<close>

definition workers :: "sys_call list \<Rightarrow> nat" where
  "workers cs = length (filter (\<lambda>c. c = Activate_Worker) cs)"

definition exec_input :: "'j env \<Rightarrow> bool \<Rightarrow> inotify_event option \<Rightarrow> (agent, unit) act" where
  "exec_input e activated ev =
     bindA (readA (\<lambda>a. (ag_exec_on a, workers (calls (ag_world a))))) (\<lambda>(on, before).
     if \<not> on then retA ()
     else bindA (in_agent (exec_handle_input e activated ev)) (\<lambda>n.
       modifyA (\<lambda>a. a\<lparr>ag_exec_on := n \<noteq> -1,
         ag_sinks := ag_sinks a + (workers (calls (ag_world a)) - before)\<rparr>)))"

definition sink_runs :: "'j env \<Rightarrow> (agent, unit) act" where
  "sink_runs e =
     bindA (readA (\<lambda>a. 0 < ag_sinks a)) (\<lambda>busy.
     if \<not> busy then retA ()
     else thenA (in_agent (in_world (est_svc e))) (modifyA (\<lambda>a. a\<lparr>ag_sinks := ag_sinks a - 1\<rparr>)))"

datatype agent_event = Timer_Due task | Task_Runs task | Config_Input "inotify_event option"
  | Exec_Input bool "inotify_event option" | Sink_Runs

text \<open>A task with a timer again is no longer lost.\<close>

definition agent_step :: "'j env \<times> agent_event \<Rightarrow> (agent, unit) act" where
  "agent_step = (\<lambda>(e, ev).
     thenA (case ev of
              Timer_Due t \<Rightarrow> timer_due e t
            | Task_Runs t \<Rightarrow> task_runs e t
            | Config_Input i \<Rightarrow> config_input e i
            | Exec_Input activated i \<Rightarrow> exec_input e activated i
            | Sink_Runs \<Rightarrow> sink_runs e)
       (modifyA (\<lambda>a. a\<lparr>ag_lost := {t \<in> ag_lost a. \<not> armed a t}\<rparr>)))"

definition agent_run :: "('j env \<times> agent_event) list \<Rightarrow> (agent, unit) act" where
  "agent_run evs = seqA (map agent_step evs)"

subsection \<open>What the runs of the tasks leave alone\<close>

text \<open>Besides the timer of the task itself: the options, the settings of both tasks, the other timer.\<close>

definition settings :: "world \<Rightarrow> options \<times> (int \<times> int) \<times> cstring \<times> int" where
  "settings w = (config w, glt_settings w, pkt_settings w)"

definition beside :: "task set \<Rightarrow> world \<Rightarrow> (options \<times> (int \<times> int) \<times> cstring \<times> int) \<times> (task \<Rightarrow> int option)" where
  "beside T w = (settings w, \<lambda>t. if t \<in> T then None else pending_timer t (calls w))"

lemma keeps_beside_quiet: "keeps quiet_part m \<Longrightarrow> keeps (beside T) m"
proof -
  have "beside T w' = beside T w" if "quiet_part w' = quiet_part w" for w w'
  proof -
    have "pending_timer t (calls w') = pending_timer t (calls w)" for t
      using that by (cases t) (simp_all add: quiet_part_def)
    then show ?thesis
      using that by (auto simp: quiet_part_def beside_def settings_def config_def glt_settings_def pkt_settings_def fun_eq_iff)
  qed
  then show "keeps quiet_part m \<Longrightarrow> keeps (beside T) m" unfolding keeps_def by blast
qed

lemma beside_same: "settings w' = settings w \<Longrightarrow> calls w' = calls w \<Longrightarrow> beside T w' = beside T w"
  by (simp only: beside_def)

named_theorems besides \<open>rules for keeps (beside T)\<close>

lemma keeps_beside_glt_schedule [besides]: "keeps (beside {License_Task}) (glt_schedule_handle_timeout e s)"
  by (auto simp: keeps_def glt_schedule_run beside_def settings_def config_def glt_settings_def pkt_settings_def
      fun_eq_iff)

lemma keeps_beside_pkt_schedule [besides]: "keeps (beside {Killer_Task}) (pkt_schedule_handle_timeout e s)"
  by (auto simp: keeps_def pkt_schedule_run beside_def settings_def config_def glt_settings_def pkt_settings_def
      fun_eq_iff)

lemma keeps_beside_save [besides]: "keeps (beside T) (save_license_to_file e l)"
  unfolding save_license_to_file_def Let_def
  by (intro frame_intros keeps_modifyA beside_same)
    (simp_all add: settings_def config_def glt_settings_def pkt_settings_def)

lemma keeps_beside_write [besides]:
  "keeps (beside T) (glt_write_license e hl)" "keeps (beside T) (est_write_license e hl)"
  unfolding glt_write_license_def est_write_license_def sprintf_info_def
  by (rule frame_intros besides | rule keeps_beside_quiet)+

lemma keeps_beside_retry [besides]:
  "keeps (beside {License_Task}) (retry e)" "keeps (beside {License_Task}) (wait_next_day e)"
  unfolding retry_def wait_next_day_def
  by (rule frame_intros besides | rule keeps_beside_quiet)+

lemma keeps_beside_day_counter [besides]:
  "keeps (beside T) (update_license_task (\<lambda>t. t\<lparr>glt_day_counter := glt_day_counter t + 1\<rparr>))"
  unfolding update_license_task_def
  by (intro keeps_modifyA beside_same) (simp_all add: settings_def config_def glt_settings_def pkt_settings_def)

lemma keeps_beside_on_answer [besides]: "keeps (beside {License_Task}) (on_answer e r)"
  unfolding on_answer_def on_active_def on_received_def store_if_newer_def
  by (rule frame_intros besides | rule keeps_beside_quiet)+

lemma keeps_beside_glt_body [besides]: "keeps (beside {License_Task}) (glt_body e)"
  unfolding glt_body_def
  by (rule frame_intros besides | rule keeps_beside_quiet)+

lemma keeps_beside_glt_handler [besides]: "keeps (beside {License_Task}) (glt_handler e ex)"
  by (cases ex; simp only: glt_handler.simps Let_def throwA_def)
    (rule frame_intros besides | rule keeps_beside_quiet)+

lemma keeps_beside_glt_svc: "keeps (beside {License_Task}) (glt_svc e)"
  unfolding glt_svc_def by (rule frame_intros besides)+

lemma keeps_beside_pkt_svc: "keeps (beside {Killer_Task}) (pkt_svc e)"
proof -
  have "keeps (beside {Killer_Task}) (pkt_next_day e)"
    unfolding pkt_next_day_def by (rule frame_intros besides)+
  moreover from this have "keeps (beside {Killer_Task}) (pkt_handler e ex)" for ex
    by (cases ex; simp only: pkt_handler.simps Let_def throwA_def)
      (rule frame_intros | assumption | rule keeps_beside_quiet)+
  ultimately show ?thesis
    unfolding pkt_svc_def pkt_body_def
    by - (rule frame_intros | assumption | rule keeps_beside_quiet)+
qed

lemma keeps_beside_est_svc: "keeps (beside {}) (est_svc e)"
  unfolding est_svc_def est_body_def est_on_answer_def
  by (rule frame_intros besides | rule keeps_beside_quiet keeps_quiet_est_handler)+

lemma besideD:
  assumes "beside T w' = beside T w"
  shows "settings w' = settings w" and "t \<notin> T \<Longrightarrow> pending_timer t (calls w') = pending_timer t (calls w)"
  using assms by (auto simp: beside_def dest!: fun_cong [where x = t])

subsection \<open>What a run or a change of the configuration sets\<close>

definition in_force :: "world \<Rightarrow> bool" where
  "in_force w \<longleftrightarrow> options_in_range (config w) \<and> tasks_follow (config w) w"

lemma in_force_settings: "settings w' = settings w \<Longrightarrow> in_force w' = in_force w"
  by (auto simp: in_force_def tasks_follow_def settings_def glt_settings_def pkt_settings_def)

lemma glt_svc_sets:
  "wp (glt_svc e) (\<lambda>_ w'. pending_timer License_Task (calls w') \<noteq> None \<or> sets_none e License_Task w) (\<lambda>_ _. True) w"
proof -
  obtain r w1 where body: "glt_body e w = (r, w1)" by fastforce
  have arms: "wp (glt_body e) (\<lambda>_ w'. glt_armed w w' \<and> glt_settings w' = glt_settings w) (thrown_before w) w"
    using arms_glt_body [of e] unfolding arms_def by blast
  have handled: "wp (glt_handler e ex) (\<lambda>_ w'. pending_timer License_Task (calls w') \<noteq> None \<or> sets_none e License_Task w)
      (\<lambda>_ _. True) w1" if "r = Inl (Thrown ex)" for ex
  proof (rule wp_mono [OF wp_glt_handler])
    show "after_handler ex w1 w' \<Longrightarrow> pending_timer License_Task (calls w') \<noteq> None \<or> sets_none e License_Task w" for w'
      using that body by (cases ex) (auto simp: retried_def sets_none_def split: if_splits)
  qed simp
  show ?thesis
  proof (cases r)
    case (Inr u)
    with body arms show ?thesis
      by (auto simp: wp_def glt_svc_def thenA_def bindA_def catchA_def retA_def glt_armed_def)
  next
    case (Inl f)
    with body handled show ?thesis
      by (cases f) (auto simp: wp_def glt_svc_def thenA_def bindA_def catchA_def retA_def split: prod.splits sum.splits)
  qed
qed

lemma pkt_svc_sets: "wp (pkt_svc e) (\<lambda>_ w'. pending_timer Killer_Task (calls w') \<noteq> None) (\<lambda>_ _. True) w"
proof -
  obtain r w1 where body: "pkt_body e w = (r, w1)" by fastforce
  have run: "wp (pkt_body e) (\<lambda>_ w'. next_day_set w w') (\<lambda>_ w'. quiet_part w' = quiet_part w) w"
    by (rule pkt_body_run)
  show ?thesis
  proof (cases r)
    case (Inr u)
    with body run show ?thesis
      by (auto simp: wp_def pkt_svc_def thenA_def bindA_def catchA_def retA_def next_day_set_def)
  next
    case (Inl f)
    with body run have same: "quiet_part w1 = quiet_part w" by (simp add: wp_def)
    show ?thesis
    proof (cases f)
      case (Thrown ex)
      with pkt_handler_run [OF same, of e ex] body Inl show ?thesis
        by (auto simp: wp_def pkt_svc_def thenA_def bindA_def catchA_def retA_def next_day_set_def
            split: prod.splits sum.splits)
    qed (use body Inl in \<open>simp_all add: wp_def pkt_svc_def thenA_def bindA_def catchA_def\<close>)
  qed
qed

definition reconfigured :: "world \<Rightarrow> world \<Rightarrow> bool" where
  "reconfigured w w' \<longleftrightarrow> beside {} w' = beside {} w \<or> in_force w' \<and> (\<forall>t. pending_timer t (calls w') = Some 5)"

lemma wp_parser_init_settings:
  assumes "\<And>n w'. n = 0 \<and> options_in_range (config w') \<or> n = -1 \<and> settings w' = settings w \<Longrightarrow>
      calls w' = calls w \<Longrightarrow> Q n w'"
  shows "wp (parser_init e) Q E w"
proof -
  obtain n w' where run: "parser_init e w = (Inr n, w')" by (metis parser_init_run)
  with parser_init_run [of e w] have "n = 0 \<and> options_in_range (config w') \<or> n = -1 \<and> settings w' = settings w"
      "calls w' = calls w"
    by (auto simp: acceptable_def settings_def glt_settings_def pkt_settings_def split: option.splits if_splits)
  with run assms show ?thesis by (simp add: wp_def)
qed

lemma wp_reshedule_tasks:
  assumes "options_in_range (config w)"
    and "\<And>w'. in_force w' \<Longrightarrow> (\<forall>t. pending_timer t (calls w') = Some 5) \<Longrightarrow> Q 0 w'"
  shows "wp (reshedule_tasks e) Q E w"
proof -
  obtain w' where run: "reshedule_tasks e w = (Inr 0, w')" and "tasks_follow (config w) w'"
    and cs: "calls w' = calls w @ [Cancel_Timer License_Task, Schedule_Timer License_Task 5,
       Cancel_Timer Killer_Task, Schedule_Timer Killer_Task 5]" and "parser_obj w' = parser_obj w"
    using reshedule_tasks_run [of e w] by blast
  then have "in_force w'" using assms(1) by (simp add: in_force_def config_def)
  moreover have "pending_timer t (calls w') = Some 5" for t
    using cs by (cases t) (simp_all add: pending_append_four)
  ultimately show ?thesis using run assms(2) by (simp add: wp_def)
qed

lemma config_update_reconfigures:
  "wp (config_update e name) (\<lambda>_ w'. reconfigured w w') (\<lambda>_ _. True) w"
proof -
  have rest: "wp (bindA (parser_init e) (\<lambda>n. if n = -1 then raise_SIGINT else bindA (reshedule_tasks e) (\<lambda>_. retA ())))
      (\<lambda>_ w'. reconfigured w w') (\<lambda>_ _. True) w1"
    if "settings w1 = settings w" and "\<And>t. pending_timer t (calls w1) = pending_timer t (calls w)" for w1
    unfolding wp_bindA
  proof (rule wp_parser_init_settings)
    fix n :: int and w2 assume n: "n = 0 \<and> options_in_range (config w2) \<or> n = -1 \<and> settings w2 = settings w1"
      and cs: "calls w2 = calls w1"
    have "wp raise_SIGINT (\<lambda>_ w'. reconfigured w w') (\<lambda>_ _. True) w2" if "settings w2 = settings w1"
    proof -
      have "beside {} (w2\<lparr>calls := calls w2 @ [Raise_SIGINT]\<rparr>) = beside {} w"
        using that cs \<open>settings w1 = settings w\<close> \<open>\<And>t. pending_timer t (calls w1) = pending_timer t (calls w)\<close>
        by (simp add: beside_def settings_def config_def glt_settings_def pkt_settings_def)
      then show ?thesis by (simp add: raise_SIGINT_def effect_simps reconfigured_def)
    qed
    moreover have "wp (bindA (reshedule_tasks e) (\<lambda>_. retA ())) (\<lambda>_ w'. reconfigured w w') (\<lambda>_ _. True) w2"
      if "options_in_range (config w2)"
      using that unfolding wp_bindA wp_retA by (rule wp_reshedule_tasks) (simp add: reconfigured_def)
    ultimately show "wp (if n = -1 then raise_SIGINT else bindA (reshedule_tasks e) (\<lambda>_. retA ()))
        (\<lambda>_ w'. reconfigured w w') (\<lambda>_ _. True) w2"
      using n by auto
  qed
  show ?thesis
    by (simp add: config_update_def wp_thenA wp_sprintf_info wp_call)
      (rule impI, rule rest, simp_all add: settings_def config_def glt_settings_def pkt_settings_def)
qed

lemma keeps_exec_open: "keeps (beside {}) (exec_open e name activated)"
  unfolding exec_open_def est_open_def sprintf_info_def
  by (rule frame_intros | rule keeps_beside_quiet | simp add: timer_call_def)+

subsection \<open>Every step keeps the tasks scheduled\<close>

text \<open>
  \<open>scheduled a\<close>: the options in force are in range, both tasks have them, and each task waits for
  its timer, or runs, or lost its timer.
\<close>

definition scheduled :: "agent \<Rightarrow> bool" where
  "scheduled a \<longleftrightarrow> in_force (world.truncate (ag_world a)) \<and>
     (\<forall>t. armed a t \<or> t \<in> ag_running a \<or> t \<in> ag_lost a)"

lemma wp_in_agent [effect_simps]:
  "wp (in_agent m) Q E a = wp m (\<lambda>r s'. Q r (a\<lparr>ag_world := s'\<rparr>)) (\<lambda>f s'. E f (a\<lparr>ag_world := s'\<rparr>)) (ag_world a)"
  by (simp add: wp_def in_agent_def Let_def split_beta split: sum.split)

text \<open>A step whose effect on the world is one of these keeps the agent scheduled.\<close>

lemma scheduled_beside:
  assumes "scheduled a" and "beside T (world.truncate (ag_world a')) = beside T (world.truncate (ag_world a))"
    and "\<And>t. t \<in> T \<Longrightarrow> armed a' t \<or> t \<in> ag_running a' \<or> t \<in> ag_lost a'"
    and "ag_running a - T \<subseteq> ag_running a'" and "ag_lost a - T \<subseteq> ag_lost a'"
  shows "scheduled a'"
proof -
  have "armed a' t \<or> t \<in> ag_running a' \<or> t \<in> ag_lost a'" for t
  proof (cases "t \<in> T")
    case False
    then have "armed a' t = armed a t"
      using besideD(2) [OF assms(2) False] by (simp add: armed_def)
    with False assms(1,4,5) show ?thesis by (auto simp: scheduled_def)
  qed (use assms(3) in auto)
  then show ?thesis
    using assms(1) in_force_settings [OF besideD(1) [OF assms(2)]] by (simp add: scheduled_def)
qed

lemma scheduled_reconfigured:
  assumes "scheduled a" and "reconfigured (world.truncate (ag_world a)) (world.truncate (ag_world a'))"
    and "ag_running a' = ag_running a" and "ag_lost a' = ag_lost a"
  shows "scheduled a'"
proof (cases "beside {} (world.truncate (ag_world a')) = beside {} (world.truncate (ag_world a))")
  case True
  then show ?thesis by (rule scheduled_beside [OF assms(1)]) (use assms(3,4) in auto)
next
  case False
  with assms(2) show ?thesis by (simp add: reconfigured_def scheduled_def armed_def)
qed

lemma timer_due_keeps: "scheduled a \<Longrightarrow> wp (timer_due e t) (\<lambda>_. scheduled) (\<lambda>_ _. True) a"
  by (cases t)
    (auto simp: timer_due_def effect_simps expire_def handle_timeout_def glt_handle_timeout_def
      pkt_handle_timeout_def
      intro!: scheduled_beside [where a = a and T = "{t}"] simp: beside_def settings_def config_def glt_settings_def
        pkt_settings_def fun_eq_iff)

lemma sink_runs_keeps:
  assumes "scheduled a" shows "wp (sink_runs e) (\<lambda>_. scheduled) (\<lambda>_ _. True) a"
proof -
  have "wp (est_svc e) (\<lambda>_ w'. beside {} w' = beside {} (world.truncate (ag_world a))) (\<lambda>_ _. True)
      (world.truncate (ag_world a))"
    by (rule wp_keeps [OF keeps_beside_est_svc]) simp_all
  then show ?thesis
    using assms
    by (auto simp: sink_runs_def effect_simps elim!: wp_mono intro!: scheduled_beside [where a = a and T = "{}"])
qed

lemma config_input_keeps:
  assumes "scheduled a" shows "wp (config_input e ev) (\<lambda>_. scheduled) (\<lambda>_ _. True) a"
  using assms
  by (auto simp: config_input_def config_handle_input_def effect_simps set_config_watch_def reconfigured_def
      intro!: scheduled_reconfigured [where a = a] wp_mono [OF config_update_reconfigures] split: option.split)

lemma exec_input_keeps:
  assumes "scheduled a" shows "wp (exec_input e activated ev) (\<lambda>_. scheduled) (\<lambda>_ _. True) a"
proof -
  have opened: "wp (exec_open e name activated) (\<lambda>_ w'. beside {} w' = beside {} (world.truncate (ag_world a)))
      (\<lambda>_ _. True) (world.truncate (ag_world a))" for name
    by (rule wp_keeps [OF keeps_exec_open]) simp_all
  show ?thesis
    using assms
    by (auto simp: exec_input_def exec_handle_input_def effect_simps set_exec_watch_def
        intro!: wp_mono [OF opened] scheduled_beside [where a = a and T = "{}"] split: option.split)
qed

lemma task_runs_keeps:
  assumes "scheduled a" shows "wp (task_runs e t) (\<lambda>_. scheduled) (\<lambda>_ _. True) a"
proof -
  let ?w = "world.truncate (ag_world a)"
  have sets: "wp (task_svc e t) (\<lambda>_ w'. pending_timer t (calls w') \<noteq> None \<or> sets_none e t ?w) (\<lambda>_ _. True) ?w"
  proof (cases t)
    case License_Task
    then show ?thesis by (simp only: task_svc_def task.case) (rule glt_svc_sets)
  next
    case Killer_Task
    have "wp (pkt_svc e) (\<lambda>_ w'. pending_timer Killer_Task (calls w') \<noteq> None \<or> sets_none e t ?w) (\<lambda>_ _. True) ?w"
      by (rule wp_mono [OF pkt_svc_sets]) simp_all
    with Killer_Task show ?thesis by (simp add: task_svc_def)
  qed
  have "keeps (beside {t}) (task_svc e t)"
    by (cases t) (simp_all add: task_svc_def keeps_beside_glt_svc keeps_beside_pkt_svc)
  then have "wp (task_svc e t) (\<lambda>_ w'. beside {t} w' = beside {t} ?w) (\<lambda>_ _. True) ?w"
    by (rule wp_keeps) simp_all
  from wp_conj [OF this sets] show ?thesis
    using assms
    by (auto simp: task_runs_def effect_simps armed_def elim!: wp_mono
        intro!: scheduled_beside [where a = a and T = "{t}"])
qed

lemma agent_step_keeps: "scheduled a \<Longrightarrow> wp (agent_step x) (\<lambda>_. scheduled) (\<lambda>_ _. True) a"
proof -
  obtain e ev where x: "x = (e, ev)" by fastforce
  have clean: "scheduled a \<Longrightarrow> scheduled (a\<lparr>ag_lost := {t \<in> ag_lost a. \<not> armed a t}\<rparr>)" for a
    by (auto simp: scheduled_def armed_def)
  assume a: "scheduled a"
  note keeps = timer_due_keeps [OF a] task_runs_keeps [OF a] config_input_keeps [OF a] exec_input_keeps [OF a]
    sink_runs_keeps [OF a]
  show ?thesis
    unfolding x agent_step_def prod.case wp_thenA wp_modifyA
    by (cases ev) (simp_all add: wp_mono [OF keeps(1)] wp_mono [OF keeps(2)] wp_mono [OF keeps(3)]
        wp_mono [OF keeps(4)] wp_mono [OF keeps(5)] clean)
qed

lemma agent_run_keeps: "scheduled a \<Longrightarrow> wp (agent_run evs) (\<lambda>_. scheduled) (\<lambda>_ _. True) a"
proof (induction evs arbitrary: a)
  case Nil
  then show ?case by (simp add: agent_run_def effect_simps)
next
  case (Cons x evs)
  have "wp (agent_step x) (\<lambda>_ a'. wp (agent_run evs) (\<lambda>_. scheduled) (\<lambda>_ _. True) a') (\<lambda>_ _. True) a"
    by (rule wp_mono [OF agent_step_keeps [OF Cons.prems]]) (simp_all add: Cons.IH)
  then show ?case by (simp add: agent_run_def effect_simps)
qed

lemma started_scheduled: "started register_ok (world.truncate s) \<Longrightarrow> scheduled (new_agent s)"
  by (auto simp: scheduled_def new_agent_def started_def in_force_def armed_def)

text \<open>
  C1: started in a fresh process, and then after any sequence of timers, runs of the tasks, events
  of the configuration file and of the client program, each in an environment of its own, the
  options in force are in range, both tasks follow them, and each task waits for its timer or
  runs, unless it lost its timer: its thread could not be started, or the request of the license
  task ended in an \<open>http_exception\<close> with a code other than that of a wrong MIME type, and no change
  of the configuration has set it again.
\<close>

theorem agent_stays_scheduled:
  "case svc_start e args register_ok (s\<lparr>calls := []\<rparr>) of
     (Inl _, _) \<Rightarrow> True
   | (Inr _, s1) \<Rightarrow>
       (case agent_run evs (new_agent s1) of (Inl _, _) \<Rightarrow> True | (Inr _, a) \<Rightarrow> scheduled a)"
  using wp_svc_start [of e args register_ok s] agent_run_keeps [of _ evs] started_scheduled
  by (fastforce simp: wp_def split: prod.splits sum.splits)

text \<open>A task that waits for its timer runs when it is due, if its thread can be started.\<close>

lemma due_task_runs:
  assumes "armed a t" "\<not> stopping a" "activate_ok e t"
  shows "wp (timer_due e t) (\<lambda>_ a'. t \<in> ag_running a' \<and> \<not> armed a' t) (\<lambda>_ _. False) a"
  using assms
  by (cases t)
    (auto simp: timer_due_def effect_simps expire_def handle_timeout_def glt_handle_timeout_def
      pkt_handle_timeout_def armed_def)

text \<open>A change of the configuration that is accepted and acted on sets both timers again.\<close>

lemma accepted_change_rearms:
  "wp (reshedule_tasks e) (\<lambda>_ w'. \<forall>t. pending_timer t (calls w') = Some 5) (\<lambda>_ _. False) w"
  using reshedule_tasks_run [of e w] by (auto simp: wp_def pending_append_four all_tasks)

text \<open>Two timers and two runs on the first day of a month whose update and check days are later.\<close>

definition sample_options :: options where
  "sample_options = \<lparr>opt_unp = [], opt_prod = [], opt_lic_app = [], opt_agentId = [], opt_log_type = [],
     opt_lic_file = [], opt_service_path = [], opt_make_uid_cmd = [], opt_uid_file_name = [],
     opt_lic_file_name = [], opt_lic_files_path = [], opt_kill_file_name = ''openvpn'', opt_log_files_path = [],
     opt_day_license_check = 7, opt_day_license_update = 5, opt_openvpn_file_path = [],
     opt_next_day_waiting_hours = 24, opt_license_manager_uri = [], opt_next_try_get_license_mins = 5\<rparr>"

definition sample_parser :: parser where
  "sample_parser = \<lparr>root_tree = [], parser_options = sample_options, parser_file_name = [],
     parser_service_path = [], parser_log_file_path = [], parser_config_file_path = []\<rparr>"

definition sample_service :: service_world where
  "sample_service = world.extend (logged.extend \<lparr>log = []\<rparr> (world.fields sample_parser Map.empty
     (new_get_license_task 5 24) \<lparr>pkt_timer_id = 0, pkt_process_stopping_name = ''openvpn'', pkt_day_waiting_hours = 24\<rparr>
     [Schedule_Timer License_Task 5, Schedule_Timer Killer_Task 5]))
     (service_world.fields \<lparr>iterations = 0, watch_file = [], watch_dir = []\<rparr> \<lparr>iterations = 0, watch_file = [], watch_dir = []\<rparr>)"

lemma sample_run:
  "case agent_run [(quiet_env, Timer_Due License_Task), (quiet_env, Timer_Due Killer_Task),
       (quiet_env, Task_Runs Killer_Task), (quiet_env, Task_Runs License_Task)] (new_agent sample_service) of
     (Inl _, _) \<Rightarrow> False
   | (Inr _, a) \<Rightarrow> pending_timer License_Task (calls (ag_world a)) = Some 86400 \<and>
       pending_timer Killer_Task (calls (ag_world a)) = Some 86400 \<and> ag_running a = {} \<and> ag_lost a = {}"
  by code_simp

end
