(* ===== verification/Trace_Log.thy ===== *)
theory Trace_Log
  imports Agent_Tools
begin

section \<open>The trace log\<close>

text \<open>
  \<open>tracer/tracer.h\<close>, \<open>tracer/tracer.cpp\<close> and \<open>tools/Singleton.h\<close>: the one logger of the process, the
  configuration it is made with, and what a message becomes.  The trace library P7 is a parameter:
  whether it makes a client for a configuration, and a trace for a client.
\<close>

text \<open>\<open>is_debug\<close> is a definition of the build; the build files set it to 0.\<close>

record trace_lib =
  is_debug :: bool
  client_made :: "cstring \<Rightarrow> bool"
  trace_made :: bool

record logger =
  client :: "cstring option"
  tracer :: bool

text \<open>The state: the static \<open>log_file_config\<close>, the instance of the singleton, the file written.\<close>

record trace_world =
  log_file_config :: cstring
  logger_obj :: "logger option"
  traced :: "(log_level \<times> cstring) list"

type_synonym 'a trace_act = "(trace_world, 'a) act"

definition initial_file_config :: cstring where
  "initial_file_config =
     ''/P7.Sink=FileTxt /P7.Format='' @ [CHR 0x22] @ ''%lv [%tf] %ms'' @ [CHR 0x22] @ '' /P7.Dir=''"

definition lig_server_config :: cstring where
  "lig_server_config =
     ''/P7.Sink=Baical /P7.Pool=32768 /P7.PSize=65536 /P7.Addr=127.0.0.1 /P7:Port=9009''"

definition new_trace_world :: trace_world where
  "new_trace_world = \<lparr>log_file_config = initial_file_config, logger_obj = None, traced = []\<rparr>"

subsection \<open>Logger\<close>

definition make_connect_config_path :: "trace_lib \<Rightarrow> cstring \<Rightarrow> cstring trace_act" where
  "make_connect_config_path lib log_path =
     (if is_debug lib then retA lig_server_config
      else thenA (modifyA (\<lambda>w. w\<lparr>log_file_config := log_file_config w @ log_path\<rparr>)) (readA log_file_config))"

definition make_connect_config :: "'j env \<Rightarrow> trace_lib \<Rightarrow> cstring trace_act" where
  "make_connect_config e lib =
     (if is_debug lib then retA lig_server_config
      else thenA (modifyA (\<lambda>w. w\<lparr>log_file_config := log_file_config w @ current_module_path e @ ''logs''\<rparr>))
        (readA log_file_config))"

text \<open>No trace is made for a client that was not.\<close>

definition logger_of :: "trace_lib \<Rightarrow> cstring \<Rightarrow> logger" where
  "logger_of lib config_text =
     (let conf = c_str config_text; made = client_made lib conf
      in \<lparr>client = (if made then Some conf else None), tracer = (made \<and> trace_made lib)\<rparr>)"

definition new_logger :: "'j env \<Rightarrow> trace_lib \<Rightarrow> logger trace_act" where
  "new_logger e lib = bindA (make_connect_config e lib) (\<lambda>c. retA (logger_of lib c))"

definition new_logger_at :: "trace_lib \<Rightarrow> cstring \<Rightarrow> logger trace_act" where
  "new_logger_at lib log_path = bindA (make_connect_config_path lib log_path) (\<lambda>c. retA (logger_of lib c))"

text \<open>
  The text is the format of \<open>Trace\<close>, which gets no other argument: \<open>%%\<close> prints a \<open>%\<close>, any other
  conversion reads an argument that is not there.
\<close>

fun format_alone :: "cstring \<Rightarrow> cstring option" where
  "format_alone [] = Some []"
| "format_alone (c # cs) =
     (if c \<noteq> CHR ''%'' then map_option (Cons c) (format_alone cs)
      else case cs of
             d # ds \<Rightarrow> if d = CHR ''%'' then map_option (Cons d) (format_alone ds) else None
           | [] \<Rightarrow> None)"

definition logger_write :: "logger \<Rightarrow> log_level \<Rightarrow> cstring \<Rightarrow> bool trace_act" where
  "logger_write l level s =
     (if tracer l
      then (case format_alone s of
              None \<Rightarrow> failA (Undefined Indeterminate_Value)
            | Some t \<Rightarrow> thenA (modifyA (\<lambda>w. w\<lparr>traced := traced w @ [(level, t)]\<rparr>)) (retA True))
      else retA False)"

subsection \<open>The singleton\<close>

text \<open>\<open>call_once\<close> for both: the first of the calls makes the instance.\<close>

definition call_once :: "logger trace_act \<Rightarrow> logger trace_act" where
  "call_once ctor =
     bindA (readA logger_obj) (\<lambda>obj.
       case obj of
         Some l \<Rightarrow> retA l
       | None \<Rightarrow> bindA ctor (\<lambda>l. thenA (modifyA (\<lambda>w. w\<lparr>logger_obj := Some l\<rparr>)) (retA l)))"

definition logger_instance :: "'j env \<Rightarrow> trace_lib \<Rightarrow> logger trace_act" where
  "logger_instance e lib = call_once (new_logger e lib)"

definition logger_instance2nd :: "trace_lib \<Rightarrow> cstring \<Rightarrow> logger trace_act" where
  "logger_instance2nd lib log_path = call_once (new_logger_at lib log_path)"

definition deliver :: "'j env \<Rightarrow> trace_lib \<Rightarrow> log_level \<times> cstring \<Rightarrow> unit trace_act" where
  "deliver e lib = (\<lambda>(level, s).
     bindA (logger_instance e lib) (\<lambda>l. thenA (logger_write l level (c_str s)) (retA ())))"

subsection \<open>Which file, and what is written\<close>

lemma format_alone_plain: "CHR ''%'' \<notin> set s \<Longrightarrow> format_alone s = Some s"
  by (induction s) auto

definition printable :: "log_level \<times> cstring \<Rightarrow> bool" where
  "printable m \<longleftrightarrow> format_alone (c_str (snd m)) \<noteq> None"

definition printed_as :: "log_level \<times> cstring \<Rightarrow> log_level \<times> cstring" where
  "printed_as m = (fst m, the (format_alone (c_str (snd m))))"

lemma wp_deliver:
  "logger_obj w = Some l \<Longrightarrow>
   wp (deliver e lib m) Q E w =
     (if tracer l
      then if printable m then Q () (w\<lparr>traced := traced w @ [printed_as m]\<rparr>)
        else E (Undefined Indeterminate_Value) w
      else Q () w)"
  by (cases m)
    (auto simp: deliver_def logger_instance_def call_once_def logger_write_def printable_def printed_as_def
      effect_simps split: option.split)

lemma deliver_all:
  "logger_obj w = Some l \<Longrightarrow>
   wp (seqA (map (deliver e lib) ms))
     (\<lambda>_ w'. (tracer l \<longrightarrow> list_all printable ms) \<and>
        w' = w\<lparr>traced := traced w @ (if tracer l then map printed_as ms else [])\<rparr>)
     (\<lambda>f _. f = Undefined Indeterminate_Value \<and> tracer l \<and> \<not> list_all printable ms) w"
proof (induction ms arbitrary: w)
  case Nil
  then show ?case by (simp add: effect_simps)
next
  case (Cons m ms)
  let ?w = "w\<lparr>traced := traced w @ (if tracer l then [printed_as m] else [])\<rparr>"
  have obj: "logger_obj ?w = Some l" using Cons.prems by simp
  show ?case
  proof (cases "tracer l \<longrightarrow> printable m")
    case True
    have "wp (seqA (map (deliver e lib) ms))
       (\<lambda>_ w'. (tracer l \<longrightarrow> list_all printable (m # ms)) \<and>
          w' = w\<lparr>traced := traced w @ (if tracer l then map printed_as (m # ms) else [])\<rparr>)
       (\<lambda>f _. f = Undefined Indeterminate_Value \<and> tracer l \<and> \<not> list_all printable (m # ms)) ?w"
      by (rule wp_mono [OF Cons.IH [OF obj]]) (use True in auto)
    with True Cons.prems show ?thesis by (cases "tracer l") (simp_all add: effect_simps wp_deliver)
  next
    case False
    with Cons.prems show ?thesis by (simp add: effect_simps wp_deliver)
  qed
qed

text \<open>
  The logger made for a directory, and after it any messages: the instance stays the one made for
  that directory, whatever the working directory is, and the file gets every message, in order;
  a message with a conversion in it is undefined.
\<close>

lemma log_in_directory:
  fixes lib path
  defines "l \<equiv> logger_of lib (if is_debug lib then lig_server_config else initial_file_config @ path)"
  shows "wp (thenA (logger_instance2nd lib path) (seqA (map (deliver e lib) ms)))
     (\<lambda>_ w. logger_obj w = Some l \<and> (tracer l \<longrightarrow> list_all printable ms) \<and>
        traced w = (if tracer l then map printed_as ms else []))
     (\<lambda>f _. f = Undefined Indeterminate_Value \<and> tracer l \<and> \<not> list_all printable ms) new_trace_world"
proof -
  let ?w = "new_trace_world\<lparr>logger_obj := Some l,
    log_file_config := (if is_debug lib then initial_file_config else initial_file_config @ path)\<rparr>"
  have made: "wp (logger_instance2nd lib path) Q E new_trace_world = Q l ?w" for Q E
    by (simp add: logger_instance2nd_def call_once_def new_logger_at_def make_connect_config_path_def l_def
        new_trace_world_def effect_simps)
  have obj: "logger_obj ?w = Some l" by simp
  have "wp (seqA (map (deliver e lib) ms))
     (\<lambda>_ w. logger_obj w = Some l \<and> (tracer l \<longrightarrow> list_all printable ms) \<and>
        traced w = (if tracer l then map printed_as ms else []))
     (\<lambda>f _. f = Undefined Indeterminate_Value \<and> tracer l \<and> \<not> list_all printable ms) ?w"
    by (rule wp_mono [OF deliver_all [OF obj]]) (auto simp: new_trace_world_def)
  then show ?thesis by (simp add: effect_simps made)
qed

text \<open>A message before the logger is made fixes the directory: the path given later is not used.\<close>

lemma first_message_fixes_directory:
  "wp (thenA (deliver e lib m) (logger_instance2nd lib path))
     (\<lambda>l _. l = logger_of lib (if is_debug lib then lig_server_config
        else initial_file_config @ current_module_path e @ ''logs''))
     (\<lambda>f _. f = Undefined Indeterminate_Value) new_trace_world"
  by (cases m)
    (simp add: deliver_def logger_instance_def logger_instance2nd_def call_once_def new_logger_def
      make_connect_config_def logger_write_def new_trace_world_def effect_simps split: option.split)

end
