(* ===== verification/Fan_Notify.thy ===== *)
theory Fan_Notify
  imports Agent_Effects
begin

unbundle bit_operations_syntax

section \<open>The fanotify notificator\<close>

text \<open>
  \<open>event_sink_linux/notificator_linux.cpp\<close>: the marks on the directories, the walk over the events
  the kernel has written into the buffer, what is done for one, and the end of the object.  The
  kernel is a parameter; the descriptors of the process are in the state, so that what is opened
  and closed can be counted.
\<close>

subsection \<open>The events of the kernel\<close>

text \<open>
  \<open>struct fanotify_event_metadata\<close>: the length at 0 (4 bytes), the mask at 8 (8 bytes), the
  descriptor at 16 and the process at 20 (4 bytes each), 24 bytes in all.
\<close>

fun le_value :: "8 word list \<Rightarrow> nat" where
  "le_value [] = 0"
| "le_value (b # bs) = unat b + 256 * le_value bs"

definition le_int :: "8 word list \<Rightarrow> int" where
  "le_int bs = sint (word_of_nat (le_value bs) :: 32 word)"

record fan_event =
  ev_mask :: nat
  ev_fd :: int
  ev_pid :: int

definition event_len :: "8 word list \<Rightarrow> nat" where
  "event_len rest = le_value (take 4 rest)"

definition event_at :: "8 word list \<Rightarrow> fan_event" where
  "event_at rest = \<lparr>ev_mask = le_value (take 8 (drop 8 rest)), ev_fd = le_int (take 4 (drop 16 rest)),
     ev_pid = le_int (take 4 (drop 20 rest))\<rparr>"

text \<open>\<open>FAN_EVENT_OK(metadata, length)\<close> for the bytes from \<open>metadata\<close> to the end of what was read.\<close>

definition FAN_EVENT_OK :: "8 word list \<Rightarrow> bool" where
  "FAN_EVENT_OK rest \<longleftrightarrow> 24 \<le> length rest \<and> 24 \<le> event_len rest \<and> event_len rest \<le> length rest"

subsection \<open>LinuxNoficitator\<close>

text \<open>
  \<open>cmdline pid\<close> is the file \<open>/proc/PID/cmdline\<close>, \<open>link fd\<close> what \<open>readlink\<close> gives for
  \<open>/proc/self/fd/FD\<close>; \<open>init_fd\<close> the result of \<open>fanotify_init\<close>, \<open>mark_ok\<close> whether a path can be marked.
\<close>

record fan_env =
  cmdline :: "int \<Rightarrow> cstring option"
  link :: "int \<Rightarrow> cstring option"
  init_fd :: int
  mark_ok :: "cstring \<Rightarrow> bool"

text \<open>
  The object has static storage: its members are zero before they are set.  An entry of
  \<open>monitors\<close> that was allocated and not yet written is \<open>None\<close>.
\<close>

record fan_world = logged +
  descs :: "int list"
  bad_closes :: nat
  printed :: "cstring list"
  marks :: "cstring list"
  monitors :: "cstring option list option"
  fan_fd :: int
  fan_numbers :: nat
  exit_status :: "nat option"
  fan_threads :: nat

type_synonym 'a fan_act = "(fan_world, 'a) act"

definition print :: "cstring \<Rightarrow> unit fan_act" where
  "print s = modifyA (\<lambda>w. w\<lparr>printed := printed w @ [s]\<rparr>)"

text \<open>\<open>close\<close> of a descriptor that is not open fails with \<open>EBADF\<close>.\<close>

definition close_fd :: "int \<Rightarrow> unit fan_act" where
  "close_fd fd = modifyA (\<lambda>w.
     if fd \<in> set (descs w) then w\<lparr>descs := remove1 fd (descs w)\<rparr> else w\<lparr>bad_closes := bad_closes w + 1\<rparr>)"

text \<open>\<open>open\<close> gives the least descriptor that is free.\<close>

definition free_fd :: "int list \<Rightarrow> int" where
  "free_fd ds = (case find (\<lambda>i. int i \<notin> set ds) [0..<Suc (length ds)] of None \<Rightarrow> 0 | Some i \<Rightarrow> int i)"

definition open_fd :: "int fan_act" where
  "open_fd = bindA (readA descs) (\<lambda>ds. thenA (modifyA (\<lambda>w. w\<lparr>descs := ds @ [free_fd ds]\<rparr>)) (retA (free_fd ds)))"

definition exit_failure :: "'a fan_act" where
  "exit_failure = thenA (modifyA (\<lambda>w. w\<lparr>exit_status := Some 1\<rparr>)) (failA No_Return)"

subsection \<open>One event\<close>

definition PATH_MAX :: nat where "PATH_MAX = 4096"

text \<open>\<open>strstr(buffer, "^@")\<close>, and the end of the string there.\<close>

fun before_caret :: "cstring \<Rightarrow> cstring" where
  "before_caret [] = []"
| "before_caret (c # cs) = (if prefix ''^@'' (c # cs) then [] else c # before_caret cs)"

definition get_program_name_from_pid :: "fan_env \<Rightarrow> int \<Rightarrow> cstring option fan_act" where
  "get_program_name_from_pid e pid =
     (case cmdline e pid of
        None \<Rightarrow> retA None
      | Some content \<Rightarrow>
          bindA open_fd (\<lambda>fd.
          let s = take (PATH_MAX - 1) content
          in thenA (close_fd fd) (retA (if s = [] then None else Some (before_caret (c_str s))))))"

definition get_file_path_from_fd :: "fan_env \<Rightarrow> int \<Rightarrow> cstring option" where
  "get_file_path_from_fd e fd =
     (if fd \<le> 0 then None else map_option (take (PATH_MAX - 1)) (link e fd))"

definition or_unknown :: "cstring option \<Rightarrow> cstring" where
  "or_unknown s = (case s of None \<Rightarrow> ''unknown'' | Some p \<Rightarrow> c_str p)"

definition received :: "fan_env \<Rightarrow> int \<Rightarrow> cstring" where
  "received e fd = ''Received event in path '' @ [CHR 0x27] @ or_unknown (get_file_path_from_fd e fd) @ [CHR 0x27]"

text \<open>The bits of the mask and the line printed for each.\<close>

definition mask_lines :: "nat \<Rightarrow> cstring list" where
  "mask_lines m =
     map (\<lambda>(k, name). CHR 0x09 # name @ [LF])
       (filter (\<lambda>(k, name). bit m k)
         [(5, ''FAN_OPEN''), (0, ''FAN_ACCESS''), (1, ''FAN_MODIFY''), (3, ''FAN_CLOSE_WRITE''),
          (4, ''FAN_CLOSE_NOWRITE''), (12, ''FAN_OPEN_EXEC'')])"

definition event_process :: "fan_env \<Rightarrow> fan_event \<Rightarrow> unit fan_act" where
  "event_process e ev =
     seqA [print (received e (ev_fd ev)),
       write_log Debug (take 511 (received e (ev_fd ev))),
       bindA (get_program_name_from_pid e (ev_pid ev)) (\<lambda>name.
         print ('' pid='' @ show_int (ev_pid ev) @ '' ('' @ or_unknown name @ ''): '' @ [LF])),
       modifyA (\<lambda>w. w\<lparr>printed := printed w @ mask_lines (ev_mask ev)\<rparr>),
       close_fd (ev_fd ev)]"

text \<open>The body of the loop of \<open>run_notify\<close>; the descriptor was closed before.\<close>

definition one_event :: "fan_env \<Rightarrow> fan_event \<Rightarrow> unit fan_act" where
  "one_event e ev = thenA (event_process e ev) (if ev_fd ev > 0 then close_fd (ev_fd ev) else retA ())"

text \<open>The loop, for what is done with one event.\<close>

function walk_events :: "(fan_event \<Rightarrow> unit fan_act) \<Rightarrow> 8 word list \<Rightarrow> unit fan_act" where
  "walk_events handle rest =
     (if FAN_EVENT_OK rest
      then thenA (handle (event_at rest)) (walk_events handle (drop (event_len rest) rest))
      else retA ())"
  by auto
termination
  by (relation "measure (\<lambda>(handle, rest). length rest)") (auto simp: FAN_EVENT_OK_def)

declare walk_events.simps [simp del]

subsection \<open>Marks, the loop, the end\<close>

text \<open>\<open>paths[i + 1]\<close> is \<open>argv[i + 1]\<close>; \<open>malloc\<close> is taken to succeed.\<close>

fun add_marks :: "fan_env \<Rightarrow> nat \<Rightarrow> cstring list \<Rightarrow> bool fan_act" where
  "add_marks e i [] = retA True"
| "add_marks e i (p # ps) =
     thenA (modifyA (\<lambda>w. w\<lparr>monitors := map_option (\<lambda>ms. ms[i := Some p]) (monitors w)\<rparr>)) (
       if mark_ok e p
       then thenA (modifyA (\<lambda>w. w\<lparr>marks := marks w @ [p]\<rparr>)) (
            thenA (print (''Started monitoring directory '' @ [CHR 0x27] @ p @ [CHR 0x27] @ ''...'' @ [LF]))
              (add_marks e (Suc i) ps))
       else retA False)"

definition initialize_fanotify :: "fan_env \<Rightarrow> cstring list \<Rightarrow> int fan_act" where
  "initialize_fanotify e paths =
     (if init_fd e < 0 then retA (- 1)
      else thenA (modifyA (\<lambda>w. w\<lparr>descs := descs w @ [init_fd e],
             monitors := Some (replicate (length paths) None)\<rparr>)) (
           bindA (add_marks e 0 paths) (\<lambda>ok. retA (if ok then init_fd e else - 1))))"

text \<open>What \<open>poll\<close> and \<open>read\<close> give, round by round; the kernel has opened the descriptors of the events.\<close>

datatype fan_round = Poll_Error cstring | Nothing_To_Read | Events_Read "8 word list" "int list"

fun notify_loop :: "(fan_event \<Rightarrow> unit fan_act) \<Rightarrow> fan_round list \<Rightarrow> unit fan_act" where
  "notify_loop handle [] = retA ()"
| "notify_loop handle (Poll_Error s # rs) =
     thenA (write_log Debug (take 511 (''Couldn'' @ [CHR 0x27] @ ''t poll(): '' @ [CHR 0x27] @ s @ [CHR 0x27])))
       exit_failure"
| "notify_loop handle (Nothing_To_Read # rs) = notify_loop handle rs"
| "notify_loop handle (Events_Read buf fds # rs) =
     thenA (modifyA (\<lambda>w. w\<lparr>descs := descs w @ fds\<rparr>)) (thenA (walk_events handle buf) (notify_loop handle rs))"

definition run_notify :: "fan_env \<Rightarrow> fan_round list \<Rightarrow> cstring list \<Rightarrow> unit fan_act" where
  "run_notify e rounds argv =
     (if length argv < 2 then exit_failure
      else thenA (modifyA (\<lambda>w. w\<lparr>fan_numbers := length argv - 1\<rparr>)) (
           bindA (initialize_fanotify e (tl argv)) (\<lambda>fd.
           thenA (modifyA (\<lambda>w. w\<lparr>fan_fd := fd\<rparr>)) (
             if fd < 0
             then thenA (write_log Debug (''Couldn'' @ [CHR 0x27] @ ''t initialize fanotify'')) exit_failure
             else notify_loop (one_event e) rounds))))"

text \<open>\<open>free\<close> of a pointer that was never set is undefined.\<close>

fun remove_marks :: "cstring option list \<Rightarrow> nat \<Rightarrow> nat \<Rightarrow> unit fan_act" where
  "remove_marks ms i 0 = retA ()"
| "remove_marks ms i (Suc n) =
     (if i < length ms
      then case ms ! i of
             None \<Rightarrow> failA (Undefined Indeterminate_Value)
           | Some p \<Rightarrow> thenA (modifyA (\<lambda>w. w\<lparr>marks := remove1 p (marks w)\<rparr>)) (remove_marks ms (Suc i) n)
      else failA (Undefined Out_Of_Range))"

definition shutdown_fanotify :: "nat \<Rightarrow> int \<Rightarrow> unit fan_act" where
  "shutdown_fanotify n fd =
     bindA (readA monitors) (\<lambda>ms.
     thenA (case ms of
              None \<Rightarrow> if n = 0 then retA () else failA (Undefined Null_Pointer)
            | Some xs \<Rightarrow> remove_marks xs 0 n) (close_fd fd))"

definition destroy_notificator :: "unit fan_act" where
  "destroy_notificator =
     bindA (readA (\<lambda>w. (fan_numbers w, fan_fd w))) (\<lambda>(n, fd).
     seqA [shutdown_fanotify n fd, print (''Exiting fanotify example...'' @ [LF]),
       write_log Debug ''LinuxNoficitator::~LinuxNoficitator''])"

subsection \<open>The walk handles the events the kernel wrote\<close>

fun le_bytes :: "nat \<Rightarrow> nat \<Rightarrow> 8 word list" where
  "le_bytes 0 v = []"
| "le_bytes (Suc n) v = word_of_nat v # le_bytes n (v div 256)"

lemma length_le_bytes [simp]: "length (le_bytes n v) = n"
  by (induction n arbitrary: v) simp_all

lemma le_value_bytes: "le_value (le_bytes n v) = v mod 256 ^ n"
  by (induction n arbitrary: v) (simp_all add: unat_of_nat mod_mult2_eq)

definition int_range :: "int \<Rightarrow> bool" where
  "int_range i \<longleftrightarrow> - (2 ^ 31) \<le> i \<and> i < 2 ^ 31"

lemma le_int_bytes:
  assumes "int_range i" shows "le_int (le_bytes 4 (nat (i mod 4294967296))) = i"
proof -
  have "(word_of_nat (nat (i mod 4294967296)) :: 32 word) = word_of_int (int (nat (i mod 4294967296)))"
    by (simp only: of_int_of_nat_eq)
  also have "\<dots> = word_of_int i"
    by (simp add: word_of_int_eq_iff take_bit_eq_mod)
  finally have "sint (word_of_nat (nat (i mod 4294967296)) :: 32 word) = signed_take_bit 31 i"
    by (simp add: signed_of_int)
  also have "\<dots> = i"
    using assms by (intro signed_take_bit_int_eq_self) (simp_all add: int_range_def)
  finally show ?thesis
    by (simp add: le_int_def le_value_bytes nat_mod_distrib)
qed

text \<open>An event as the kernel writes it, with \<open>extra\<close> bytes behind the structure.\<close>

definition event_bytes :: "fan_event \<times> 8 word list \<Rightarrow> 8 word list" where
  "event_bytes = (\<lambda>(ev, extra). le_bytes 4 (24 + length extra) @ [3, 0] @ le_bytes 2 24 @ le_bytes 8 (ev_mask ev) @
     le_bytes 4 (nat (ev_fd ev mod 2 ^ 32)) @ le_bytes 4 (nat (ev_pid ev mod 2 ^ 32)) @ extra)"

definition proper_event :: "fan_event \<times> 8 word list \<Rightarrow> bool" where
  "proper_event = (\<lambda>(ev, extra). ev_mask ev < 2 ^ 64 \<and> int_range (ev_fd ev) \<and> int_range (ev_pid ev) \<and>
     length extra < 2 ^ 32 - 24)"

lemma length_event_bytes: "length (event_bytes (ev, extra)) = 24 + length extra"
  by (simp add: event_bytes_def)

lemma event_bytes_read:
  assumes "proper_event (ev, extra)"
  shows "event_len (event_bytes (ev, extra) @ post) = 24 + length extra"
    and "event_at (event_bytes (ev, extra) @ post) = ev"
  using assms
  by (simp_all add: event_len_def event_at_def event_bytes_def proper_event_def le_value_bytes le_int_bytes)

lemma walk_event:
  assumes "proper_event x"
  shows "walk_events handle (event_bytes x @ post) = thenA (handle (fst x)) (walk_events handle post)"
proof -
  obtain ev extra where x: "x = (ev, extra)" by fastforce
  have "FAN_EVENT_OK (event_bytes x @ post)"
    using assms by (simp add: x FAN_EVENT_OK_def event_bytes_read length_event_bytes)
  then show ?thesis
    using assms by (subst walk_events.simps) (simp add: x event_bytes_read length_event_bytes)
qed

lemma walk_written:
  assumes "list_all proper_event evs" and "\<not> FAN_EVENT_OK post"
  shows "walk_events handle (concat (map event_bytes evs) @ post) = seqA (map (handle \<circ> fst) evs)"
  using assms by (induction evs) (simp_all add: walk_event walk_events.simps [of handle post] comp_def)

subsection \<open>Descriptors\<close>

lemma free_fd_fresh: "free_fd ds \<notin> set ds"
proof -
  have "\<exists>i < Suc (length ds). int i \<notin> set ds"
  proof (rule ccontr)
    assume "\<not> (\<exists>i < Suc (length ds). int i \<notin> set ds)"
    then have "int ` {..length ds} \<subseteq> set ds" by (auto simp: less_Suc_eq_le)
    then have "card (int ` {..length ds}) \<le> card (set ds)" by (intro card_mono) simp_all
    also have "\<dots> \<le> length ds" by (rule card_length)
    finally show False by (simp add: card_image)
  qed
  then have "find (\<lambda>i. int i \<notin> set ds) [0..<Suc (length ds)] \<noteq> None"
    by (auto simp: find_None_iff simp del: upt_Suc)
  then obtain i where i: "find (\<lambda>i. int i \<notin> set ds) [0..<Suc (length ds)] = Some i" by blast
  then have "int i \<notin> set ds" by (auto simp: find_Some_iff simp del: upt_Suc)
  with i show ?thesis by (simp add: free_fd_def del: upt_Suc)
qed

lemma wp_print [effect_simps]: "wp (print s) Q E w = Q () (w\<lparr>printed := printed w @ [s]\<rparr>)"
  by (simp add: print_def effect_simps)

lemma wp_close_fd [effect_simps]:
  "wp (close_fd fd) Q E w = Q () (if fd \<in> set (descs w) then w\<lparr>descs := remove1 fd (descs w)\<rparr>
     else w\<lparr>bad_closes := bad_closes w + 1\<rparr>)"
  by (simp add: close_fd_def effect_simps)

text \<open>The descriptor of \<open>/proc/PID/cmdline\<close> is closed again.\<close>

lemma wp_get_program_name [effect_simps]:
  "wp (get_program_name_from_pid e pid) Q E w =
     Q (case cmdline e pid of None \<Rightarrow> None
        | Some content \<Rightarrow> (let s = take (PATH_MAX - 1) content in
            if s = [] then None else Some (before_caret (c_str s)))) w"
  by (simp add: get_program_name_from_pid_def open_fd_def effect_simps Let_def remove1_append free_fd_fresh
      split: option.split)

text \<open>What the closes of one event leave: the descriptor is closed once, and once too often.\<close>

definition event_view :: "fan_world \<Rightarrow> int list \<times> nat \<times> (log_level \<times> cstring) list" where
  "event_view w = (descs w, bad_closes w, log w)"

lemma one_event_view:
  assumes "descs w = D @ ev_fd ev # R" and "ev_fd ev \<notin> set D \<union> set R" and "0 < ev_fd ev"
  shows "wp (one_event e ev) (\<lambda>_ w'. event_view w' =
      (D @ R, bad_closes w + 1, log w @ [(Debug, take 511 (received e (ev_fd ev)))])) (\<lambda>_ _. False) w"
  using assms by (simp add: one_event_def event_process_def effect_simps event_view_def remove1_append)

lemma events_view:
  assumes "descs w = D @ map ev_fd evs" and "distinct (map ev_fd evs)" and "set D \<inter> set (map ev_fd evs) = {}"
    and "list_all (\<lambda>ev. 0 < ev_fd ev) evs"
  shows "wp (seqA (map (one_event e) evs)) (\<lambda>_ w'. event_view w' =
      (D, bad_closes w + length evs, log w @ map (\<lambda>ev. (Debug, take 511 (received e (ev_fd ev)))) evs))
      (\<lambda>_ _. False) w"
  using assms
proof (induction evs arbitrary: w)
  case Nil
  then show ?case by (simp add: effect_simps event_view_def)
next
  case (Cons ev evs)
  have "wp (one_event e ev) (\<lambda>_ w'. event_view w' =
      (D @ map ev_fd evs, bad_closes w + 1, log w @ [(Debug, take 511 (received e (ev_fd ev)))])) (\<lambda>_ _. False) w"
    using Cons.prems by (intro one_event_view) auto
  then have "wp (one_event e ev) (\<lambda>_ w1. wp (seqA (map (one_event e) evs)) (\<lambda>_ w'. event_view w' =
      (D, bad_closes w + length (ev # evs), log w @ map (\<lambda>ev. (Debug, take 511 (received e (ev_fd ev)))) (ev # evs)))
      (\<lambda>_ _. False) w1) (\<lambda>_ _. False) w"
  proof (rule wp_mono)
    fix u w1
    assume "event_view w1 = (D @ map ev_fd evs, bad_closes w + 1, log w @ [(Debug, take 511 (received e (ev_fd ev)))])"
    then show "wp (seqA (map (one_event e) evs)) (\<lambda>_ w'. event_view w' =
      (D, bad_closes w + length (ev # evs), log w @ map (\<lambda>ev. (Debug, take 511 (received e (ev_fd ev)))) (ev # evs)))
      (\<lambda>_ _. False) w1"
      using Cons.IH [of w1] Cons.prems by (simp add: event_view_def)
  qed
  then show ?case by (simp add: effect_simps)
qed

text \<open>
  C35: when the kernel has written events with new descriptors into the buffer, the loop handles
  exactly these, in order: one message each, and in the end just their descriptors are closed
  again; each was closed a second time, which fails.
\<close>

theorem notify_round_handles:
  assumes "list_all proper_event evs" and "list_all (\<lambda>x. 0 < ev_fd (fst x)) evs"
    and "distinct (map (ev_fd \<circ> fst) evs)" and "set (descs w) \<inter> set (map (ev_fd \<circ> fst) evs) = {}"
  shows "wp (notify_loop (one_event e) [Events_Read (concat (map event_bytes evs)) (map (ev_fd \<circ> fst) evs)])
    (\<lambda>_ w'. descs w' = descs w \<and> bad_closes w' = bad_closes w + length evs \<and>
       log w' = log w @ map (\<lambda>x. (Debug, take 511 (received e (ev_fd (fst x))))) evs)
    (\<lambda>_ _. False) w"
proof -
  let ?w = "w\<lparr>descs := descs w @ map (ev_fd \<circ> fst) evs\<rparr>"
  have walk: "walk_events (one_event e) (concat (map event_bytes evs)) = seqA (map (one_event e) (map fst evs))"
    using walk_written [OF assms(1), of "[]" "one_event e"] by (simp add: FAN_EVENT_OK_def)
  have "wp (seqA (map (one_event e) (map fst evs))) (\<lambda>_ w'. event_view w' =
      (descs w, bad_closes ?w + length (map fst evs), log ?w @ map (\<lambda>ev. (Debug, take 511 (received e (ev_fd ev)))) (map fst evs)))
      (\<lambda>_ _. False) ?w"
    using assms(2-4) by (intro events_view) (auto simp: list_all_iff)
  then show ?thesis
    unfolding notify_loop.simps walk by (simp add: effect_simps event_view_def comp_def)
qed

definition some_env :: fan_env where
  "some_env = \<lparr>cmdline = (\<lambda>pid. if pid = 42 then Some ''vim'' else None), link = (\<lambda>fd. Some ''/etc/passwd''),
     init_fd = 3, mark_ok = (\<lambda>_. True)\<rparr>"

definition zero_world :: fan_world where
  "zero_world = logged.extend \<lparr>log = []\<rparr> (fan_world.fields [0, 1, 2] 0 [] [] None 0 0 None 0)"

theorem notify_round_handles_witness:
  "wp (notify_loop (one_event some_env) [Events_Read (concat (map event_bytes
        [(\<lparr>ev_mask = 32, ev_fd = 7, ev_pid = 42\<rparr>, []), (\<lparr>ev_mask = 8, ev_fd = 9, ev_pid = 1\<rparr>, [0, 0])])) [7, 9]])
    (\<lambda>_ w'. descs w' = [0, 1, 2] \<and> bad_closes w' = Suc (Suc 0) \<and>
       log w' = map (\<lambda>fd. (Debug, take 511 (received some_env fd))) [7, 9])
    (\<lambda>_ _. False) zero_world"
  using notify_round_handles [of "[(\<lparr>ev_mask = 32, ev_fd = 7, ev_pid = 42\<rparr>, []), (\<lparr>ev_mask = 8, ev_fd = 9, ev_pid = 1\<rparr>, [0, 0])]"
      zero_world some_env]
  by (simp add: proper_event_def int_range_def zero_world_def logged.defs fan_world.defs)

subsection \<open>Ending a notificator that could not be set up\<close>

definition setup_view :: "fan_env \<Rightarrow> nat \<Rightarrow> nat \<Rightarrow> cstring list \<Rightarrow> fan_world \<Rightarrow> bool" where
  "setup_view e n k ps w \<longleftrightarrow> fan_numbers w = n \<and>
     (\<exists>ms. monitors w = Some ms \<and> length ms = k + length ps \<and>
       (None \<in> set ms \<longleftrightarrow> \<not> list_all (mark_ok e) (butlast ps)))"

lemma add_marks_run:
  "monitors w = Some (map Some qs @ replicate (length ps) None) \<Longrightarrow>
   wp (add_marks e (length qs) ps)
     (\<lambda>ok w'. ok = list_all (mark_ok e) ps \<and> setup_view e (fan_numbers w) (length qs) ps w')
     (\<lambda>_ _. False) w"
proof (induction ps arbitrary: qs w)
  case Nil
  then show ?case by (auto simp: effect_simps setup_view_def)
next
  case (Cons p ps)
  have set_p: "map_option (\<lambda>ms. ms[length qs := Some p]) (monitors w) = Some (map Some (qs @ [p]) @ replicate (length ps) None)"
    by (simp add: Cons.prems list_update_append)
  show ?case
  proof (cases "mark_ok e p")
    case False
    then show ?thesis by (auto simp: effect_simps set_p setup_view_def)
  next
    case True
    let ?u = "w\<lparr>monitors := Some (map Some (qs @ [p]) @ replicate (length ps) None), marks := marks w @ [p],
      printed := printed w @ [''Started monitoring directory '' @ [CHR 0x27] @ p @ [CHR 0x27] @ ''...'' @ [LF]]\<rparr>"
    have ih: "wp (add_marks e (length (qs @ [p])) ps)
     (\<lambda>ok w'. ok = list_all (mark_ok e) ps \<and> setup_view e (fan_numbers ?u) (length (qs @ [p])) ps w')
     (\<lambda>_ _. False) ?u"
      by (rule Cons.IH) simp
    have "wp (add_marks e (length (qs @ [p])) ps)
     (\<lambda>ok w'. ok = list_all (mark_ok e) (p # ps) \<and> setup_view e (fan_numbers w) (length qs) (p # ps) w')
     (\<lambda>_ _. False) ?u"
      by (rule wp_mono [OF ih]) (auto simp: True setup_view_def)
    then show ?thesis by (simp add: effect_simps set_p True)
  qed
qed

lemma wp_remove_marks:
  "i + n = length ms \<Longrightarrow>
   wp (remove_marks ms i n) (\<lambda>_ _. None \<notin> set (drop i ms))
     (\<lambda>f _. f = Undefined Indeterminate_Value \<and> None \<in> set (drop i ms)) w"
  by (induction n arbitrary: i w)
    (auto simp: effect_simps Cons_nth_drop_Suc [symmetric] split: option.split elim!: wp_mono)

text \<open>
  When monitoring cannot be set up the process exits with status 1; the destructor of the
  object, which then runs, is defined only when the one path that could not be marked was the
  last: otherwise it frees pointers that were never set.
\<close>

lemma exit_after_failed_setup:
  assumes "monitors w = None" and "2 \<le> length argv" and "\<not> (0 \<le> init_fd e \<and> list_all (mark_ok e) (tl argv))"
  shows "wp (run_notify e rounds argv) (\<lambda>_ _. False)
    (\<lambda>f w1. f = No_Return \<and> exit_status w1 = Some 1 \<and>
       wp destroy_notificator
         (\<lambda>_ _. 0 \<le> init_fd e \<and> list_all (mark_ok e) (butlast (tl argv)))
         (\<lambda>f _. f = Undefined (if init_fd e < 0 then Null_Pointer else Indeterminate_Value) \<and>
            \<not> (0 \<le> init_fd e \<and> list_all (mark_ok e) (butlast (tl argv)))) w1) w"
proof (cases "init_fd e < 0")
  case True
  with assms show ?thesis
    by (simp add: run_notify_def initialize_fanotify_def exit_failure_def destroy_notificator_def
        shutdown_fanotify_def effect_simps)
next
  case False
  let ?ps = "tl argv"
  let ?u = "w\<lparr>fan_numbers := length argv - 1, descs := descs w @ [init_fd e],
    monitors := Some (replicate (length ?ps) None)\<rparr>"
  have marking: "wp (add_marks e (length ([] :: cstring list)) ?ps)
      (\<lambda>ok w'. ok = list_all (mark_ok e) ?ps \<and> setup_view e (fan_numbers ?u) (length ([] :: cstring list)) ?ps w')
      (\<lambda>_ _. False) ?u"
    by (rule add_marks_run) simp
  have run: "wp (add_marks e (length ([] :: cstring list)) ?ps)
      (\<lambda>ok w'. \<not> ok \<and> setup_view e (length ?ps) 0 ?ps w') (\<lambda>_ _. False) ?u"
    by (rule wp_mono [OF marking]) (use assms(3) False in \<open>auto\<close>)
  have destroy: "wp destroy_notificator (\<lambda>_ _. list_all (mark_ok e) (butlast ?ps))
      (\<lambda>f _. f = Undefined Indeterminate_Value \<and> \<not> list_all (mark_ok e) (butlast ?ps)) v"
    if v: "setup_view e (length ?ps) 0 ?ps v" for v
  proof -
    from v obtain ms where ms: "monitors v = Some ms" "length ms = length ?ps" "fan_numbers v = length ?ps"
      "None \<in> set ms \<longleftrightarrow> \<not> list_all (mark_ok e) (butlast ?ps)"
      by (auto simp: setup_view_def)
    have "wp (remove_marks ms 0 (length ?ps)) (\<lambda>_ _. None \<notin> set ms)
        (\<lambda>f _. f = Undefined Indeterminate_Value \<and> None \<in> set ms) v"
      using wp_remove_marks [of 0 "length ?ps" ms v] ms(2) by simp
    with ms show ?thesis
      by (simp add: destroy_notificator_def shutdown_fanotify_def effect_simps)
  qed
  have "wp (add_marks e (length ([] :: cstring list)) ?ps) (\<lambda>ok w'. \<not> ok \<and>
      wp destroy_notificator (\<lambda>_ _. list_all (mark_ok e) (butlast ?ps))
        (\<lambda>f _. f = Undefined Indeterminate_Value \<and> \<not> list_all (mark_ok e) (butlast ?ps))
        (w'\<lparr>fan_fd := - 1, log := log w' @ [(Debug, ''Couldn'' @ [CHR 0x27] @ ''t initialize fanotify'')],
           exit_status := Some 1\<rparr>))
      (\<lambda>_ _. False) ?u"
    by (rule wp_mono [OF run]) (auto intro!: destroy simp: setup_view_def)
  then show ?thesis
    using assms False
    by (simp add: run_notify_def initialize_fanotify_def exit_failure_def effect_simps cong: if_cong)
      (erule wp_mono, auto)
qed

lemma exit_after_failed_setup_witness:
  "wp (run_notify (some_env\<lparr>mark_ok := (\<lambda>p. p \<noteq> ''/no'')\<rparr>) [] [''notify'', ''/etc'', ''/no'', ''/home'']) (\<lambda>_ _. False)
    (\<lambda>f w1. f = No_Return \<and> exit_status w1 = Some 1 \<and>
       wp destroy_notificator (\<lambda>_ _. False) (\<lambda>f _. f = Undefined Indeterminate_Value) w1) zero_world"
  using exit_after_failed_setup [of zero_world "[''notify'', ''/etc'', ''/no'', ''/home'']"
      "some_env\<lparr>mark_ok := (\<lambda>p. p \<noteq> ''/no'')\<rparr>" "[]"]
  by (simp add: zero_world_def logged.defs fan_world.defs some_env_def)

end
