(* ===== verification/Fan_Task.thy ===== *)
theory Fan_Task
  imports Fan_Notify
begin

section \<open>The fanotify notificator as a task\<close>

text \<open>
  \<open>nx_service/notificator_linux.cpp\<close>: the notificator again, now a class derived from
  \<open>ACE_Task_Base\<close> whose thread runs the loop.  The class has a member \<open>close\<close>, which hides the
  function of the system: no descriptor is closed.  \<open>base_name\<close> is \<open>Files::get_file_name_from_path\<close>,
  which the repository does not hold any more.  Kernel and descriptors are those of \<open>Fan_Notify\<close>.
\<close>

subsection \<open>One event\<close>

definition task_close :: "int \<Rightarrow> int fan_act" where
  "task_close arg = retA 0"

definition task_program_name :: "fan_env \<Rightarrow> int \<Rightarrow> cstring option fan_act" where
  "task_program_name e pid =
     (case cmdline e pid of
        None \<Rightarrow> retA None
      | Some content \<Rightarrow>
          bindA open_fd (\<lambda>fd.
          let s = take (PATH_MAX - 1) content
          in thenA (task_close fd) (retA (if s = [] then None else Some (before_caret (c_str s))))))"

text \<open>The result and what the buffer holds afterwards, \<open>None\<close> when it was not written.\<close>

definition task_file_path :: "fan_env \<Rightarrow> int \<Rightarrow> int \<times> cstring option" where
  "task_file_path e fd =
     (if fd \<le> 0 then (- 1, None)
      else case link e fd of
             None \<Rightarrow> (- 1, Some (''/proc/self/fd/'' @ show_int fd))
           | Some p \<Rightarrow> (0, Some (take (PATH_MAX - 1) p)))"

definition task_file_name :: "(cstring \<Rightarrow> cstring) \<Rightarrow> fan_env \<Rightarrow> int \<Rightarrow> cstring" where
  "task_file_name base_name e fd =
     (case task_file_path e fd of (r, Some p) \<Rightarrow> if r \<noteq> - 1 then base_name (c_str p) else [] | _ \<Rightarrow> [])"

text \<open>The result is taken for a truth value: 0, the success, gives \<open>unknown\<close>.\<close>

definition task_received :: "fan_env \<Rightarrow> int \<Rightarrow> cstring outcome" where
  "task_received e fd =
     (case task_file_path e fd of
        (r, path) \<Rightarrow>
          if r \<noteq> 0
          then (case path of
                  None \<Rightarrow> Inl (Undefined Indeterminate_Value)
                | Some p \<Rightarrow> Inr (''Received event in path '' @ [CHR 0x27] @ c_str p @ [CHR 0x27]))
          else Inr (''Received event in path '' @ [CHR 0x27] @ ''unknown'' @ [CHR 0x27]))"

definition task_mask_lines :: "nat \<Rightarrow> cstring list" where
  "task_mask_lines m =
     (if bit m 5 then [CHR 0x09 # ''FAN_OPEN'' @ [LF]] else []) @
     (if bit m 3 then [CHR 0x09 # ''FAN_CLOSE_WRITE'' @ [LF]] else [])"

definition task_event_process :: "(cstring \<Rightarrow> cstring) \<Rightarrow> fan_env \<Rightarrow> fan_event \<Rightarrow> unit fan_act" where
  "task_event_process base_name e ev =
     bindA (liftA (task_received e (ev_fd ev))) (\<lambda>s.
     seqA [write_log Debug (take 511 s),
       print (''File name is '' @ [CHR 0x27] @ c_str (task_file_name base_name e (ev_fd ev)) @ [CHR 0x27] @ '' '' @ [LF]),
       bindA (task_program_name e (ev_pid ev)) (\<lambda>name.
         print ('' pid='' @ show_int (ev_pid ev) @ '' ('' @ or_unknown name @ ''): '' @ [LF])),
       modifyA (\<lambda>w. w\<lparr>printed := printed w @ task_mask_lines (ev_mask ev)\<rparr>),
       thenA (task_close (ev_fd ev)) (retA ())])"

definition task_one_event :: "(cstring \<Rightarrow> cstring) \<Rightarrow> fan_env \<Rightarrow> fan_event \<Rightarrow> unit fan_act" where
  "task_one_event base_name e ev =
     thenA (task_event_process base_name e ev) (if ev_fd ev > 0 then thenA (task_close (ev_fd ev)) (retA ()) else retA ())"

subsection \<open>The task\<close>

text \<open>The loop of the thread, and the handler of the reactor, which takes one round.\<close>

definition task_svc :: "(cstring \<Rightarrow> cstring) \<Rightarrow> fan_env \<Rightarrow> fan_round list \<Rightarrow> unit fan_act" where
  "task_svc base_name e rounds = notify_loop (task_one_event base_name e) rounds"

definition task_handle_input :: "(cstring \<Rightarrow> cstring) \<Rightarrow> fan_env \<Rightarrow> fan_round \<Rightarrow> int fan_act" where
  "task_handle_input base_name e r =
     thenA (print (CHR 0x09 # ''LinuxNoficitator::handle_inputLinuxNoficitator::handle_input'' @ [LF]))
       (thenA (notify_loop (task_one_event base_name e) [r]) (retA 0))"

text \<open>Every argument is a path here; the thread that \<open>activate\<close> starts runs \<open>task_svc\<close>.\<close>

definition task_run_notify :: "fan_env \<Rightarrow> cstring list \<Rightarrow> int fan_act" where
  "task_run_notify e argv =
     thenA (modifyA (\<lambda>w. w\<lparr>fan_numbers := length argv\<rparr>)) (
     bindA (initialize_fanotify e argv) (\<lambda>fd.
     thenA (modifyA (\<lambda>w. w\<lparr>fan_fd := fd\<rparr>)) (
       if fd < 0
       then thenA (write_log Debug (''Couldn'' @ [CHR 0x27] @ ''t initialize fanotify'')) exit_failure
       else thenA (modifyA (\<lambda>w. w\<lparr>fan_threads := fan_threads w + 1\<rparr>)) (retA 0))))"

definition task_shutdown_fanotify :: "nat \<Rightarrow> int \<Rightarrow> unit fan_act" where
  "task_shutdown_fanotify n fd =
     bindA (readA monitors) (\<lambda>ms.
     thenA (case ms of
              None \<Rightarrow> if n = 0 then retA () else failA (Undefined Null_Pointer)
            | Some xs \<Rightarrow> remove_marks xs 0 n) (thenA (task_close fd) (retA ())))"

definition task_destroy :: "unit fan_act" where
  "task_destroy =
     bindA (readA (\<lambda>w. (fan_numbers w, fan_fd w))) (\<lambda>(n, fd).
     seqA [task_shutdown_fanotify n fd, print (''Exiting fanotify example...'' @ [LF]),
       write_log Debug ''LinuxNoficitator::~LinuxNoficitator''])"

subsection \<open>Descriptors stay open\<close>

text \<open>The queue of the kernel overflows: an event without a descriptor prints a buffer never written.\<close>

lemma overflow_event_undefined:
  "ev_fd ev \<le> 0 \<Longrightarrow>
     wp (task_one_event base_name e ev) (\<lambda>_ _. False) (\<lambda>f _. f = Undefined Indeterminate_Value) w"
  by (simp add: task_one_event_def task_event_process_def task_received_def task_file_path_def effect_simps)

lemma wp_task_program_name [effect_simps]:
  "wp (task_program_name e pid) Q E w =
     (case cmdline e pid of None \<Rightarrow> Q None w
      | Some content \<Rightarrow> (let s = take (PATH_MAX - 1) content in
          Q (if s = [] then None else Some (before_caret (c_str s))) (w\<lparr>descs := descs w @ [free_fd (descs w)]\<rparr>)))"
  by (auto simp: task_program_name_def task_close_def open_fd_def effect_simps Let_def split: option.split)

text \<open>What one event leaves open: its descriptor, and that of the command line of the process.\<close>

definition opened_for :: "fan_env \<Rightarrow> fan_event \<Rightarrow> nat" where
  "opened_for e ev = (case cmdline e (ev_pid ev) of None \<Rightarrow> 0 | Some _ \<Rightarrow> 1)"

definition leaves_open :: "fan_world \<Rightarrow> nat \<Rightarrow> fan_world \<Rightarrow> bool" where
  "leaves_open w n w' \<longleftrightarrow> prefix (descs w) (descs w') \<and> length (descs w') = length (descs w) + n"

lemma task_one_event_leaves:
  assumes "0 < ev_fd ev"
  shows "wp (task_one_event base_name e ev) (\<lambda>_. leaves_open w (opened_for e ev)) (\<lambda>_ _. False) w"
  using assms
  by (simp add: task_one_event_def task_event_process_def task_received_def task_file_path_def task_close_def
      effect_simps leaves_open_def opened_for_def Let_def split: option.split)

lemma task_events_leave:
  "list_all (\<lambda>ev. 0 < ev_fd ev) evs \<Longrightarrow>
   wp (seqA (map (task_one_event base_name e) evs)) (\<lambda>_. leaves_open w (sum_list (map (opened_for e) evs)))
     (\<lambda>_ _. False) w"
proof (induction evs arbitrary: w)
  case Nil
  then show ?case by (simp add: effect_simps leaves_open_def)
next
  case (Cons ev evs)
  have "wp (task_one_event base_name e ev) (\<lambda>_ w1. wp (seqA (map (task_one_event base_name e) evs))
      (\<lambda>_. leaves_open w (sum_list (map (opened_for e) (ev # evs)))) (\<lambda>_ _. False) w1) (\<lambda>_ _. False) w"
  proof (rule wp_mono [OF task_one_event_leaves])
    fix u w1
    assume one: "leaves_open w (opened_for e ev) w1"
    from Cons.prems have "list_all (\<lambda>ev. 0 < ev_fd ev) evs" by simp
    from Cons.IH [OF this, of w1]
    show "wp (seqA (map (task_one_event base_name e) evs))
      (\<lambda>_. leaves_open w (sum_list (map (opened_for e) (ev # evs)))) (\<lambda>_ _. False) w1"
      by (rule wp_mono) (use one in \<open>auto simp: leaves_open_def\<close>)
  qed (use Cons.prems in auto)
  then show ?case by (simp add: effect_simps)
qed

text \<open>
  A round of the thread over events with descriptors leaves every descriptor of the events
  open, and one more for each event whose process has a command line.
\<close>

lemma task_round_leaks:
  assumes "list_all proper_event evs" and "list_all (\<lambda>x. 0 < ev_fd (fst x)) evs"
  shows "wp (task_svc base_name e [Events_Read (concat (map event_bytes evs)) (map (ev_fd \<circ> fst) evs)])
    (\<lambda>_ w'. prefix (descs w @ map (ev_fd \<circ> fst) evs) (descs w') \<and>
       length (descs w') = length (descs w) + length evs + sum_list (map (opened_for e \<circ> fst) evs))
    (\<lambda>_ _. False) w"
proof -
  let ?w = "w\<lparr>descs := descs w @ map (ev_fd \<circ> fst) evs\<rparr>"
  have walk: "walk_events (task_one_event base_name e) (concat (map event_bytes evs)) =
      seqA (map (task_one_event base_name e) (map fst evs))"
    using walk_written [OF assms(1), of "[]"] by (simp add: FAN_EVENT_OK_def)
  have "wp (seqA (map (task_one_event base_name e) (map fst evs)))
      (\<lambda>_. leaves_open ?w (sum_list (map (opened_for e) (map fst evs)))) (\<lambda>_ _. False) ?w"
    using assms(2) by (intro task_events_leave) (simp add: list_all_iff)
  then have "wp (seqA (map (task_one_event base_name e) (map fst evs)))
      (\<lambda>_ w'. prefix (descs w @ map (ev_fd \<circ> fst) evs) (descs w') \<and>
         length (descs w') = length (descs w) + length evs + sum_list (map (opened_for e \<circ> fst) evs))
      (\<lambda>_ _. False) ?w"
    by (rule wp_mono) (simp_all add: leaves_open_def)
  then show ?thesis
    unfolding task_svc_def notify_loop.simps walk by (simp add: effect_simps)
qed

lemma task_round_leaks_witness:
  "wp (task_svc id some_env [Events_Read (concat (map event_bytes
        [(\<lparr>ev_mask = 32, ev_fd = 7, ev_pid = 42\<rparr>, []), (\<lparr>ev_mask = 8, ev_fd = 9, ev_pid = 1\<rparr>, [0, 0])])) [7, 9]])
    (\<lambda>_ w'. prefix [0, 1, 2, 7, 9] (descs w') \<and> length (descs w') = length (descs zero_world) + Suc (Suc 0) + 1) (\<lambda>_ _. False) zero_world"
  using task_round_leaks [of "[(\<lparr>ev_mask = 32, ev_fd = 7, ev_pid = 42\<rparr>, []), (\<lparr>ev_mask = 8, ev_fd = 9, ev_pid = 1\<rparr>, [0, 0])]"
      id some_env zero_world]
  by (simp add: proper_event_def int_range_def zero_world_def some_env_def opened_for_def logged.defs fan_world.defs)

end
