(* ===== verification/Nt_Config.thy ===== *)
theory Nt_Config
  imports Agent_Effects
begin

section \<open>The Windows service: watching the configuration file\<close>

text \<open>
  \<open>nt_service/config_change.h\<close> and \<open>nt_service/config_change.cpp\<close>: the thread that reads the
  changes of the service's directory, and the walk over the buffer Windows fills with them.
  Bytes are 8-bit words, wide characters 16-bit words; numbers in the buffer are little-endian.
  Log messages are not modelled.
\<close>

type_synonym bytes = "8 word list"
type_synonym wide = "16 word list"

definition MAX_PATH :: nat where "MAX_PATH = 260"

subsection \<open>Reading the buffer\<close>

definition read_u16 :: "bytes \<Rightarrow> nat \<Rightarrow> 16 word outcome" where
  "read_u16 buf i =
     (if i + 2 \<le> length buf
      then Inr (of_nat (unat (buf ! i) + 256 * unat (buf ! (i + 1))))
      else Inl (Undefined Out_Of_Range))"

definition read_u32 :: "bytes \<Rightarrow> nat \<Rightarrow> nat outcome" where
  "read_u32 buf i =
     (if i + 4 \<le> length buf
      then Inr (unat (buf ! i) + 256 * unat (buf ! (i + 1)) + 65536 * unat (buf ! (i + 2)) +
        16777216 * unat (buf ! (i + 3)))
      else Inl (Undefined Out_Of_Range))"

text \<open>The string \<open>wcsncpy\<close> copies from byte \<open>i\<close>: at most \<open>k\<close> characters, up to a zero.\<close>

fun read_name :: "bytes \<Rightarrow> nat \<Rightarrow> nat \<Rightarrow> wide outcome" where
  "read_name buf i 0 = Inr []"
| "read_name buf i (Suc k) =
     (case read_u16 buf i of
        Inl u \<Rightarrow> Inl u
      | Inr c \<Rightarrow>
          if c = 0 then Inr []
          else (case read_name buf (i + 2) k of Inl u \<Rightarrow> Inl u | Inr s \<Rightarrow> Inr (c # s)))"

definition wide_str :: "wide \<Rightarrow> wide" where
  "wide_str s = takeWhile (\<lambda>c. c \<noteq> 0) s"

text \<open>
  \<open>processing\<close>: the action of the first entry that names the file, \<open>None\<close> when there is none.
  \<open>seek\<close> is a \<open>DWORD\<close> and wraps, so a hostile buffer may keep the walk going for ever: then the
  function has no value.
\<close>

partial_function (option) scan_entries ::
    "bytes \<Rightarrow> wide \<Rightarrow> nat \<Rightarrow> nat option outcome option" where
  "scan_entries buf name seek =
     (if seek \<ge> length buf then Some (Inr None)
      else case read_u32 buf (seek + 4) of
        Inl u \<Rightarrow> Some (Inl u)
      | Inr action \<Rightarrow>
          if action > 5 then Some (Inr None)
          else case read_u32 buf seek of
            Inl u \<Rightarrow> Some (Inl u)
          | Inr next_offset \<Rightarrow>
              (case read_u32 buf (seek + 8) of
                 Inl u \<Rightarrow> Some (Inl u)
               | Inr len \<Rightarrow>
                   if len div 2 \<ge> MAX_PATH then Some (Inl (Undefined Buffer_Overflow))
                   else case read_name buf (seek + 12) (len div 2) of
                     Inl u \<Rightarrow> Some (Inl u)
                   | Inr fname \<Rightarrow>
                       if fname = wide_str name then Some (Inr (Some action))
                       else if next_offset = 0 then Some (Inr None)
                       else scan_entries buf name ((seek + next_offset) mod 2 ^ 32)))"

definition processing :: "bytes \<Rightarrow> wide \<Rightarrow> nat option outcome option" where
  "processing buf name = scan_entries buf name 0"

subsection \<open>The watcher thread\<close>

text \<open>
  \<open>handle_\<close> is one variable; \<open>cw_handles\<close> counts the directory handles opened and not closed.
  The two events are auto-reset events.
\<close>

record config_watcher =
  cw_stop :: bool
  cw_handles :: nat
  cw_buffers :: nat
  cw_event :: bool
  cw_active :: bool

text \<open>What one round of the loop meets: the directory cannot be opened, a change, a failed wait.\<close>

datatype round = Open_Failed | Changed bytes | Wait_Failed

definition create_file :: "bool \<Rightarrow> config_watcher \<Rightarrow> int \<times> config_watcher" where
  "create_file found w = (if found then (0, w\<lparr>cw_handles := cw_handles w + 1\<rparr>) else (-1, w))"

definition watch_round :: "wide \<Rightarrow> round \<Rightarrow> config_watcher \<Rightarrow> config_watcher outcome option" where
  "watch_round name r w =
     (case create_file (r \<noteq> Open_Failed) w of
        (n, w1) \<Rightarrow>
          if n = -1 then Some (Inr (w1\<lparr>cw_stop := True\<rparr>))
          else case r of
            Changed buf \<Rightarrow>
              (case processing buf name of
                 None \<Rightarrow> None
               | Some (Inl u) \<Rightarrow> Some (Inl u)
               | Some (Inr None) \<Rightarrow> Some (Inr w1)
               | Some (Inr (Some action)) \<Rightarrow>
                   Some (Inr (w1\<lparr>cw_event := True, cw_stop := True, cw_handles := cw_handles w1 - 1\<rparr>)))
          | _ \<Rightarrow> Some (Inr (w1\<lparr>cw_buffers := cw_buffers w1 + 1, cw_stop := True\<rparr>)))"

text \<open>\<open>svc\<close>, up to the rounds given: \<open>True\<close> with the state when the thread has ended.\<close>

fun watch_loop ::
    "wide \<Rightarrow> round list \<Rightarrow> config_watcher \<Rightarrow> (bool \<times> config_watcher) outcome option" where
  "watch_loop name rounds w =
     (if cw_stop w then Some (Inr (True, w\<lparr>cw_active := True\<rparr>))
      else case rounds of
        [] \<Rightarrow> Some (Inr (False, w))
      | r # rs \<Rightarrow>
          (case watch_round name r w of
             None \<Rightarrow> None
           | Some (Inl u) \<Rightarrow> Some (Inl u)
           | Some (Inr w') \<Rightarrow> watch_loop name rs w'))"

declare watch_loop.simps [simp del]

definition watch_svc ::
    "wide \<Rightarrow> round list \<Rightarrow> config_watcher \<Rightarrow> (bool \<times> config_watcher) outcome option" where
  "watch_svc name rounds w = watch_loop name rounds (w\<lparr>cw_stop := False\<rparr>)"

subsection \<open>What Windows writes\<close>

text \<open>
  An entry: its action, the name of the file and the padding before the next entry, which
  begins at the offset the entry gives; the last one gives 0.
\<close>

definition put_u16 :: "16 word \<Rightarrow> bytes" where
  "put_u16 c = [of_nat (unat c), of_nat (unat c div 256)]"

definition put_u32 :: "nat \<Rightarrow> bytes" where
  "put_u32 n = [of_nat n, of_nat (n div 256), of_nat (n div 65536), of_nat (n div 16777216)]"

type_synonym notify_entry = "nat \<times> wide \<times> bytes"

definition encode_entry :: "bool \<Rightarrow> notify_entry \<Rightarrow> bytes" where
  "encode_entry final e =
     (case e of (action, fname, pad) \<Rightarrow>
        put_u32 (if final then 0 else 12 + 2 * length fname + length pad) @ put_u32 action @
        put_u32 (2 * length fname) @ concat (map put_u16 fname) @ pad)"

fun encode_entries :: "notify_entry list \<Rightarrow> bytes" where
  "encode_entries [] = []"
| "encode_entries [e] = encode_entry True e"
| "encode_entries (e # es) = encode_entry False e @ encode_entries es"

definition entry_ok :: "notify_entry \<Rightarrow> bool" where
  "entry_ok e \<longleftrightarrow>
     (case e of (action, fname, pad) \<Rightarrow> action \<le> 5 \<and> length fname < MAX_PATH \<and> 0 \<notin> set fname)"

fun first_action :: "wide \<Rightarrow> notify_entry list \<Rightarrow> nat option" where
  "first_action name [] = None"
| "first_action name ((action, fname, pad) # es) =
     (if fname = name then Some action else first_action name es)"

lemma split_256: "(n :: nat) mod 256 + 256 * (n div 256) = n"
  by (simp add: mult.commute)

lemma bytes_of_u32:
  fixes n :: nat
  assumes "n < 2 ^ 32"
  shows "n mod 256 + 256 * (n div 256 mod 256) + 65536 * (n div 65536 mod 256) +
    16777216 * (n div 16777216 mod 256) = n"
proof -
  have d: "n div 65536 = n div 256 div 256" "n div 16777216 = n div 256 div 256 div 256"
    by (simp_all flip: div_mult2_eq)
  have "n div 256 div 256 div 256 < 256" using assms by (simp flip: div_mult2_eq) 
  then have "n div 256 div 256 div 256 mod 256 = n div 256 div 256 div 256" by simp
  then show ?thesis
    unfolding d using split_256 [of n] split_256 [of "n div 256"] split_256 [of "n div 256 div 256"]
    by linarith
qed

lemma byte_of_nat: "unat (of_nat n :: 8 word) = n mod 256"
  by (simp add: unsigned_of_nat take_bit_eq_mod)

lemma read_u32_bytes:
  "read_u32 (pre @ [b0, b1, b2, b3] @ post) (length pre) =
     Inr (unat b0 + 256 * unat b1 + 65536 * unat b2 + 16777216 * unat b3)"
  by (simp add: read_u32_def nth_append)

lemma read_u32_put: "n < 2 ^ 32 \<Longrightarrow> read_u32 (pre @ put_u32 n @ post) (length pre) = Inr n"
  unfolding put_u32_def read_u32_bytes byte_of_nat by (simp only: bytes_of_u32)

lemma read_u16_bytes:
  "read_u16 (pre @ [b0, b1] @ post) (length pre) = Inr (of_nat (unat b0 + 256 * unat b1))"
  by (simp add: read_u16_def nth_append del: of_nat_add)

lemma read_u16_put: "read_u16 (pre @ put_u16 c @ post) (length pre) = Inr c"
proof -
  have "unat c < 2 ^ LENGTH(16)" by (rule unsigned_less)
  then have "unat c mod 256 + 256 * (unat c div 256 mod 256) = unat c"
    using split_256 [of "unat c"] by simp
  then have "read_u16 (pre @ put_u16 c @ post) (length pre) = Inr (of_nat (unat c))"
    unfolding put_u16_def read_u16_bytes byte_of_nat by (simp only:)
  then show ?thesis by simp
qed

lemma length_put [simp]: "length (put_u16 c) = 2" "length (put_u32 n) = 4"
  "length (concat (map put_u16 s)) = 2 * length s"
  by (simp_all add: put_u16_def put_u32_def length_concat o_def sum_list_triv)

lemma read_name_put:
  "0 \<notin> set s \<Longrightarrow> read_name (pre @ concat (map put_u16 s) @ post) (length pre) (length s) = Inr s"
proof (induction s arbitrary: pre)
  case (Cons c s)
  then have "read_name ((pre @ put_u16 c) @ concat (map put_u16 s) @ post) (length (pre @ put_u16 c)) (length s) = Inr s"
    by (intro Cons.IH) simp
  then show ?case
    using Cons.prems read_u16_put [of pre c "concat (map put_u16 s) @ post"] by auto
qed simp

lemma length_encode_entry: "length (encode_entry final (a, f, p)) = 12 + 2 * length f + length p"
  by (simp add: encode_entry_def)

text \<open>One entry of the walk.\<close>

lemma scan_one:
  assumes buf: "buf = pre @ encode_entry final (a, f, p) @ post"
    and ok: "entry_ok (a, f, p)" and len: "length buf < 2 ^ 32"
  shows "scan_entries buf name (length pre) =
    (if f = wide_str name then Some (Inr (Some a))
     else if final then Some (Inr None)
     else scan_entries buf name (length (pre @ encode_entry final (a, f, p))))"
proof -
  define off where "off = (if final then 0 else 12 + 2 * length f + length p)"
  have small: "off < 2 ^ 32" "2 * length f < 2 ^ 32" "a < 2 ^ 32" "a \<le> 5"
    using len ok by (auto simp: off_def buf length_encode_entry entry_ok_def MAX_PATH_def)
  have b: "buf = pre @ put_u32 off @ put_u32 a @ put_u32 (2 * length f) @ concat (map put_u16 f) @ p @ post"
    by (simp add: buf encode_entry_def off_def)
  have r0: "read_u32 buf (length pre) = Inr off"
    unfolding b by (rule read_u32_put [OF small(1)])
  have r1: "read_u32 buf (length pre + 4) = Inr a"
    using read_u32_put [OF small(3), of "pre @ put_u32 off"] by (simp add: b)
  have r2: "read_u32 buf (length pre + 8) = Inr (2 * length f)"
    using read_u32_put [OF small(2), of "pre @ put_u32 off @ put_u32 a"] by (simp add: b)
  have r3: "read_name buf (length pre + 12) (length f) = Inr f"
    using read_name_put [of f "pre @ put_u32 off @ put_u32 a @ put_u32 (2 * length f)"] ok
    by (simp add: b entry_ok_def)
  have "length pre < length buf" by (simp add: b)
  moreover have "(length pre + off) mod 2 ^ 32 = length pre + off"
    using len by (simp add: off_def buf length_encode_entry)
  ultimately show ?thesis
    using r0 r1 r2 r3 small ok
    by (subst scan_entries.simps) (auto simp: entry_ok_def off_def length_encode_entry)
qed

lemma scan_encoded:
  assumes "es \<noteq> []" "list_all entry_ok es" "buf = pre @ encode_entries es @ post" "length buf < 2 ^ 32"
  shows "scan_entries buf name (length pre) = Some (Inr (first_action (wide_str name) es))"
  using assms
proof (induction es arbitrary: pre)
  case (Cons e es)
  obtain a f p where e: "e = (a, f, p)" by (cases e)
  show ?case
  proof (cases "es = []")
    case True
    then show ?thesis
      using Cons.prems scan_one [of buf pre True a f p post name] by (simp add: e)
  next
    case False
    then have enc: "encode_entries (e # es) = encode_entry False e @ encode_entries es"
      by (cases es) auto
    then have buf: "buf = (pre @ encode_entry False (a, f, p)) @ encode_entries es @ post"
      using Cons.prems(3) by (simp add: e)
    have "scan_entries buf name (length (pre @ encode_entry False (a, f, p))) =
        Some (Inr (first_action (wide_str name) es))"
      using Cons.prems False buf by (intro Cons.IH) auto
    moreover have "scan_entries buf name (length pre) =
        (if f = wide_str name then Some (Inr (Some a)) else if False then Some (Inr None)
         else scan_entries buf name (length (pre @ encode_entry False (a, f, p))))"
      by (rule scan_one [where post = "encode_entries es @ post"]) (use Cons.prems buf e in auto)
    ultimately show ?thesis by (cases "f = wide_str name") (simp_all only: e first_action.simps simp_thms if_False if_True)
  qed
qed simp



text \<open>
  A file name of 260 characters or more overflows the buffer.
\<close>

lemma scan_overflow:
  assumes "seek < length buf" "read_u32 buf (seek + 4) = Inr a" "a \<le> 5" "read_u32 buf seek = Inr off"
    "read_u32 buf (seek + 8) = Inr len" "MAX_PATH \<le> len div 2"
  shows "scan_entries buf name seek = Some (Inl (Undefined Buffer_Overflow))"
  using assms by (subst scan_entries.simps) simp

subsection \<open>What the thread leaves behind\<close>

text \<open>The rounds that open a handle, and those whose change does not concern the file.\<close>

fun opens :: "round \<Rightarrow> bool" where
  "opens Open_Failed = False"
| "opens _ = True"

definition passes :: "wide \<Rightarrow> round \<Rightarrow> bool" where
  "passes name r \<longleftrightarrow> (\<exists>buf. r = Changed buf \<and> processing buf name = Some (Inr None))"

definition concerns_file :: "wide \<Rightarrow> round \<Rightarrow> bool" where
  "concerns_file name r \<longleftrightarrow> (\<exists>buf a. r = Changed buf \<and> processing buf name = Some (Inr (Some a)))"

lemma watch_loop_end: "cw_stop w \<Longrightarrow> watch_loop name rounds w = Some (Inr (True, w\<lparr>cw_active := True\<rparr>))"
  by (subst watch_loop.simps) simp

lemma watch_loop_Nil: "\<not> cw_stop w \<Longrightarrow> watch_loop name [] w = Some (Inr (False, w))"
  by (subst watch_loop.simps) simp

lemma watch_loop_Cons:
  "\<not> cw_stop w \<Longrightarrow> watch_loop name (r # rs) w =
     (case watch_round name r w of
        None \<Rightarrow> None
      | Some (Inl u) \<Rightarrow> Some (Inl u)
      | Some (Inr w') \<Rightarrow> watch_loop name rs w')"
  by (subst watch_loop.simps) simp

lemma watch_passes:
  assumes "list_all (passes name) rs" "\<not> cw_stop w"
  shows "watch_loop name (rs @ rs') w = watch_loop name rs' (w\<lparr>cw_handles := cw_handles w + length rs\<rparr>)"
  using assms
proof (induction rs arbitrary: w)
  case (Cons r rs)
  then have "watch_round name r w = Some (Inr (w\<lparr>cw_handles := cw_handles w + 1\<rparr>))"
    by (auto simp: passes_def watch_round_def create_file_def)
  then show ?case using Cons by (simp add: watch_loop_Cons)
qed simp

definition watched_to_the_end :: "wide \<Rightarrow> round list \<Rightarrow> round \<Rightarrow> config_watcher \<Rightarrow> config_watcher \<Rightarrow> bool" where
  "watched_to_the_end name rs r w w' \<longleftrightarrow> cw_stop w' \<and> cw_active w' \<and>
     cw_event w' = (cw_event w \<or> concerns_file name r) \<and>
     cw_handles w' = cw_handles w + length rs + (if r = Wait_Failed then 1 else 0) \<and>
     cw_buffers w' = cw_buffers w + (if r = Wait_Failed then 1 else 0)"

lemma watch_last:
  assumes "\<not> cw_stop w" "\<not> passes name r" "watch_loop name (r # rest) w = Some (Inr (ended, w'))"
  shows "ended \<and> watched_to_the_end name [] r w w'"
  using assms
  by (cases r)
    (auto simp: watch_loop_Cons watch_round_def create_file_def watch_loop_end watched_to_the_end_def passes_def
      concerns_file_def Let_def split: option.splits sum.splits)

lemma watch_last_fails:
  assumes "\<not> cw_stop w" "\<not> passes name r"
  shows "watch_loop name (r # rest) w = None \<Longrightarrow> \<exists>buf. r = Changed buf \<and> processing buf name = None"
    and "watch_loop name (r # rest) w = Some (Inl u) \<Longrightarrow>
      \<exists>buf. r = Changed buf \<and> processing buf name = Some (Inl u)"
  using assms
  by (cases r; auto simp: watch_loop_Cons watch_round_def create_file_def watch_loop_end passes_def Let_def
      split: option.splits sum.splits)+

lemma passes_prefix:
  obtains "list_all (passes name) rounds"
  | rs r rest where "rounds = rs @ r # rest" "list_all (passes name) rs" "\<not> passes name r"
  using split_list_first_prop [of rounds "\<lambda>r. \<not> passes name r"]
  by (auto simp: list_all_iff)

text \<open>
  The watcher thread ends at the first round that is not a change of another file, having
  told the service exactly when that round is a change of the configuration file.  Every change
  of another file has left one more directory handle open, and a failed wait one more and its
  buffer; before that round the thread is still waiting.
\<close>

lemma watch_svc_leaks:
  "case watch_svc name rounds w of
     Some (Inr (False, w')) \<Rightarrow> list_all (passes name) rounds \<and>
       w' = w\<lparr>cw_stop := False, cw_handles := cw_handles w + length rounds\<rparr>
   | Some (Inr (True, w')) \<Rightarrow>
       (\<exists>rs r rest. rounds = rs @ r # rest \<and> list_all (passes name) rs \<and> \<not> passes name r \<and>
          watched_to_the_end name rs r w w')
   | Some (Inl u) \<Rightarrow>
       (\<exists>rs buf rest. rounds = rs @ Changed buf # rest \<and> list_all (passes name) rs \<and>
          processing buf name = Some (Inl u))
   | None \<Rightarrow>
       (\<exists>rs buf rest. rounds = rs @ Changed buf # rest \<and> list_all (passes name) rs \<and>
          processing buf name = None)"
proof (rule passes_prefix [of name rounds])
  assume "list_all (passes name) rounds"
  then show ?thesis
    using watch_passes [of name rounds "w\<lparr>cw_stop := False\<rparr>" "[]"]
    by (simp add: watch_svc_def watch_loop_Nil)
next
  fix rs r rest
  assume r: "rounds = rs @ r # rest" "list_all (passes name) rs" "\<not> passes name r"
  define w1 where "w1 = w\<lparr>cw_stop := False, cw_handles := cw_handles w + length rs\<rparr>"
  have run: "watch_svc name rounds w = watch_loop name (r # rest) w1"
    using watch_passes [OF r(2), of "w\<lparr>cw_stop := False\<rparr>" "r # rest"] by (simp add: watch_svc_def r(1) w1_def)
  show ?thesis
  proof (cases "\<exists>v. watch_loop name (r # rest) w1 = Some (Inr v)")
    case True
    then obtain ended w' where v: "watch_loop name (r # rest) w1 = Some (Inr (ended, w'))" by auto
    have "ended \<and> watched_to_the_end name [] r w1 w'"
      using watch_last [OF _ r(3) v] by (simp add: w1_def)
    then have "ended" "watched_to_the_end name rs r w w'"
      by (auto simp: watched_to_the_end_def w1_def)
    then show ?thesis using run v r by auto
  next
    case False
    have stop: "\<not> cw_stop w1" by (simp add: w1_def)
    consider "watch_loop name (r # rest) w1 = None" | u where "watch_loop name (r # rest) w1 = Some (Inl u)"
      using False by (metis option.exhaust sum.exhaust)
    then show ?thesis
      using run r watch_last_fails [OF stop r(3), of rest] by cases auto
  qed
qed

end
