(* ===== verification/Nt_Service.thy ===== *)
theory Nt_Service
  imports Nx_Service Nt_Config
begin

section \<open>The Windows service\<close>

text \<open>
  \<open>nt_service/ntsvc.cpp\<close>, \<open>nt_service/notificator.cpp\<close>, \<open>nt_service/eventsink.cpp\<close> and the
  reload of \<open>nt_service/config_change.cpp\<close>.  The parser and the two tasks are the ones of the
  Linux service.  COM, WMI and the reactor are a parameter: which of their calls fail.  Local
  smart pointers and console diagnostics are not modelled.
\<close>

subsection \<open>State\<close>

datatype com_call =
    CoInitializeEx | CoInitializeSecurity | CoUninitialize
  | Create_Locator | Connect_Server | Set_Proxy_Blanket
  | Create_Apartment | Create_Object_Stub | Query_Sink
  | Exec_Query | Cancel_Async_Call | Release_Service | Release_Stub

datatype nt_call =
    Com com_call
  | Report_Running | Report_Stop_Pending
  | Own_Reactor
  | Register_Event | Remove_Event      \<comment> \<open>the event of the service\<close>
  | Register_Config_Event              \<comment> \<open>the event of \<open>Config_Handler\<close>\<close>
  | Activate_Config                    \<comment> \<open>\<open>Config_Handler::activate()\<close>\<close>
  | Inherited_Control nat

text \<open>A pointer that was never set, one set to null, one to an object.\<close>

datatype com_slot = Unset | Null | Object

record nt_world = world +
  journal :: "nt_call list"
  service_ptr :: com_slot
  stub_ptr :: com_slot
  stop_flag :: bool
  nt_watch :: config_watcher

type_synonym nt_env = "nt_call \<Rightarrow> bool"

definition in_nt :: "(world, 'a) act \<Rightarrow> (nt_world, 'a) act" where
  "in_nt m s =
     (let rw = m (world.truncate s)
      in (fst rw, world.extend (snd rw)
        (nt_world.fields (journal s) (service_ptr s) (stub_ptr s) (stop_flag s) (nt_watch s))))"

text \<open>A call with its outcome: \<open>False\<close> when it fails.\<close>

definition nt :: "nt_env \<Rightarrow> nt_call \<Rightarrow> (nt_world, bool) act" where
  "nt fails c = thenA (modifyA (\<lambda>s. s\<lparr>journal := journal s @ [c]\<rparr>)) (retA (\<not> fails c))"

definition nt_do :: "nt_call \<Rightarrow> (nt_world, unit) act" where
  "nt_do c = modifyA (\<lambda>s. s\<lparr>journal := journal s @ [c]\<rparr>)"

subsection \<open>Notificator\<close>

text \<open>\<open>hres = ...; if (FAILED(hres)) { ERROR_LOG(message); return -1; }\<close>\<close>

definition com_step ::
    "nt_env \<Rightarrow> com_call \<Rightarrow> cstring \<Rightarrow> (nt_world, int) act \<Rightarrow> (nt_world, int) act" where
  "com_step fails c message k =
     bindA (nt fails (Com c)) (\<lambda>ok.
       if ok then k else thenA (write_log Error message) (retA (-1)))"

definition set_service :: "nt_env \<Rightarrow> com_call \<Rightarrow> (nt_world, unit) act" where
  "set_service fails c = modifyA (\<lambda>s. s\<lparr>service_ptr := (if fails (Com c) then Null else Object)\<rparr>)"

definition set_stub :: "nt_env \<Rightarrow> com_call \<Rightarrow> (nt_world, unit) act" where
  "set_stub fails c = modifyA (\<lambda>s. s\<lparr>stub_ptr := (if fails (Com c) then Null else Object)\<rparr>)"

definition Init_Context :: "nt_env \<Rightarrow> (nt_world, int) act" where
  "Init_Context fails =
     com_step fails CoInitializeEx ''Failed to Windows::Foundation::Initialize.'' (
     bindA (nt fails (Com CoInitializeSecurity)) (\<lambda>ok.
       if ok then thenA (write_log Debug ''Notificator::Init_Context'') (retA 0)
       else thenA (nt_do (Com CoUninitialize)) (
            thenA (write_log Error ''Failed to initialize security.'') (retA (-1)))))"

definition Create_IWbemServices :: "nt_env \<Rightarrow> (nt_world, int) act" where
  "Create_IWbemServices fails =
     com_step fails Create_Locator ''Failed to create IWbemLocator object'' (
     thenA (set_service fails Connect_Server) (
     com_step fails Connect_Server (''Could not connect to ROOT'' @ [CHR 0x5C] @ ''CIMV2'') (
     com_step fails Set_Proxy_Blanket ''Could not set proxy blanket'' (retA 0))))"

definition Create_IWbemObjectSink :: "nt_env \<Rightarrow> (nt_world, int) act" where
  "Create_IWbemObjectSink fails =
     com_step fails Create_Apartment ''Failed to initialize IUnsecuredApartment'' (
     com_step fails Create_Object_Stub ''Failed to create CreateObjectStub IWbemObjectSink'' (
     thenA (set_stub fails Query_Sink) (
     com_step fails Query_Sink ''Failed to QueryInterface IWbemObjectSink'' (retA 0))))"

definition Register_Notification :: "nt_env \<Rightarrow> (nt_world, int) act" where
  "Register_Notification fails =
     com_step fails Exec_Query ''Register_Notification failed'' (retA 0)"

fun first_failing :: "('w, int) act list \<Rightarrow> ('w, int) act" where
  "first_failing [] = retA 0"
| "first_failing (m # ms) = bindA m (\<lambda>n. if n = -1 then retA (-1) else first_failing ms)"

definition Initialize :: "nt_env \<Rightarrow> (nt_world, int) act" where
  "Initialize fails =
     first_failing [Init_Context fails, Create_IWbemServices fails, Create_IWbemObjectSink fails,
       Register_Notification fails]"

definition use_slot :: "com_slot \<Rightarrow> (nt_world, unit) act" where
  "use_slot p =
     (case p of Unset \<Rightarrow> failA (Undefined Indeterminate_Value)
      | Null \<Rightarrow> failA (Undefined Null_Pointer)
      | Object \<Rightarrow> retA ())"

text \<open>The stub is read as the argument of the first call.\<close>

definition Release :: "(nt_world, unit) act" where
  "Release =
     bindA (readA (\<lambda>s. (service_ptr s, stub_ptr s))) (\<lambda>(service, stub).
     seqA [if stub = Unset then failA (Undefined Indeterminate_Value) else retA (),
       use_slot service, nt_do (Com Cancel_Async_Call), nt_do (Com Release_Service),
       use_slot stub, nt_do (Com Release_Stub), nt_do (Com CoUninitialize)])"

subsection \<open>EventSink\<close>

record event_sink =
  m_lRef :: int
  in_progress :: bool
  deleted :: bool

definition new_event_sink :: event_sink where
  "new_event_sink = \<lparr>m_lRef = 0, in_progress = True, deleted = False\<rparr>"

definition sink_AddRef :: "event_sink \<Rightarrow> int \<times> event_sink" where
  "sink_AddRef s = (m_lRef s + 1, s\<lparr>m_lRef := m_lRef s + 1\<rparr>)"

definition sink_Release :: "event_sink \<Rightarrow> int \<times> event_sink" where
  "sink_Release s =
     (let lRef = m_lRef s - 1 in (lRef, s\<lparr>m_lRef := lRef, deleted := deleted s \<or> lRef = 0\<rparr>))"

datatype riid = IID_IUnknown | IID_IWbemObjectSink | IID_Other

text \<open>Whether the interface is given.\<close>

definition sink_QueryInterface :: "riid \<Rightarrow> event_sink \<Rightarrow> bool \<times> event_sink" where
  "sink_QueryInterface riid s =
     (if riid = IID_IUnknown \<or> riid = IID_IWbemObjectSink then (True, snd (sink_AddRef s)) else (False, s))"

text \<open>\<open>activated\<close>: whether the thread of the worker can be started, turn by turn.\<close>

fun Indicate :: "bool list \<Rightarrow> (world, unit) act" where
  "Indicate [] = retA ()"
| "Indicate (activated # rest) =
     thenA (bindA (est_open activated) (\<lambda>_. retA ())) (
     thenA (write_log Trace (''EVENT: openvpn is opening...'' @ [LF])) (Indicate rest))"

definition SetStatus :: "bool \<Rightarrow> event_sink \<Rightarrow> event_sink" where
  "SetStatus complete s = (if complete then s\<lparr>in_progress := False\<rparr> else s)"

subsection \<open>Config_Handler in the service\<close>

definition new_config_watcher :: config_watcher where
  "new_config_watcher =
     \<lparr>cw_stop = False, cw_handles = 0, cw_buffers = 0, cw_event = False, cw_active = False\<rparr>"

definition nt_config_open :: "nt_env \<Rightarrow> (nt_world, int) act" where
  "nt_config_open fails =
     thenA (modifyA (\<lambda>s. s\<lparr>nt_watch := new_config_watcher\<rparr>)) (
     bindA (nt fails Register_Config_Event) (\<lambda>_.
     thenA (nt_do Activate_Config) (retA 0)))"

text \<open>
  The event of the watcher is signalled; \<open>active_handler_->wait()\<close> returns when the thread has
  ended, and resets its event as well.
\<close>

definition nt_config_handle_signal :: "'j env \<Rightarrow> (nt_world, int) act" where
  "nt_config_handle_signal e =
     thenA (modifyA (\<lambda>s. s\<lparr>nt_watch := (nt_watch s)\<lparr>cw_event := False\<rparr>\<rparr>)) (
     bindA (readA (\<lambda>s. cw_active (nt_watch s))) (\<lambda>ended.
       if \<not> ended then failA No_Return
       else thenA (modifyA (\<lambda>s. s\<lparr>nt_watch := (nt_watch s)\<lparr>cw_active := False\<rparr>\<rparr>)) (
            thenA (in_nt (call (Sleep_Seconds 3))) (
            bindA (in_nt (parser_init e)) (\<lambda>n.
              if n = -1
              then thenA (in_nt (write_log Info ''Shutting down service'')) (
                   thenA (in_nt raise_SIGINT) (retA (-1)))
              else thenA (in_nt (bindA (reshedule_tasks e) (\<lambda>_. retA ()))) (
                   thenA (nt_do Activate_Config) (retA 0)))))))"

subsection \<open>Service\<close>

definition SERVICE_CONTROL_STOP :: nat where "SERVICE_CONTROL_STOP = 1"
definition SERVICE_CONTROL_SHUTDOWN :: nat where "SERVICE_CONTROL_SHUTDOWN = 5"

definition nt_handle_control :: "nat \<Rightarrow> (nt_world, unit) act" where
  "nt_handle_control control_code =
     (if control_code = SERVICE_CONTROL_SHUTDOWN \<or> control_code = SERVICE_CONTROL_STOP
      then seqA [nt_do Report_Stop_Pending, write_log Debug ''Service control stop requested'',
        in_nt (call Notify_Exception)]
      else nt_do (Inherited_Control control_code))"

definition nt_handle_exception :: "(nt_world, int) act" where
  "nt_handle_exception = retA (-1)"

definition nt_handle_close :: "(nt_world, int) act" where
  "nt_handle_close =
     thenA (modifyA (\<lambda>s. s\<lparr>stop_flag := True\<rparr>)) (thenA (in_nt (call End_Event_Loop)) (retA 0))"

definition nt_register :: "nt_env \<Rightarrow> nt_call \<Rightarrow> (nt_world, unit) act" where
  "nt_register fails c = bindA (nt fails c) (\<lambda>ok. in_nt (notify_if (\<not> ok)))"

text \<open>\<open>Service::svc\<close> up to the event loop: the configuration, the registrations, the tasks.\<close>

definition nt_configure :: "'j env \<Rightarrow> (nt_world, unit) act" where
  "nt_configure e =
     bindA (in_nt (parser_init e)) (\<lambda>n.
       if n = -1
       then seqA [write_log Info ''Shutting down service'', in_nt (call (Sleep_Seconds 2)), in_nt raise_SIGINT]
       else retA ())"

definition nt_registrations :: "nt_env \<Rightarrow> bool \<Rightarrow> (nt_world, unit) act" where
  "nt_registrations fails register_ok =
     thenA (bindA (Initialize fails) (\<lambda>n. in_nt (notify_if (n = -1)))) (
     thenA (nt_register fails Register_Event)
       (in_nt (if register_ok then call Register_SIGINT else notify_if True)))"

definition nt_open_tasks :: "'j env \<Rightarrow> nt_env \<Rightarrow> options \<Rightarrow> (nt_world, unit) act" where
  "nt_open_tasks e fails options =
     thenA (in_nt (update_license_task (\<lambda>_. new_get_license_task
       (opt_next_try_get_license_mins options) (opt_next_day_waiting_hours options)))) (
     thenA (in_nt (bindA (glt_open e 5) (\<lambda>n. notify_if (n = -1)))) (
     thenA (in_nt (update_killer_task (\<lambda>_. new_process_killer_task
       \<lparr>pkt_day_waiting_hours := opt_next_day_waiting_hours options,
        pkt_process_stopping_name := opt_kill_file_name options\<rparr>))) (
     thenA (in_nt (bindA (pkt_open e 5) (\<lambda>n. notify_if (n = -1)))) (
     bindA (nt_config_open fails) (\<lambda>_. retA ())))))"

definition nt_svc_start :: "'j env \<Rightarrow> nt_env \<Rightarrow> bool \<Rightarrow> (nt_world, unit) act" where
  "nt_svc_start e fails register_ok =
     thenA (write_log Debug ''Start Service::svc'') (
     thenA (bindA (nt fails Report_Running) (\<lambda>ok. if ok then nt_do Own_Reactor else retA ())) (
     thenA (nt_configure e) (
     bindA (readA (\<lambda>s. config (world.truncate s))) (\<lambda>options.
     thenA (nt_registrations fails register_ok) (
     nt_open_tasks e fails options)))))"

definition nt_svc_finish :: "(nt_world, int) act" where
  "nt_svc_finish =
     thenA Release (
     thenA (nt_do Remove_Event) (
     thenA (in_nt (call (Wait_Threads 3))) (
     thenA (write_log Info ''Shutting down service'') (retA 0))))"

text \<open>The handlers run inside \<open>Run_Event_Loop\<close>.\<close>

definition nt_svc :: "'j env \<Rightarrow> nt_env \<Rightarrow> bool \<Rightarrow> (nt_world, int) act" where
  "nt_svc e fails register_ok =
     thenA (nt_svc_start e fails register_ok) (thenA (in_nt (call Run_Event_Loop)) nt_svc_finish)"

subsection \<open>Events and reloads\<close>

text \<open>The worker is started once for each object, whichever process it stands for.\<close>

lemma Indicate_opens:
  "wp (Indicate acts)
     (\<lambda>_ w'. calls w' = calls w @ replicate (length (filter id acts)) Activate_Worker) (\<lambda>_ _. False) w"
proof (induction acts arbitrary: w)
  case (Cons activated acts)
  show ?case
    by (cases activated; simp add: effect_simps est_open_def write_log_def; rule wp_mono [OF Cons.IH]; simp)
qed (simp add: effect_simps)

subsection \<open>How a run ends\<close>

lemma wp_in_nt [effect_simps]:
  "wp (in_nt m) Q E s =
     wp m (\<lambda>a w'. Q a (world.extend w' (nt_world.fields (journal s) (service_ptr s) (stub_ptr s) (stop_flag s) (nt_watch s))))
       (\<lambda>f w'. E f (world.extend w' (nt_world.fields (journal s) (service_ptr s) (stub_ptr s) (stop_flag s) (nt_watch s))))
       (world.truncate s)"
  by (simp add: wp_def in_nt_def Let_def split_beta)

lemma wp_nt [effect_simps]:
  "wp (nt fails c) Q E s = Q (\<not> fails c) (s\<lparr>journal := journal s @ [c]\<rparr>)"
  "wp (nt_do c) Q' E s = Q' () (s\<lparr>journal := journal s @ [c]\<rparr>)"
  by (simp_all add: nt_def nt_do_def effect_simps)

text \<open>The calls of \<open>Initialize\<close> in order; the first that fails, if any.\<close>

definition set_ups :: "com_call list" where
  "set_ups = [CoInitializeEx, CoInitializeSecurity, Create_Locator, Connect_Server, Set_Proxy_Blanket,
     Create_Apartment, Create_Object_Stub, Query_Sink, Exec_Query]"

definition first_failure :: "nt_env \<Rightarrow> com_call option" where
  "first_failure fails = find (\<lambda>c. fails (Com c)) set_ups"

text \<open>What \<open>Release\<close> meets after it.\<close>

fun lost_by :: "com_call option \<Rightarrow> ub option" where
  "lost_by None = None"
| "lost_by (Some Exec_Query) = None"
| "lost_by (Some Query_Sink) = Some Null_Pointer"
| "lost_by (Some _) = Some Indeterminate_Value"

definition slots_after :: "com_call option \<Rightarrow> com_slot \<times> com_slot" where
  "slots_after c =
     (if c \<in> {Some CoInitializeEx, Some CoInitializeSecurity, Some Create_Locator} then (Unset, Unset)
      else if c = Some Connect_Server then (Null, Unset)
      else if c \<in> {Some Set_Proxy_Blanket, Some Create_Apartment, Some Create_Object_Stub} then (Object, Unset)
      else if c = Some Query_Sink then (Object, Null)
      else (Object, Object))"

definition com_balance :: "nt_call list \<Rightarrow> int" where
  "com_balance j = int (count_list j (Com CoInitializeEx)) - int (count_list j (Com CoUninitialize))"

lemma initialize_run:
  assumes "service_ptr s = Unset" "stub_ptr s = Unset"
  shows "wp (Initialize fails)
     (\<lambda>n s'. n = (if first_failure fails = None then 0 else -1) \<and>
        world.truncate s' = (world.truncate s)\<lparr>log := log s'\<rparr> \<and>
        (service_ptr s', stub_ptr s') = slots_after (first_failure fails) \<and>
        com_balance (journal s') = com_balance (journal s) +
          (if first_failure fails = Some CoInitializeSecurity then 0 else 1))
     (\<lambda>_ _. False) s"
  using assms
  by (auto simp: Initialize_def Init_Context_def Create_IWbemServices_def Create_IWbemObjectSink_def
      Register_Notification_def com_step_def set_service_def set_stub_def effect_simps
      first_failure_def set_ups_def slots_after_def com_balance_def write_log_def world.defs)

lemma truncate_nt [simp]:
  "calls (world.truncate s) = calls s" "parser_obj (world.truncate s) = parser_obj s"
  "license_task (world.truncate s) = license_task s" "killer_task (world.truncate s) = killer_task s"
  "files (world.truncate s) = files s"
  by (simp_all add: world.defs)

lemma extend_nt [simp]:
  "journal (world.extend w (nt_world.fields j p q b v)) = j"
  "service_ptr (world.extend w (nt_world.fields j p q b v)) = p"
  "stub_ptr (world.extend w (nt_world.fields j p q b v)) = q"
  "nt_watch (world.extend w (nt_world.fields j p q b v)) = v"
  "stop_flag (world.extend w (nt_world.fields j p q b v)) = b"
  "calls (world.extend w x) = calls w" "license_task (world.extend w x) = license_task w"
  "killer_task (world.extend w x) = killer_task w"
  by (simp_all add: world.defs nt_world.defs)

lemma truncate_update_nt [simp]:
  "world.truncate (s\<lparr>journal := j\<rparr>) = world.truncate s"
  "world.truncate (s\<lparr>nt_watch := v\<rparr>) = world.truncate s"
  by (simp_all add: world.defs)

definition accepted :: "'j env \<Rightarrow> world \<Rightarrow> bool" where
  "accepted e w \<longleftrightarrow> (case file_tree e w of None \<Rightarrow> False | Some tree \<Rightarrow> acceptable (parser_obj w) tree)"

text \<open>A service before its first call.\<close>

definition nt_fresh :: "nt_world \<Rightarrow> bool" where
  "nt_fresh s \<longleftrightarrow> calls s = [] \<and> journal s = [] \<and> service_ptr s = Unset \<and> stub_ptr s = Unset"

lemma wp_parser_accepted:
  "wp (parser_init e)
     (\<lambda>n w'. (if accepted e w then n = 0 \<and> options_in_range (config w') else n = -1) \<and> calls w' = calls w)
     (\<lambda>_ _. False) w"
proof -
  obtain n w' where run: "parser_init e w = (Inr n, w')" by (metis parser_init_run)
  have "calls w' = calls w" using parser_init_run [of e w] run by auto
  moreover have "if accepted e w then n = 0 \<and> options_in_range (config w') else n = -1"
  proof (cases "accepted e w")
    case True
    then obtain tree where "file_tree e w = Some tree" "acceptable (parser_obj w) tree"
      by (auto simp: accepted_def split: option.splits)
    then show ?thesis using True parser_init_run [of e w] run by (auto simp: acceptable_def)
  next
    case False
    then show ?thesis
      using parser_init_run [of e w] run by (auto simp: accepted_def split: option.splits if_splits)
  qed
  ultimately show ?thesis by (simp add: wp_def run)
qed

lemma no_timer_pending: "\<forall>c \<in> set cs. \<not> timer_call c \<Longrightarrow> pending_timer t cs = None"
  by (induction cs rule: rev_induct) (simp_all add: after_call_other)

text \<open>The state before the tasks are made.\<close>

definition nt_set_up :: "nt_env \<Rightarrow> bool \<Rightarrow> nt_world \<Rightarrow> bool" where
  "nt_set_up fails register_ok s \<longleftrightarrow>
     (\<forall>c \<in> set (calls s). \<not> timer_call c) \<and>
     (Notify_Exception \<in> set (calls s) \<longleftrightarrow>
        first_failure fails \<noteq> None \<or> fails Register_Event \<or> \<not> register_ok) \<and>
     (register_ok \<longrightarrow> Register_SIGINT \<in> set (calls s)) \<and>
     (service_ptr s, stub_ptr s) = slots_after (first_failure fails) \<and>
     com_balance (journal s) = (if first_failure fails = Some CoInitializeSecurity then 0 else 1)"

lemma wp_nt_set_up:
  assumes "calls s = []" "service_ptr s = Unset" "stub_ptr s = Unset" "com_balance (journal s) = 0"
  shows "wp (nt_registrations fails register_ok)
     (\<lambda>_ s'. nt_set_up fails register_ok s' \<and> config (world.truncate s') = config (world.truncate s))
     (\<lambda>_ _. False) s"
proof -
  define rest where "rest = thenA (nt_register fails Register_Event)
     (in_nt (if register_ok then call Register_SIGINT else notify_if True))"
  have rest: "wp (thenA (in_nt (notify_if (n = -1))) rest)
      (\<lambda>_ s'. nt_set_up fails register_ok s' \<and> config (world.truncate s') = config (world.truncate s))
      (\<lambda>_ _. False) s1"
    if "n = (if first_failure fails = None then 0 else -1)" "calls s1 = []"
      "(service_ptr s1, stub_ptr s1) = slots_after (first_failure fails)"
      "com_balance (journal s1) = (if first_failure fails = Some CoInitializeSecurity then 0 else 1)"
      "parser_obj s1 = parser_obj s" for n :: int and s1
    unfolding rest_def nt_register_def using that
    by (cases "first_failure fails"; cases "fails Register_Event"; cases register_ok;
        simp add: effect_simps notify_if_def nt_set_up_def timer_call_def com_balance_def config_def)
  show ?thesis
    unfolding nt_registrations_def rest_def [symmetric] wp_thenA [of "bindA m l" for m l] wp_bindA
  proof (rule wp_mono [OF initialize_run], goal_cases)
    case (3 n s1)
    then have eq: "world.truncate s1 = (world.truncate s)\<lparr>log := log s1\<rparr>" by blast
    have "calls s1 = calls s" "parser_obj s1 = parser_obj s"
      using arg_cong [OF eq, of calls] arg_cong [OF eq, of parser_obj] by simp_all
    then show ?case
      using 3 assms rest [of n s1] by (simp add: effect_simps)
  qed (use assms in auto)
qed

lemma wp_nt_tasks:
  assumes "options_in_range (config (world.truncate s))" "\<forall>t. pending_timer t (calls s) = None"
    "opts = config (world.truncate s)"
  shows "wp (nt_open_tasks e fails opts)
     (\<lambda>_ s'. options_in_range (config (world.truncate s')) \<and> tasks_follow (config (world.truncate s')) (world.truncate s') \<and>
        calls s' = calls s @ [Schedule_Timer License_Task 5, Schedule_Timer Killer_Task 5] \<and>
        service_ptr s' = service_ptr s \<and> stub_ptr s' = stub_ptr s \<and>
        com_balance (journal s') = com_balance (journal s))
     (\<lambda>_ _. False) s"
  using assms
  by (auto simp: nt_open_tasks_def effect_simps notify_if_def glt_open_def glt_schedule_timer_def pkt_open_def
      pkt_schedule_timer_def update_license_task_def update_killer_task_def config_def
      tasks_follow_def new_get_license_task_def nt_config_open_def com_balance_def
      new_process_killer_task_def)

text \<open>What a service that has ended normally has done.\<close>

definition nt_served :: "nt_env \<Rightarrow> bool \<Rightarrow> nt_world \<Rightarrow> bool" where
  "nt_served fails register_ok s \<longleftrightarrow>
     started register_ok (world.truncate s) \<and> com_balance (journal s) = 0 \<and>
     (Notify_Exception \<in> set (calls s) \<longleftrightarrow>
        first_failure fails \<noteq> None \<or> fails Register_Event \<or> \<not> register_ok)"

lemma first_failure_cases:
  "first_failure fails = None \<or> (\<exists>c \<in> set set_ups. first_failure fails = Some c)"
  unfolding first_failure_def by (cases "find (\<lambda>c. fails (Com c)) set_ups") (auto simp: find_Some_iff)

lemma wp_nt_finish:
  assumes "(service_ptr s, stub_ptr s) = slots_after (first_failure fails)"
  shows "wp (thenA (in_nt (call Run_Event_Loop)) nt_svc_finish)
     (\<lambda>n s'. n = 0 \<and> lost_by (first_failure fails) = None \<and>
        com_balance (journal s') = com_balance (journal s) - 1 \<and>
        calls s' = calls s @ [Run_Event_Loop, Wait_Threads 3] \<and>
        parser_obj s' = parser_obj s \<and> license_task s' = license_task s \<and> killer_task s' = killer_task s)
     (\<lambda>f _. \<exists>u. lost_by (first_failure fails) = Some u \<and> f = Undefined u) s"
  using assms first_failure_cases [of fails] unfolding set_ups_def list.set
  by (elim disjE bexE insertE emptyE;
      simp add: nt_svc_finish_def effect_simps Release_def use_slot_def slots_after_def com_balance_def
        write_log_def)

lemma pending_after_tasks:
  "pending_timer t (cs @ [Schedule_Timer License_Task 5, Schedule_Timer Killer_Task 5, Run_Event_Loop, Wait_Threads n]) =
     Some 5"
  by (cases t) (simp_all add: pending_timer_def)

lemma wp_nt_rest:
  assumes "calls s = []" "service_ptr s = Unset" "stub_ptr s = Unset" "com_balance (journal s) = 0"
    "options_in_range (config (world.truncate s))"
  shows "wp (thenA (nt_registrations fails register_ok) (nt_open_tasks e fails (config (world.truncate s))))
     (\<lambda>_. wp (thenA (in_nt (call Run_Event_Loop)) nt_svc_finish)
        (\<lambda>n s'. n = 0 \<and> lost_by (first_failure fails) = None \<and> nt_served fails register_ok s')
        (\<lambda>f s'. \<exists>u. lost_by (first_failure fails) = Some u \<and> f = Undefined u))
     (\<lambda>_ _. False) s"
  unfolding wp_thenA [of "nt_registrations a b" for a b]
proof (rule wp_mono [OF wp_nt_set_up], goal_cases)
  case (5 u s1)
  let ?opts = "config (world.truncate s)"
  have opts: "config (world.truncate s1) = ?opts" and up: "nt_set_up fails register_ok s1"
    using 5 by auto
  show ?case
  proof (rule wp_mono [OF wp_nt_tasks], goal_cases)
    case (4 v s2)
    have slots: "(service_ptr s2, stub_ptr s2) = slots_after (first_failure fails)"
      using 4 up by (simp add: nt_set_up_def)
    show ?case
    proof (rule wp_mono [OF wp_nt_finish [OF slots]], goal_cases)
      case (1 n s3)
      have "started register_ok (world.truncate s3)"
        using 1 4 up opts assms(5)
        by (simp add: started_def nt_set_up_def tasks_follow_def config_def pending_after_tasks) blast
      moreover have "Notify_Exception \<in> set (calls s3) \<longleftrightarrow> Notify_Exception \<in> set (calls s1)"
        using 1 4 by simp
      moreover have "com_balance (journal s3) = 0"
        using 1 4 up by (auto simp: nt_set_up_def)
      ultimately show ?case using 1 up by (simp add: nt_served_def nt_set_up_def)
    qed simp
  qed (use opts up assms(5) no_timer_pending in \<open>auto simp: nt_set_up_def\<close>)
qed (use assms in auto)

lemma accepted_log:
  "accepted e (world.truncate (s\<lparr>log := l\<rparr>)) = accepted e (world.truncate s)"
  "accepted e (world.truncate (s\<lparr>calls := cs\<rparr>)) = accepted e (world.truncate s)"
  "accepted e (w\<lparr>calls := cs\<rparr>) = accepted e w"
  by (simp_all add: accepted_def file_tree_def cong: option.case_cong)

lemma truncate_slots [simp]:
  "world.truncate (s\<lparr>service_ptr := p\<rparr>) = world.truncate s"
  "world.truncate (s\<lparr>stub_ptr := p\<rparr>) = world.truncate s"
  by (simp_all add: world.defs)

lemma wp_nt_configure:
  assumes "calls s = []"
  shows "wp (nt_configure e)
     (\<lambda>_ s'. calls s' = [] \<and> journal s' = journal s \<and> service_ptr s' = service_ptr s \<and>
        stub_ptr s' = stub_ptr s \<and> options_in_range (config (world.truncate s')) \<and> accepted e (world.truncate s))
     (\<lambda>f _. \<not> accepted e (world.truncate s) \<and> f = No_Return) s"
  unfolding nt_configure_def wp_bindA wp_in_nt
  by (rule wp_mono [OF wp_parser_accepted])
    (use assms in \<open>auto simp: effect_simps raise_SIGINT_def write_log_def split: if_splits\<close>)

text \<open>
  When the watcher has told the service and ended, the service reads the file again: with an
  accepted one both tasks follow the new options and the watcher is started again.
\<close>

lemma reload_accepted:
  assumes "cw_active (nt_watch s)" "accepted e (world.truncate s)"
  shows "wp (nt_config_handle_signal e)
     (\<lambda>n s'. n = 0 \<and> tasks_follow (config (world.truncate s')) (world.truncate s') \<and>
        options_in_range (config (world.truncate s')) \<and>
        (\<forall>t. pending_timer t (calls s') = Some 5) \<and> journal s' = journal s @ [Activate_Config] \<and>
        \<not> cw_event (nt_watch s') \<and> \<not> cw_active (nt_watch s'))
     (\<lambda>_ _. False) s"
proof -
  have again: "wp (reshedule_tasks e)
      (\<lambda>n w'. tasks_follow (config w') w' \<and> config w' = config w \<and> (\<forall>t. pending_timer t (calls w') = Some 5))
      (\<lambda>_ _. False) w" for w
  proof -
    obtain w' where "reshedule_tasks e w = (Inr 0, w')" "tasks_follow (config w) w'" "config w' = config w"
      and cs: "calls w' = calls w @ [Cancel_Timer License_Task, Schedule_Timer License_Task 5,
        Cancel_Timer Killer_Task, Schedule_Timer Killer_Task 5]"
      using reshedule_tasks_run [of e w] by (auto simp: config_def)
    moreover have "pending_timer t (calls w') = Some 5" for t
      unfolding cs by (cases t) (simp_all add: pending_append_four)
    ultimately show ?thesis by (simp add: wp_def)
  qed
  have "wp (parser_init e)
      (\<lambda>n w'. n \<noteq> -1 \<and> options_in_range (config w')) (\<lambda>_ _. False) w" if "accepted e w" for w
    by (rule wp_mono [OF wp_parser_accepted]) (use that in auto)
  then have init: "wp (in_nt (parser_init e)) (\<lambda>n s'. n \<noteq> -1 \<and> options_in_range (config (world.truncate s')) \<and>
      journal s' = journal s1 \<and> nt_watch s' = nt_watch s1) (\<lambda>_ _. False) s1" if "accepted e (world.truncate s1)" for s1
    using that by (auto simp: wp_in_nt config_def)
  have reload: "wp (in_nt (bindA (reshedule_tasks e) (\<lambda>_. retA ())))
      (\<lambda>_ s'. tasks_follow (config (world.truncate s')) (world.truncate s') \<and>
        config (world.truncate s') = config (world.truncate s1) \<and> (\<forall>t. pending_timer t (calls s') = Some 5) \<and>
        journal s' = journal s1 \<and> nt_watch s' = nt_watch s1) (\<lambda>_ _. False) s1" for s1
    unfolding wp_in_nt wp_bindA wp_retA by (rule wp_mono [OF again]) (auto simp: config_def)
  show ?thesis
    unfolding nt_config_handle_signal_def using assms
    by (auto simp: wp_thenA wp_bindA wp_readA wp_modifyA wp_if wp_retA wp_nt wp_call wp_in_nt [of "call c" for c]
        accepted_log tasks_follow_def config_def
        intro!: wp_mono [OF init] wp_mono [OF reload])
qed


end
