(* ===== verification/Nt_Process.thy ===== *)
theory Nt_Process
  imports Agent_Effects
begin

section \<open>The Windows service: the command line\<close>

text \<open>
  \<open>nt_service/initializer.h\<close> and \<open>nt_service/initializer.cpp\<close>, and the same code in
  \<open>nx_service/initializer.cpp\<close>.  \<open>ACE_Get_Opt\<close> is a parameter: the list of the answers it gives
  to the calls of the loop before it answers -1.  The operations of \<open>ACE_NT_Service\<close> are a
  parameter as well: whether each fails.
\<close>

text \<open>
  An answer: the option letter, or \<open>?\<close> for what is no option; \<open>opt_arg()\<close>; and the argument
  before \<open>opt_ind()\<close>.
\<close>

record get_opt =
  go_letter :: char
  go_arg :: cstring
  go_prev :: cstring

record process =
  opt_install :: bool
  opt_remove :: bool
  opt_start :: bool
  opt_kill :: bool
  opt_type :: bool
  opt_debug :: bool
  opt_startup :: int

definition new_process :: process where
  "new_process = \<lparr>opt_install = False, opt_remove = False, opt_start = False, opt_kill = False,
     opt_type = False, opt_debug = False, opt_startup = 0\<rparr>"

text \<open>\<open>SERVICE_AUTO_START\<close> of the Windows headers.\<close>

definition DEFAULT_SERVICE_INIT_STARTUP :: int where "DEFAULT_SERVICE_INIT_STARTUP = 2"

text \<open>One turn of the loop; \<open>None\<close> is \<open>print_usage_and_die\<close>.\<close>

definition parse_arg :: "get_opt \<Rightarrow> process \<Rightarrow> process option" where
  "parse_arg g p =
     (let c = go_letter g; n = c_atoi (go_arg g)
      in if c = CHR ''i'' then
           if n \<le> 0 then None else Some (p\<lparr>opt_install := True, opt_startup := n\<rparr>)
         else if c = CHR ''r'' then Some (p\<lparr>opt_remove := True\<rparr>)
         else if c = CHR ''s'' then Some (p\<lparr>opt_start := True\<rparr>)
         else if c = CHR ''k'' then Some (p\<lparr>opt_kill := True\<rparr>)
         else if c = CHR ''t'' then
           if n \<le> 0 then None else Some (p\<lparr>opt_type := True, opt_startup := n\<rparr>)
         else if c = CHR ''d'' then Some (p\<lparr>opt_debug := True\<rparr>)
         else if go_prev g = ''-i''
           then Some (p\<lparr>opt_install := True, opt_startup := DEFAULT_SERVICE_INIT_STARTUP\<rparr>)
         else None)"

fun process_parse_args :: "get_opt list \<Rightarrow> process \<Rightarrow> process option" where
  "process_parse_args [] p = Some p"
| "process_parse_args (g # gs) p =
     (case parse_arg g p of None \<Rightarrow> None | Some p' \<Rightarrow> process_parse_args gs p')"

datatype service_op =
    Insert int | Remove_Service | Start_Svc | Stop_Svc | Startup int | Run_Debug | Run_Service

datatype process_end = Usage_Exit | Returned int

text \<open>The operation a run performs, and how the process ends.\<close>

definition process_run ::
    "(service_op \<Rightarrow> bool) \<Rightarrow> get_opt list \<Rightarrow> service_op list \<times> process_end" where
  "process_run fails args =
     (let call = (\<lambda>op. ([op], Returned (if fails op then -1 else 0)))
      in case process_parse_args args new_process of
           None \<Rightarrow> ([], Usage_Exit)
         | Some p \<Rightarrow>
             if opt_install p \<and> \<not> opt_remove p then call (Insert (opt_startup p))
             else if opt_remove p \<and> \<not> opt_install p then call Remove_Service
             else if opt_start p \<and> opt_kill p then ([], Usage_Exit)
             else if opt_start p then call Start_Svc
             else if opt_kill p then call Stop_Svc
             else if opt_type p then call (Startup (opt_startup p))
             else if opt_debug p then ([Run_Debug], Returned 0)
             else ([Run_Service], Returned 0))"

subsection \<open>What a command line means\<close>

text \<open>What a turn of the loop takes an answer for.\<close>

datatype option_kind = O_Install int | O_Remove | O_Start | O_Kill | O_Type int | O_Debug | O_Bad

definition kind_of :: "get_opt \<Rightarrow> option_kind" where
  "kind_of g =
     (let c = go_letter g; n = c_atoi (go_arg g)
      in if c = CHR ''i'' then if n \<le> 0 then O_Bad else O_Install n
         else if c = CHR ''r'' then O_Remove
         else if c = CHR ''s'' then O_Start
         else if c = CHR ''k'' then O_Kill
         else if c = CHR ''t'' then if n \<le> 0 then O_Bad else O_Type n
         else if c = CHR ''d'' then O_Debug
         else if go_prev g = ''-i'' then O_Install DEFAULT_SERVICE_INIT_STARTUP
         else O_Bad)"

fun startup_value :: "option_kind \<Rightarrow> int option" where
  "startup_value (O_Install n) = Some n"
| "startup_value (O_Type n) = Some n"
| "startup_value _ = None"

definition asks_install :: "option_kind set \<Rightarrow> bool" where
  "asks_install K \<longleftrightarrow> (\<exists>n. O_Install n \<in> K)"

definition asks_type :: "option_kind set \<Rightarrow> bool" where
  "asks_type K \<longleftrightarrow> (\<exists>n. O_Type n \<in> K)"

text \<open>The startup type in force: the last one given.\<close>

definition last_startup :: "option_kind list \<Rightarrow> int" where
  "last_startup ks = last (0 # List.map_filter startup_value ks)"

definition follows :: "option_kind set \<Rightarrow> int \<Rightarrow> process \<Rightarrow> process \<Rightarrow> bool" where
  "follows K n p p' \<longleftrightarrow>
     opt_install p' = (opt_install p \<or> asks_install K) \<and> opt_remove p' = (opt_remove p \<or> O_Remove \<in> K) \<and>
     opt_start p' = (opt_start p \<or> O_Start \<in> K) \<and> opt_kill p' = (opt_kill p \<or> O_Kill \<in> K) \<and>
     opt_type p' = (opt_type p \<or> asks_type K) \<and> opt_debug p' = (opt_debug p \<or> O_Debug \<in> K) \<and>
     opt_startup p' = n"

lemma parse_arg_kind:
  "parse_arg g p =
     (case kind_of g of
        O_Bad \<Rightarrow> None
      | O_Install n \<Rightarrow> Some (p\<lparr>opt_install := True, opt_startup := n\<rparr>)
      | O_Remove \<Rightarrow> Some (p\<lparr>opt_remove := True\<rparr>)
      | O_Start \<Rightarrow> Some (p\<lparr>opt_start := True\<rparr>)
      | O_Kill \<Rightarrow> Some (p\<lparr>opt_kill := True\<rparr>)
      | O_Type n \<Rightarrow> Some (p\<lparr>opt_type := True, opt_startup := n\<rparr>)
      | O_Debug \<Rightarrow> Some (p\<lparr>opt_debug := True\<rparr>))"
  by (simp add: parse_arg_def kind_of_def Let_def)

lemma follows_insert:
  "parse_arg g p = Some p1 \<Longrightarrow> follows (insert (kind_of g) K) n p p' = follows K n p1 p'"
  by (cases "kind_of g")
    (clarsimp simp: parse_arg_kind follows_def asks_install_def asks_type_def ex_disj_distrib)+

lemma last_startup_insert:
  "parse_arg g p = Some p1 \<Longrightarrow>
     last (opt_startup p # List.map_filter startup_value (kind_of g # ks)) =
     last (opt_startup p1 # List.map_filter startup_value ks)"
  by (cases "kind_of g") (auto simp: parse_arg_kind map_filter_simps)

lemma parse_args_follow:
  "case process_parse_args gs p of
     None \<Rightarrow> O_Bad \<in> set (map kind_of gs)
   | Some p' \<Rightarrow> O_Bad \<notin> set (map kind_of gs) \<and>
       follows (set (map kind_of gs))
         (last (opt_startup p # List.map_filter startup_value (map kind_of gs))) p p'"
proof (induction gs arbitrary: p)
  case Nil
  then show ?case by (simp add: follows_def asks_install_def asks_type_def map_filter_simps)
next
  case (Cons g gs)
  show ?case
  proof (cases "parse_arg g p")
    case None
    then have "kind_of g = O_Bad" by (cases "kind_of g") (simp_all add: parse_arg_kind)
    then show ?thesis using None by simp
  next
    case (Some p1)
    then have "kind_of g \<noteq> O_Bad" by (auto simp: parse_arg_kind)
    moreover have "process_parse_args (g # gs) p = process_parse_args gs p1" using Some by simp
    ultimately show ?thesis
      using Cons.IH [of p1]
      unfolding list.map list.set follows_insert [OF Some] last_startup_insert [OF Some]
      by (cases "process_parse_args gs p1") simp_all
  qed
qed

text \<open>The operation a command line asks for.\<close>

definition requested :: "option_kind list \<Rightarrow> service_op option" where
  "requested ks =
     (let K = set ks
      in if O_Bad \<in> K then None
         else if asks_install K \<noteq> (O_Remove \<in> K)
           then Some (if O_Remove \<in> K then Remove_Service else Insert (last_startup ks))
         else if O_Start \<in> K \<and> O_Kill \<in> K then None
         else Some (if O_Start \<in> K then Start_Svc else if O_Kill \<in> K then Stop_Svc
           else if asks_type K then Startup (last_startup ks)
           else if O_Debug \<in> K then Run_Debug else Run_Service))"

lemma last_startup_positive:
  assumes "O_Bad \<notin> set (map kind_of gs)" "asks_install (set (map kind_of gs)) \<or> asks_type (set (map kind_of gs))"
  shows "0 < last_startup (map kind_of gs)"
proof -
  define vs where "vs = List.map_filter startup_value (map kind_of gs)"
  have pos: "startup_value (kind_of g) = Some n \<Longrightarrow> 0 < n" for g n
    by (auto simp: kind_of_def Let_def DEFAULT_SERVICE_INIT_STARTUP_def split: if_splits)
  obtain k n where "k \<in> set (map kind_of gs)" "startup_value k = Some n"
    using assms(2) unfolding asks_install_def asks_type_def by (metis startup_value.simps(1,2))
  then have "vs \<noteq> []" unfolding vs_def List.map_filter_def by (force simp: filter_empty_conv)
  moreover have "\<forall>v \<in> set vs. 0 < v"
    using pos by (auto simp: vs_def List.map_filter_def)
  ultimately show ?thesis by (simp add: last_startup_def flip: vs_def)
qed

text \<open>
  A run performs one operation on the service, the one its command line asks for, and
  returns whether it worked, or it prints the usage and exits with nothing done.  To install
  comes before all else, then to remove; given both, neither is done and the rest decides, in
  the end even running the service.  A start-up type that is passed on is always positive.
\<close>

lemma process_run_requested:
  "process_run fails args =
     (case requested (map kind_of args) of
        None \<Rightarrow> ([], Usage_Exit)
      | Some op \<Rightarrow> ([op], Returned (if fails op \<and> op \<notin> {Run_Debug, Run_Service} then -1 else 0))) \<and>
   (case requested (map kind_of args) of
      Some (Insert n) \<Rightarrow> 0 < n | Some (Startup n) \<Rightarrow> 0 < n | _ \<Rightarrow> True)"
proof -
  define K where "K = set (map kind_of args)"
  show ?thesis
  proof (cases "process_parse_args args new_process")
    case None
    then show ?thesis
      using parse_args_follow [of args new_process] by (simp add: process_run_def requested_def Let_def)
  next
    case (Some p)
    have ok: "O_Bad \<notin> set (map kind_of args)" and f: "follows K (last_startup (map kind_of args)) new_process p"
      using Some parse_args_follow [of args new_process]
      by (simp_all add: last_startup_def K_def new_process_def)
    have flags: "opt_install p = asks_install K" "opt_remove p = (O_Remove \<in> K)" "opt_start p = (O_Start \<in> K)"
      "opt_kill p = (O_Kill \<in> K)" "opt_type p = asks_type K" "opt_debug p = (O_Debug \<in> K)"
      "opt_startup p = last_startup (map kind_of args)"
      using f by (simp_all add: follows_def new_process_def)
    have r: "requested (map kind_of args) =
        (if asks_install K \<noteq> (O_Remove \<in> K)
           then Some (if O_Remove \<in> K then Remove_Service else Insert (last_startup (map kind_of args)))
         else if O_Start \<in> K \<and> O_Kill \<in> K then None
         else Some (if O_Start \<in> K then Start_Svc else if O_Kill \<in> K then Stop_Svc
           else if asks_type K then Startup (last_startup (map kind_of args))
           else if O_Debug \<in> K then Run_Debug else Run_Service))"
      using ok unfolding requested_def Let_def K_def [symmetric] by (simp only: if_False)
    have "process_run fails args =
       (case requested (map kind_of args) of
          None \<Rightarrow> ([], Usage_Exit)
        | Some op \<Rightarrow> ([op], Returned (if fails op \<and> op \<notin> {Run_Debug, Run_Service} then -1 else 0)))"
      unfolding process_run_def Some Let_def r option.case flags
      by (cases "asks_install K"; cases "O_Remove \<in> K"; cases "O_Start \<in> K"; cases "O_Kill \<in> K"; simp)
    moreover have "case requested (map kind_of args) of
        Some (Insert n) \<Rightarrow> 0 < n | Some (Startup n) \<Rightarrow> 0 < n | _ \<Rightarrow> True"
      using last_startup_positive [OF ok] unfolding r K_def [symmetric]
      by (cases "asks_install K"; cases "O_Remove \<in> K"; simp)
    ultimately show ?thesis by blast
  qed
qed

end
