(* ===== verification/Chunked.thy ===== *)
theory Chunked
  imports Agent_Effects
begin

section \<open>Parsers fed in chunks\<close>

text \<open>
  The interface of a parser that takes one item at a time and may be fed its input in pieces:
  \<open>step\<close> handles one item, \<open>more\<close> is the result that asks for more input, and \<open>parse_all\<close> is
  the loop over one piece, which returns what it did not read.  The client's question is
  whether the pieces matter.
\<close>

locale chunked =
  fixes step :: "'s \<Rightarrow> 'c \<Rightarrow> ('r \<times> 's) outcome"
    and more :: 'r
    and parse_all :: "'s \<Rightarrow> 'c list \<Rightarrow> (('r \<times> 's) \<times> 'c list) outcome"
  assumes parse_Nil: "parse_all s [] = Inr ((more, s), [])"
    and parse_Cons: "parse_all s (c # cs) =
      (case step s c of
         Inl u \<Rightarrow> Inl u
       | Inr rs \<Rightarrow> if fst rs = more then parse_all (snd rs) cs else Inr (rs, cs))"
begin

lemma more_reads_all: "parse_all s cs = Inr ((more, s'), rest) \<Longrightarrow> rest = []"
  by (induction cs arbitrary: s) (auto simp: parse_Nil parse_Cons split: sum.splits if_splits)

lemma parse_append:
  "parse_all s (xs @ ys) =
     (case parse_all s xs of
        Inl u \<Rightarrow> Inl u
      | Inr (rs, rest) \<Rightarrow>
          if fst rs = more then parse_all (snd rs) ys else Inr (rs, rest @ ys))"
  by (induction xs arbitrary: s) (auto simp: parse_Nil parse_Cons split: sum.split)

text \<open>Piece after piece, until one gives a result; the pieces after it are left.\<close>

fun feed :: "'s \<Rightarrow> 'c list list \<Rightarrow> (('r \<times> 's) \<times> 'c list) outcome" where
  "feed s [] = Inr ((more, s), [])"
| "feed s (xs # xss) =
     (case parse_all s xs of
        Inl u \<Rightarrow> Inl u
      | Inr (rs, rest) \<Rightarrow>
          if fst rs = more then feed (snd rs) xss else Inr (rs, rest @ concat xss))"

lemma feed_concat: "feed s xss = parse_all s (concat xss)"
proof (induction xss arbitrary: s)
  case Nil
  then show ?case by (simp add: parse_Nil)
next
  case (Cons xs xss)
  then show ?case by (auto simp: parse_append split: sum.split)
qed

text \<open>An invariant of the steps holds of every state the loop reaches.\<close>

lemma parse_invariant:
  assumes "P s" and "\<And>s c r s'. P s \<Longrightarrow> step s c = Inr (r, s') \<Longrightarrow> P s'"
    and "parse_all s cs = Inr ((r, s'), rest)"
  shows "P s'"
  using assms(1,3)
proof (induction cs arbitrary: s)
  case Nil
  then show ?case by (simp add: parse_Nil)
next
  case (Cons c cs)
  obtain rs where step: "step s c = Inr rs"
    using Cons.prems(2) by (auto simp: parse_Cons split: sum.splits)
  have "P (snd rs)" using assms(2) [OF Cons.prems(1)] step by (metis prod.collapse)
  with Cons step show ?case by (auto simp: parse_Cons split: if_splits)
qed

end

end
