(* ===== verification/Http_Parser.thy ===== *)
theory Http_Parser
  imports Chunked
begin

section \<open>The HTTP server: parsing a request\<close>

text \<open>
  \<open>server/header.hpp\<close>, \<open>server/request.hpp\<close>, \<open>server/request_parser.hpp\<close> and
  \<open>server/request_parser.cpp\<close>: a parser that takes one character at a time, and the loop that
  feeds it.  \<open>char\<close> is signed in this build.
\<close>

record header =
  header_name :: cstring
  header_value :: cstring

record request =
  rq_method :: cstring
  rq_uri :: cstring
  rq_major :: int
  rq_minor :: int
  rq_headers :: "header list"
  rq_parameters :: "header list"

definition new_request :: request where
  "new_request = \<lparr>rq_method = [], rq_uri = [], rq_major = 0, rq_minor = 0, rq_headers = [],
     rq_parameters = []\<rparr>"

definition new_header :: header where
  "new_header = \<lparr>header_name = [], header_value = []\<rparr>"

datatype result_type = Good | Bad | Indeterminate

datatype parser_state =
    Method_Start | Method | Uri
  | Http_Version_H | Http_Version_T_1 | Http_Version_T_2 | Http_Version_P | Http_Version_Slash
  | Http_Version_Major_Start | Http_Version_Major | Http_Version_Minor_Start | Http_Version_Minor
  | Expecting_Newline_1 | Header_Line_Start | Header_Lws | Header_Name
  | Space_Before_Header_Value | Header_Value | Expecting_Newline_2 | Expecting_Newline_3

subsection \<open>Character classes\<close>

text \<open>A signed \<open>char\<close> converted to \<open>int\<close>.\<close>

definition c_int :: "char \<Rightarrow> int" where
  "c_int c = (let n = (of_char c :: nat) in if n < 128 then int n else int n - 256)"

definition is_char :: "int \<Rightarrow> bool" where
  "is_char c \<longleftrightarrow> c \<ge> 0 \<and> c \<le> 127"

definition is_ctl :: "int \<Rightarrow> bool" where
  "is_ctl c \<longleftrightarrow> (c \<ge> 0 \<and> c \<le> 31) \<or> c = 127"

definition http_is_digit :: "int \<Rightarrow> bool" where
  "http_is_digit c \<longleftrightarrow> c \<ge> 48 \<and> c \<le> 57"

definition tspecials :: cstring where
  "tspecials = ''()<>@,;:'' @ [CHR 0x5C, CHR 0x22] @ ''/[]?={} '' @ [CHR 0x09]"

definition is_tspecial :: "int \<Rightarrow> bool" where
  "is_tspecial c \<longleftrightarrow> c \<in> set (map c_int tspecials)"

text \<open>\<open>is_char(c) && !is_ctl(c) && !is_tspecial(c)\<close>: a character of a token.\<close>

definition token_char :: "char \<Rightarrow> bool" where
  "token_char c \<longleftrightarrow> is_char (c_int c) \<and> \<not> is_ctl (c_int c) \<and> \<not> is_tspecial (c_int c)"

subsection \<open>consume\<close>

text \<open>The answer for one character: the result, the next state and the request so far.\<close>

type_synonym consumed = "result_type \<times> parser_state \<times> request"

text \<open>\<open>headers.back()\<close> of an empty vector is undefined.\<close>

definition update_back :: "(header \<Rightarrow> header) \<Rightarrow> request \<Rightarrow> request outcome" where
  "update_back f rq =
     (if rq_headers rq = [] then Inl (Undefined Out_Of_Range)
      else Inr (rq\<lparr>rq_headers := butlast (rq_headers rq) @ [f (last (rq_headers rq))]\<rparr>))"

definition append_name :: "char \<Rightarrow> request \<Rightarrow> request outcome" where
  "append_name c = update_back (\<lambda>h. h\<lparr>header_name := header_name h @ [c]\<rparr>)"

definition append_value :: "char \<Rightarrow> request \<Rightarrow> request outcome" where
  "append_value c = update_back (\<lambda>h. h\<lparr>header_value := header_value h @ [c]\<rparr>)"

text \<open>\<open>n * 10 + input - '0'\<close> in \<open>int\<close>: an overflow is undefined.\<close>

definition next_number :: "int \<Rightarrow> char \<Rightarrow> int outcome" where
  "next_number n c =
     (let m = n * 10 + c_int c
      in if m \<ge> 2 ^ 31 then Inl (Undefined Integer_Overflow) else Inr (m - 48))"

definition map_outcome :: "('a \<Rightarrow> 'b) \<Rightarrow> 'a outcome \<Rightarrow> 'b outcome" where
  "map_outcome f r = (case r of Inl x \<Rightarrow> Inl x | Inr a \<Rightarrow> Inr (f a))"

definition going :: "parser_state \<Rightarrow> request \<Rightarrow> consumed" where
  "going st rq = (Indeterminate, st, rq)"

definition expect :: "char \<Rightarrow> char \<Rightarrow> parser_state \<Rightarrow> parser_state \<Rightarrow> request \<Rightarrow> consumed" where
  "expect wanted input st st' rq = (if input = wanted then going st' rq else (Bad, st, rq))"

definition consume_line :: "parser_state \<Rightarrow> request \<Rightarrow> char \<Rightarrow> consumed" where
  "consume_line st rq input =
     (case st of
        Method_Start \<Rightarrow>
          if \<not> token_char input then (Bad, st, rq)
          else going Method (rq\<lparr>rq_method := rq_method rq @ [input]\<rparr>)
      | Method \<Rightarrow>
          if input = CHR '' '' then going Uri rq
          else if \<not> token_char input then (Bad, st, rq)
          else going Method (rq\<lparr>rq_method := rq_method rq @ [input]\<rparr>)
      | Uri \<Rightarrow>
          if input = CHR '' '' then going Http_Version_H rq
          else if is_ctl (c_int input) then (Bad, st, rq)
          else going Uri (rq\<lparr>rq_uri := rq_uri rq @ [input]\<rparr>)
      | Http_Version_H \<Rightarrow> expect CHR ''H'' input st Http_Version_T_1 rq
      | Http_Version_T_1 \<Rightarrow> expect CHR ''T'' input st Http_Version_T_2 rq
      | Http_Version_T_2 \<Rightarrow> expect CHR ''T'' input st Http_Version_P rq
      | Http_Version_P \<Rightarrow> expect CHR ''P'' input st Http_Version_Slash rq
      | Http_Version_Slash \<Rightarrow>
          if input = CHR ''/'' then going Http_Version_Major_Start (rq\<lparr>rq_major := 0, rq_minor := 0\<rparr>)
          else (Bad, st, rq)
      | Expecting_Newline_1 \<Rightarrow> expect LF input st Header_Line_Start rq
      | _ \<Rightarrow> (Bad, st, rq))"

definition consume_version :: "parser_state \<Rightarrow> request \<Rightarrow> char \<Rightarrow> consumed outcome" where
  "consume_version st rq input =
     (let digit = http_is_digit (c_int input);
          major = map_outcome (\<lambda>n. going Http_Version_Major (rq\<lparr>rq_major := n\<rparr>))
                    (next_number (rq_major rq) input);
          minor = map_outcome (\<lambda>n. going Http_Version_Minor (rq\<lparr>rq_minor := n\<rparr>))
                    (next_number (rq_minor rq) input);
          bad = Inr (Bad, st, rq)
      in case st of
           Http_Version_Major_Start \<Rightarrow> if digit then major else bad
         | Http_Version_Major \<Rightarrow>
             if input = CHR ''.'' then Inr (going Http_Version_Minor_Start rq)
             else if digit then major else bad
         | Http_Version_Minor_Start \<Rightarrow> if digit then minor else bad
         | Http_Version_Minor \<Rightarrow>
             if input = CR then Inr (going Expecting_Newline_1 rq)
             else if digit then minor else bad
         | _ \<Rightarrow> bad)"

definition consume_headers :: "parser_state \<Rightarrow> request \<Rightarrow> char \<Rightarrow> consumed outcome" where
  "consume_headers st rq input =
     (let bad = Inr (Bad, st, rq); blank = (input = CHR '' '' \<or> input = CHR 0x09);
          value = map_outcome (going Header_Value) (append_value input rq)
      in case st of
           Header_Line_Start \<Rightarrow>
             if input = CR then Inr (going Expecting_Newline_3 rq)
             else if rq_headers rq \<noteq> [] \<and> blank then Inr (going Header_Lws rq)
             else if \<not> token_char input then bad
             else map_outcome (going Header_Name)
                    (append_name input (rq\<lparr>rq_headers := rq_headers rq @ [new_header]\<rparr>))
         | Header_Lws \<Rightarrow>
             if input = CR then Inr (going Expecting_Newline_2 rq)
             else if blank then Inr (going Header_Lws rq)
             else if is_ctl (c_int input) then bad
             else value
         | Header_Name \<Rightarrow>
             if input = CHR '':'' then Inr (going Space_Before_Header_Value rq)
             else if \<not> token_char input then bad
             else map_outcome (going Header_Name) (append_name input rq)
         | Space_Before_Header_Value \<Rightarrow>
             if input = CHR '' '' then Inr (going Header_Value rq) else bad
         | Header_Value \<Rightarrow>
             if input = CR then Inr (going Expecting_Newline_2 rq)
             else if is_ctl (c_int input) then bad
             else value
         | Expecting_Newline_2 \<Rightarrow>
             if input = LF then Inr (going Header_Line_Start rq) else bad
         | Expecting_Newline_3 \<Rightarrow> Inr (if input = LF then Good else Bad, st, rq)
         | _ \<Rightarrow> bad)"

definition consume :: "parser_state \<Rightarrow> request \<Rightarrow> char \<Rightarrow> consumed outcome" where
  "consume st rq input =
     (if st \<in> {Http_Version_Major_Start, Http_Version_Major, Http_Version_Minor_Start,
               Http_Version_Minor}
      then consume_version st rq input
      else if st \<in> {Header_Line_Start, Header_Lws, Header_Name, Space_Before_Header_Value,
               Header_Value, Expecting_Newline_2, Expecting_Newline_3}
      then consume_headers st rq input
      else Inr (consume_line st rq input))"

subsection \<open>parse\<close>

fun parse_chars ::
    "parser_state \<Rightarrow> request \<Rightarrow> cstring \<Rightarrow> (consumed \<times> cstring) outcome" where
  "parse_chars st rq [] = Inr ((Indeterminate, st, rq), [])"
| "parse_chars st rq (c # cs) =
     (case consume st rq c of
        Inl u \<Rightarrow> Inl u
      | Inr (result, st', rq') \<Rightarrow>
          if result = Good \<or> result = Bad then Inr ((result, st', rq'), cs)
          else parse_chars st' rq' cs)"

interpretation http: chunked "\<lambda>s. consume (fst s) (snd s)" Indeterminate
  "\<lambda>s. parse_chars (fst s) (snd s)"
proof
  fix s :: "parser_state \<times> request" and c cs
  show "parse_chars (fst s) (snd s) [] = Inr ((Indeterminate, s), [])"
    by (cases s) simp
  have "r = Good \<or> r = Bad \<longleftrightarrow> r \<noteq> Indeterminate" for r by (cases r) auto
  then show "parse_chars (fst s) (snd s) (c # cs) =
      (case consume (fst s) (snd s) c of
         Inl u \<Rightarrow> Inl u
       | Inr rs \<Rightarrow> if fst rs = Indeterminate then parse_chars (fst (snd rs)) (snd (snd rs)) cs
                  else Inr (rs, cs))"
    by (simp split: sum.split)
qed

text \<open>The connection parses each piece it receives, until one gives a result.\<close>

fun parse_pieces ::
    "parser_state \<Rightarrow> request \<Rightarrow> cstring list \<Rightarrow> (consumed \<times> cstring) outcome" where
  "parse_pieces st rq [] = Inr ((Indeterminate, st, rq), [])"
| "parse_pieces st rq (p # ps) =
     (case parse_chars st rq p of
        Inl u \<Rightarrow> Inl u
      | Inr ((result, st', rq'), rest) \<Rightarrow>
          if result = Indeterminate then parse_pieces st' rq' ps
          else Inr ((result, st', rq'), rest @ concat ps))"


subsection \<open>What the parser may assume and what it gives\<close>

text \<open>
  The invariant of the loop: in the states of a header there is a header, the numbers are
  32-bit and never negative, and what has been read so far consists of the characters its place
  allows.
\<close>

definition header_ok :: "header \<Rightarrow> bool" where
  "header_ok h \<longleftrightarrow> header_name h \<noteq> [] \<and> list_all token_char (header_name h) \<and>
     list_all (\<lambda>c. \<not> is_ctl (c_int c)) (header_value h)"

definition line_ok :: "parser_state \<Rightarrow> request \<Rightarrow> bool" where
  "line_ok st rq \<longleftrightarrow>
     list_all token_char (rq_method rq) \<and> (st = Method_Start \<or> rq_method rq \<noteq> []) \<and>
     list_all (\<lambda>c. c \<noteq> CHR '' '' \<and> \<not> is_ctl (c_int c)) (rq_uri rq) \<and>
     0 \<le> rq_major rq \<and> rq_major rq < 2 ^ 31 \<and> 0 \<le> rq_minor rq \<and> rq_minor rq < 2 ^ 31"

definition in_header :: "parser_state \<Rightarrow> bool" where
  "in_header st \<longleftrightarrow> st \<in> {Header_Lws, Header_Name, Space_Before_Header_Value, Header_Value,
     Expecting_Newline_2}"

definition parser_inv :: "parser_state \<times> request \<Rightarrow> bool" where
  "parser_inv s \<longleftrightarrow> line_ok (fst s) (snd s) \<and> list_all header_ok (rq_headers (snd s)) \<and>
     (rq_headers (snd s) \<noteq> [] \<or> \<not> in_header (fst s))"

lemma list_all_butlast_last:
  "xs \<noteq> [] \<Longrightarrow> list_all P xs \<longleftrightarrow> list_all P (butlast xs) \<and> P (last xs)"
  by (induction xs rule: rev_induct) auto

text \<open>\<open>rq'\<close> is \<open>rq\<close> with other headers, one at least, all well formed.\<close>

definition headers_done :: "request \<Rightarrow> request \<Rightarrow> bool" where
  "headers_done rq rq' \<longleftrightarrow> (\<forall>st. line_ok st rq' = line_ok st rq) \<and>
     list_all header_ok (rq_headers rq') \<and> rq_headers rq' \<noteq> []"

lemma append_name_ok:
  assumes "append_name c rq = Inr rq'" "token_char c" "list_all header_ok (rq_headers rq)"
  shows "headers_done rq rq'"
  using assms list_all_butlast_last [of "rq_headers rq" header_ok]
  by (auto simp: append_name_def update_back_def header_ok_def headers_done_def line_ok_def
      split: if_splits)

lemma first_name_ok:
  assumes "append_name c (rq\<lparr>rq_headers := rq_headers rq @ [new_header]\<rparr>) = Inr rq'" "token_char c"
    and "list_all header_ok (rq_headers rq)"
  shows "headers_done rq rq'"
  using assms
  by (auto simp: append_name_def update_back_def header_ok_def headers_done_def line_ok_def
      new_header_def)

lemma append_value_ok:
  assumes "append_value c rq = Inr rq'" "\<not> is_ctl (c_int c)" "list_all header_ok (rq_headers rq)"
  shows "headers_done rq rq'"
  using assms list_all_butlast_last [of "rq_headers rq" header_ok]
  by (auto simp: append_value_def update_back_def header_ok_def headers_done_def line_ok_def
      split: if_splits)

lemma next_number_ok:
  "next_number n c = Inr m \<Longrightarrow> http_is_digit (c_int c) \<Longrightarrow> 0 \<le> n \<Longrightarrow> 0 \<le> m \<and> m < 2 ^ 31"
  by (auto simp: next_number_def http_is_digit_def Let_def split: if_splits)

lemma map_outcome_Inr: "map_outcome f r = Inr b \<longleftrightarrow> (\<exists>a. r = Inr a \<and> b = f a)"
  by (auto simp: map_outcome_def split: sum.split)

lemma map_outcome_Inl: "map_outcome f r = Inl b \<longleftrightarrow> r = Inl b"
  by (auto simp: map_outcome_def split: sum.split)

lemma line_inv:
  assumes "parser_inv (st, rq)" and "consume_line st rq c = (r, st', rq')"
  shows "parser_inv (st', rq')"
  using assms
  by (cases st)
    (auto simp: consume_line_def expect_def going_def parser_inv_def line_ok_def in_header_def
      split: if_splits)

lemma version_inv:
  assumes "parser_inv (st, rq)" and "consume_version st rq c = Inr (r, st', rq')"
  shows "parser_inv (st', rq')"
  using assms next_number_ok [of "rq_major rq" c] next_number_ok [of "rq_minor rq" c]
  by (cases st)
    (auto simp: consume_version_def going_def parser_inv_def line_ok_def in_header_def Let_def
      map_outcome_Inr split: if_splits)

lemma line_ok_later: "line_ok st rq \<Longrightarrow> st \<noteq> Method_Start \<Longrightarrow> line_ok st' rq"
  by (simp add: line_ok_def)

lemma headers_done_inv:
  "headers_done rq rq' \<Longrightarrow> line_ok st rq \<Longrightarrow> st \<noteq> Method_Start \<Longrightarrow> parser_inv (st', rq')"
  using line_ok_later [of st rq st'] by (simp add: headers_done_def parser_inv_def)

lemma headers_inv:
  assumes inv: "parser_inv (st, rq)" and step: "consume_headers st rq c = Inr (r, st', rq')"
  shows "parser_inv (st', rq')"
proof -
  have hs: "list_all header_ok (rq_headers rq)" using inv by (simp add: parser_inv_def)
  have "rq' = rq \<and> (st' = st \<or> st \<noteq> Method_Start \<and> (in_header st' \<longrightarrow> rq_headers rq \<noteq> [])) \<or>
      st \<noteq> Method_Start \<and> headers_done rq rq'"
    using step inv append_name_ok [OF _ _ hs, of c rq'] append_value_ok [OF _ _ hs, of c rq']
      first_name_ok [OF _ _ hs, of c rq']
    by (cases st)
      (auto simp: consume_headers_def going_def Let_def map_outcome_Inr in_header_def
        parser_inv_def split: if_splits)
  then show ?thesis
    using inv headers_done_inv [of rq rq' st st'] line_ok_later [of st rq st']
    by (auto simp: parser_inv_def)
qed

lemma consume_inv:
  assumes "parser_inv s" and "consume (fst s) (snd s) c = Inr (r, s')"
  shows "parser_inv s'"
  using assms line_inv [of "fst s" "snd s" c r "fst s'" "snd s'"]
    version_inv [of "fst s" "snd s" c r "fst s'" "snd s'"]
    headers_inv [of "fst s" "snd s" c r "fst s'" "snd s'"]
  by (auto simp: consume_def split: if_splits)

lemma consume_ub:
  assumes "parser_inv (st, rq)" and "consume st rq c = Inl u"
  shows "u = Undefined Integer_Overflow"
  using assms
  by (cases st)
    (auto simp: consume_def consume_version_def consume_headers_def Let_def map_outcome_Inl
      next_number_def append_name_def append_value_def update_back_def parser_inv_def
      in_header_def split: if_splits)

lemma new_request_inv: "parser_inv (Method_Start, new_request)"
  by (simp add: parser_inv_def new_request_def line_ok_def in_header_def)

lemma parse_chars_ub:
  "parser_inv (st, rq) \<Longrightarrow> parse_chars st rq cs = Inl u \<Longrightarrow> u = Undefined Integer_Overflow"
proof (induction cs arbitrary: st rq)
  case Nil
  then show ?case by simp
next
  case (Cons c cs)
  show ?case
  proof (cases "consume st rq c")
    case (Inl v)
    with Cons.prems show ?thesis using consume_ub by simp
  next
    case (Inr a)
    obtain r st' rq' where a: "a = (r, st', rq')" by (cases a)
    with Inr Cons.prems(1) have "parser_inv (st', rq')"
      using consume_inv [of "(st, rq)" c r "(st', rq')"] by simp
    with Cons Inr a show ?thesis by (auto split: if_splits)
  qed
qed

text \<open>
  C13: whatever a new connection receives, the parser does not fail but by an overflow of the
  version numbers, and what it has read is well formed: a method that is a token (and not empty
  once past it), a URI without blanks and control characters, version numbers in 32 bits, and
  headers whose names are non-empty tokens and whose values have no control character.
\<close>

theorem parse_well_formed:
  "case parse_chars Method_Start new_request cs of
     Inl u \<Rightarrow> u = Undefined Integer_Overflow
   | Inr ((_, st, rq), _) \<Rightarrow> parser_inv (st, rq)"
proof (cases "parse_chars Method_Start new_request cs")
  case (Inl u)
  then show ?thesis using parse_chars_ub [OF new_request_inv] by simp
next
  case (Inr r)
  then obtain res st rq rest where r: "parse_chars Method_Start new_request cs = Inr ((res, st, rq), rest)"
    by (cases r) auto
  then have "parser_inv (st, rq)"
    using http.parse_invariant [of parser_inv "(Method_Start, new_request)" cs res "(st, rq)" rest]
      new_request_inv consume_inv by auto
  with r show ?thesis by simp
qed

end
