(* ===== verification/Http_Grammar.thy ===== *)
theory Http_Grammar
  imports Http_Parser
begin

section \<open>The requests the parser accepts\<close>

text \<open>
  The specification of the parser of \<open>Http_Parser\<close>: the text of a request, written out as HTTP
  writes it, and the theorem that parsing inverts it.
\<close>

definition crlf :: cstring where "crlf = [CR, LF]"

definition render_header :: "header \<Rightarrow> cstring" where
  "render_header h = header_name h @ CHR '':'' # CHR '' '' # header_value h @ crlf"

definition render_version :: "request \<Rightarrow> cstring" where
  "render_version rq = show_int (rq_major rq) @ CHR ''.'' # show_int (rq_minor rq) @ crlf"

definition render_request :: "request \<Rightarrow> cstring" where
  "render_request rq =
     rq_method rq @ CHR '' '' # rq_uri rq @ CHR '' '' # ''HTTP/'' @ render_version rq @
       concat (map render_header (rq_headers rq)) @ crlf"

text \<open>The largest number the code reads without overflow: \<open>n * 10 + c\<close> is computed before
  \<open>'0'\<close> is subtracted.\<close>

definition max_version :: int where "max_version = 2 ^ 31 - 1 - 57"

definition renderable :: "request \<Rightarrow> bool" where
  "renderable rq \<longleftrightarrow>
     rq_method rq \<noteq> [] \<and> list_all token_char (rq_method rq) \<and>
     list_all (\<lambda>c. c \<noteq> CHR '' '' \<and> \<not> is_ctl (c_int c)) (rq_uri rq) \<and>
     0 \<le> rq_major rq \<and> rq_major rq \<le> max_version \<and>
     0 \<le> rq_minor rq \<and> rq_minor rq \<le> max_version \<and>
     list_all header_ok (rq_headers rq) \<and> rq_parameters rq = []"

subsection \<open>One part of a request after the other\<close>

lemma token_char_facts:
  assumes "token_char c"
  shows "c \<noteq> CHR '' ''" "c \<noteq> CHR '':''" "c \<noteq> CHR 0x09" "c \<noteq> CR"
  using assms
  by (auto simp: token_char_def is_tspecial_def tspecials_def is_ctl_def c_int_def)

lemma value_char_facts: "\<not> is_ctl (c_int c) \<Longrightarrow> c \<noteq> CR"
  by (auto simp: is_ctl_def c_int_def)

lemma parse_step:
  "consume st rq c = Inr (going st' rq') \<Longrightarrow> parse_chars st rq (c # cs) = parse_chars st' rq' cs"
  by (simp add: going_def)

lemma parse_method:
  "list_all token_char cs \<Longrightarrow>
     parse_chars Method rq (cs @ CHR '' '' # r) =
     parse_chars Uri (rq\<lparr>rq_method := rq_method rq @ cs\<rparr>) r"
  by (induction cs arbitrary: rq)
    (auto simp: consume_def consume_line_def going_def dest: token_char_facts)

lemma parse_uri:
  "list_all (\<lambda>c. c \<noteq> CHR '' '' \<and> \<not> is_ctl (c_int c)) cs \<Longrightarrow>
     parse_chars Uri rq (cs @ CHR '' '' # r) =
     parse_chars Http_Version_H (rq\<lparr>rq_uri := rq_uri rq @ cs\<rparr>) r"
  by (induction cs arbitrary: rq) (auto simp: consume_def consume_line_def going_def)

lemma parse_http:
  "parse_chars Http_Version_H rq (CHR ''H'' # CHR ''T'' # CHR ''T'' # CHR ''P'' # CHR ''/'' # r) =
     parse_chars Http_Version_Major_Start (rq\<lparr>rq_major := 0, rq_minor := 0\<rparr>) r"
  by (simp add: consume_def consume_line_def expect_def going_def)

lemma digits_value_mono: "n \<le> digits_value n cs"
proof (induction cs arbitrary: n)
  case (Cons c cs)
  have "n \<le> 10 * n + digit_value c" by simp
  with Cons [of "10 * n + digit_value c"] show ?case by simp
qed simp

lemma digit_c_int:
  assumes "is_digit c"
  shows "http_is_digit (c_int c)" "c_int c = int (digit_value c) + 48" "digit_value c \<le> 9"
    "c \<noteq> CHR ''.''" "c \<noteq> CR" "http_is_digit (int (digit_value c) + 48)"
  using assms by (auto simp: is_digit_def http_is_digit_def c_int_def digit_value_def Let_def)

lemma next_number_digit:
  assumes "is_digit c" "int (10 * n + digit_value c) \<le> max_version"
  shows "next_number (int n) c = Inr (int (10 * n + digit_value c))"
  using assms digit_c_int [OF assms(1)]
  by (simp add: next_number_def Let_def max_version_def)

lemma parse_major:
  "list_all is_digit cs \<Longrightarrow> int (digits_value n cs) \<le> max_version \<Longrightarrow> rq_major rq = int n \<Longrightarrow>
     parse_chars Http_Version_Major rq (cs @ CHR ''.'' # r) =
     parse_chars Http_Version_Minor_Start (rq\<lparr>rq_major := int (digits_value n cs)\<rparr>) r"
proof (induction cs arbitrary: rq n)
  case Nil
  then have "rq\<lparr>rq_major := int n\<rparr> = rq" by simp
  then show ?case by (simp add: consume_def consume_version_def going_def)
next
  case (Cons c cs)
  then have "int (10 * n + digit_value c) \<le> max_version"
    using digits_value_mono [of "10 * n + digit_value c" cs] by simp
  with Cons show ?case
    using Cons.IH [of "10 * n + digit_value c" "rq\<lparr>rq_major := int (10 * n + digit_value c)\<rparr>"]
    by (simp add: consume_def consume_version_def Let_def digit_c_int next_number_digit
        map_outcome_def going_def)
qed

lemma parse_minor:
  "list_all is_digit cs \<Longrightarrow> int (digits_value n cs) \<le> max_version \<Longrightarrow> rq_minor rq = int n \<Longrightarrow>
     parse_chars Http_Version_Minor rq (cs @ CR # r) =
     parse_chars Expecting_Newline_1 (rq\<lparr>rq_minor := int (digits_value n cs)\<rparr>) r"
proof (induction cs arbitrary: rq n)
  case Nil
  then have "rq\<lparr>rq_minor := int n\<rparr> = rq" by simp
  then show ?case by (simp add: consume_def consume_version_def going_def)
next
  case (Cons c cs)
  then have "int (10 * n + digit_value c) \<le> max_version"
    using digits_value_mono [of "10 * n + digit_value c" cs] by simp
  with Cons show ?case
    using Cons.IH [of "10 * n + digit_value c" "rq\<lparr>rq_minor := int (10 * n + digit_value c)\<rparr>"]
    by (simp add: consume_def consume_version_def Let_def digit_c_int next_number_digit
        map_outcome_def going_def)
qed

text \<open>The first digit is read in a state of its own, with the same effect.\<close>

lemma first_digit:
  "is_digit c \<Longrightarrow> consume Http_Version_Major_Start rq c = consume Http_Version_Major rq c \<and>
     consume Http_Version_Minor_Start rq c = consume Http_Version_Minor rq c"
  by (simp add: consume_def consume_version_def Let_def digit_c_int next_number_def
      map_outcome_def)

lemma parse_first_digit:
  "is_digit c \<Longrightarrow> parse_chars Http_Version_Major_Start rq (c # cs) = parse_chars Http_Version_Major rq (c # cs)"
  "is_digit c \<Longrightarrow> parse_chars Http_Version_Minor_Start rq (c # cs) = parse_chars Http_Version_Minor rq (c # cs)"
  by (simp_all add: first_digit)

lemma parse_version:
  assumes "0 \<le> major" "major \<le> max_version" "0 \<le> minor" "minor \<le> max_version"
    and "rq_major rq = 0" "rq_minor rq = 0"
  shows "parse_chars Http_Version_Major_Start rq (show_int major @ CHR ''.'' # show_int minor @ crlf @ r) =
    parse_chars Header_Line_Start (rq\<lparr>rq_major := major, rq_minor := minor\<rparr>) r"
proof -
  obtain a as where a: "show_nat (nat major) = a # as" by (cases "show_nat (nat major)") auto
  obtain b bs where b: "show_nat (nat minor) = b # bs" by (cases "show_nat (nat minor)") auto
  have digits: "list_all is_digit (show_nat n)" for n
    using show_nat_digits by (simp add: list_all_iff)
  have dig: "is_digit a" "is_digit b" using digits [of "nat major"] digits [of "nat minor"] a b by auto
  have "parse_chars Http_Version_Major_Start rq (show_nat (nat major) @ CHR ''.'' # show_nat (nat minor) @ crlf @ r) =
      parse_chars Http_Version_Major rq (show_nat (nat major) @ CHR ''.'' # show_nat (nat minor) @ crlf @ r)"
    using dig unfolding a by (simp only: append_Cons parse_first_digit)
  also have "\<dots> = parse_chars Http_Version_Minor_Start (rq\<lparr>rq_major := major\<rparr>) (show_nat (nat minor) @ crlf @ r)"
    using assms digits parse_major [of "show_nat (nat major)" 0 rq] by (simp add: digits_value_show_nat)
  also have "\<dots> = parse_chars Http_Version_Minor (rq\<lparr>rq_major := major\<rparr>) (show_nat (nat minor) @ crlf @ r)"
    using dig unfolding b by (simp only: append_Cons parse_first_digit)
  also have "\<dots> = parse_chars Expecting_Newline_1 (rq\<lparr>rq_major := major, rq_minor := minor\<rparr>) (LF # r)"
    using assms digits parse_minor [of "show_nat (nat minor)" 0 "rq\<lparr>rq_major := major\<rparr>"]
    by (simp add: digits_value_show_nat crlf_def)
  also have "\<dots> = parse_chars Header_Line_Start (rq\<lparr>rq_major := major, rq_minor := minor\<rparr>) r"
    by (simp add: consume_def consume_line_def expect_def going_def)
  finally show ?thesis using assms by (simp add: show_int_def)
qed

lemma same_headers: "rq_headers rq = hs \<Longrightarrow> rq\<lparr>rq_headers := hs\<rparr> = rq"
  by auto

lemma parse_name:
  "list_all token_char cs \<Longrightarrow> rq_headers rq = hs @ [h] \<Longrightarrow>
     parse_chars Header_Name rq (cs @ CHR '':'' # CHR '' '' # r) =
     parse_chars Header_Value (rq\<lparr>rq_headers := hs @ [h\<lparr>header_name := header_name h @ cs\<rparr>]\<rparr>) r"
proof (induction cs arbitrary: rq h)
  case Nil
  then show ?case by (simp add: consume_def consume_headers_def going_def Let_def same_headers)
next
  case (Cons c cs)
  then show ?case
    using token_char_facts [of c]
    by (simp add: consume_def consume_headers_def going_def Let_def append_name_def
        update_back_def map_outcome_def)
qed

lemma parse_value:
  "list_all (\<lambda>c. \<not> is_ctl (c_int c)) cs \<Longrightarrow> rq_headers rq = hs @ [h] \<Longrightarrow>
     parse_chars Header_Value rq (cs @ CR # LF # r) =
     parse_chars Header_Line_Start (rq\<lparr>rq_headers := hs @ [h\<lparr>header_value := header_value h @ cs\<rparr>]\<rparr>) r"
proof (induction cs arbitrary: rq h)
  case Nil
  then show ?case by (simp add: consume_def consume_headers_def going_def Let_def same_headers)
next
  case (Cons c cs)
  then show ?case
    using value_char_facts [of c]
    by (simp add: consume_def consume_headers_def going_def Let_def append_value_def
        update_back_def map_outcome_def)
qed

lemma parse_header:
  assumes "header_ok h"
  shows "parse_chars Header_Line_Start rq (render_header h @ r) =
    parse_chars Header_Line_Start (rq\<lparr>rq_headers := rq_headers rq @ [h]\<rparr>) r"
proof -
  obtain c cs where name: "header_name h = c # cs" and "token_char c" "list_all token_char cs"
    using assms by (cases "header_name h") (auto simp: header_ok_def)
  let ?rq1 = "rq\<lparr>rq_headers := rq_headers rq @ [new_header\<lparr>header_name := [c]\<rparr>]\<rparr>"
  have "parse_chars Header_Line_Start rq (c # cs @ CHR '':'' # CHR '' '' # header_value h @ crlf @ r) =
      parse_chars Header_Name ?rq1 (cs @ CHR '':'' # CHR '' '' # header_value h @ crlf @ r)"
    using \<open>token_char c\<close> token_char_facts [of c]
    by (simp add: consume_def consume_headers_def going_def Let_def append_name_def
        update_back_def map_outcome_def new_header_def)
  also have "\<dots> = parse_chars Header_Value
      (rq\<lparr>rq_headers := rq_headers rq @ [new_header\<lparr>header_name := c # cs\<rparr>]\<rparr>) (header_value h @ crlf @ r)"
    using parse_name [OF \<open>list_all token_char cs\<close>, of ?rq1 "rq_headers rq"] by simp
  also have "\<dots> = parse_chars Header_Line_Start
      (rq\<lparr>rq_headers := rq_headers rq @ [new_header\<lparr>header_name := c # cs, header_value := header_value h\<rparr>]\<rparr>) r"
    using parse_value [of "header_value h"
        "rq\<lparr>rq_headers := rq_headers rq @ [new_header\<lparr>header_name := c # cs\<rparr>]\<rparr>" "rq_headers rq"
        "new_header\<lparr>header_name := c # cs\<rparr>"] assms
    by (simp add: header_ok_def crlf_def new_header_def)
  also have "new_header\<lparr>header_name := c # cs, header_value := header_value h\<rparr> = h"
    using name by (cases h) (simp add: new_header_def)
  finally show ?thesis using name by (simp add: render_header_def)
qed

lemma parse_headers:
  "list_all header_ok hs \<Longrightarrow>
     parse_chars Header_Line_Start rq (concat (map render_header hs) @ r) =
     parse_chars Header_Line_Start (rq\<lparr>rq_headers := rq_headers rq @ hs\<rparr>) r"
proof (induction hs arbitrary: rq)
  case Nil
  then show ?case by simp
next
  case (Cons h hs)
  then show ?case by (simp add: parse_header)
qed

lemma parse_rendered:
  assumes "renderable rq"
  shows "parse_chars Method_Start new_request (render_request rq @ rest) =
    Inr ((Good, Expecting_Newline_3, rq), rest)"
proof -
  obtain c cs where m: "rq_method rq = c # cs" "token_char c" "list_all token_char cs"
    using assms by (cases "rq_method rq") (auto simp: renderable_def)
  have uri: "list_all (\<lambda>c. c \<noteq> CHR '' '' \<and> \<not> is_ctl (c_int c)) (rq_uri rq)"
    and v: "0 \<le> rq_major rq" "rq_major rq \<le> max_version" "0 \<le> rq_minor rq" "rq_minor rq \<le> max_version"
    and hs: "list_all header_ok (rq_headers rq)" and p: "rq_parameters rq = []"
    using assms by (simp_all add: renderable_def)
  have "parse_chars Method_Start new_request (render_request rq @ rest) =
      parse_chars Method (new_request\<lparr>rq_method := [c]\<rparr>)
        (cs @ CHR '' '' # rq_uri rq @ CHR '' '' # ''HTTP/'' @ render_version rq @
         concat (map render_header (rq_headers rq)) @ crlf @ rest)"
    using m by (simp add: render_request_def consume_def consume_line_def going_def new_request_def)
  also have "\<dots> = parse_chars Http_Version_Major_Start
      (new_request\<lparr>rq_method := rq_method rq, rq_uri := rq_uri rq\<rparr>)
        (render_version rq @ concat (map render_header (rq_headers rq)) @ crlf @ rest)"
    using m by (simp add: parse_method parse_uri [OF uri] parse_http new_request_def
        del: parse_chars.simps)
  also have "\<dots> = parse_chars Header_Line_Start
      (new_request\<lparr>rq_method := rq_method rq, rq_uri := rq_uri rq, rq_major := rq_major rq,
         rq_minor := rq_minor rq\<rparr>) (concat (map render_header (rq_headers rq)) @ crlf @ rest)"
    using v by (simp add: render_version_def parse_version new_request_def)
  also have "\<dots> = parse_chars Header_Line_Start rq (crlf @ rest)"
  proof -
    have "new_request\<lparr>rq_method := rq_method rq, rq_uri := rq_uri rq, rq_major := rq_major rq,
        rq_minor := rq_minor rq, rq_headers := rq_headers rq\<rparr> = rq"
      using p by (cases rq) (simp add: new_request_def)
    then show ?thesis by (simp add: parse_headers [OF hs] new_request_def)
  qed
  also have "\<dots> = Inr ((Good, Expecting_Newline_3, rq), rest)"
    by (simp add: crlf_def consume_def consume_headers_def going_def Let_def)
  finally show ?thesis .
qed

text \<open>
  C14: parsing inverts printing: for every well-formed request, however long its method, URI and
  headers and whatever follows it, the parser accepts exactly its text, gives it back, and
  leaves the rest unread.
\<close>

theorem parse_render:
  assumes "renderable rq"
  shows "parse_chars Method_Start new_request (render_request rq @ rest) =
    Inr ((Good, Expecting_Newline_3, rq), rest)"
  by (rule parse_rendered [OF assms])

definition sample_request :: request where
  "sample_request = \<lparr>rq_method = ''GET'', rq_uri = ''/index.html'', rq_major = 1, rq_minor = 0,
     rq_headers = [\<lparr>header_name = ''Host'', header_value = ''localhost''\<rparr>], rq_parameters = []\<rparr>"

theorem parse_render_witness:
  "parse_chars Method_Start new_request (render_request sample_request @ ''body'') =
     Inr ((Good, Expecting_Newline_3, sample_request), ''body'')"
  by (rule parse_render)
    (simp add: renderable_def sample_request_def header_ok_def token_char_def is_char_def is_ctl_def
      is_tspecial_def tspecials_def c_int_def max_version_def)

end
