(* ===== verification/Http_Reply.thy ===== *)
theory Http_Reply
  imports Http_Grammar
begin

section \<open>The HTTP server: replies and static files\<close>

text \<open>
  \<open>server/reply.hpp\<close>, \<open>server/reply.cpp\<close>, \<open>server/mime_types.cpp\<close>,
  \<open>server/request_handler.hpp\<close> and \<open>server/request_handler.cpp\<close>.
\<close>

subsection \<open>reply\<close>

datatype status_type =
    Ok | Created | Accepted | No_Content | Multiple_Choices | Moved_Permanently
  | Moved_Temporarily | Not_Modified | Bad_Request | Unauthorized | Forbidden | Not_Found
  | Internal_Server_Error | Not_Implemented | Bad_Gateway | Service_Unavailable

fun status_number :: "status_type \<Rightarrow> nat" where
  "status_number Ok = 200"
| "status_number Created = 201"
| "status_number Accepted = 202"
| "status_number No_Content = 204"
| "status_number Multiple_Choices = 300"
| "status_number Moved_Permanently = 301"
| "status_number Moved_Temporarily = 302"
| "status_number Not_Modified = 304"
| "status_number Bad_Request = 400"
| "status_number Unauthorized = 401"
| "status_number Forbidden = 403"
| "status_number Not_Found = 404"
| "status_number Internal_Server_Error = 500"
| "status_number Not_Implemented = 501"
| "status_number Bad_Gateway = 502"
| "status_number Service_Unavailable = 503"

fun status_line :: "status_type \<Rightarrow> cstring" where
  "status_line Ok = ''HTTP/1.0 200 OK'' @ crlf"
| "status_line Created = ''HTTP/1.0 201 Created'' @ crlf"
| "status_line Accepted = ''HTTP/1.0 202 Accepted'' @ crlf"
| "status_line No_Content = ''HTTP/1.0 204 No Content'' @ crlf"
| "status_line Multiple_Choices = ''HTTP/1.0 300 Multiple Choices'' @ crlf"
| "status_line Moved_Permanently = ''HTTP/1.0 301 Moved Permanently'' @ crlf"
| "status_line Moved_Temporarily = ''HTTP/1.0 302 Moved Temporarily'' @ crlf"
| "status_line Not_Modified = ''HTTP/1.0 304 Not Modified'' @ crlf"
| "status_line Bad_Request = ''HTTP/1.0 400 Bad Request'' @ crlf"
| "status_line Unauthorized = ''HTTP/1.0 401 Unauthorized'' @ crlf"
| "status_line Forbidden = ''HTTP/1.0 403 Forbidden'' @ crlf"
| "status_line Not_Found = ''HTTP/1.0 404 Not Found'' @ crlf"
| "status_line Internal_Server_Error = ''HTTP/1.0 500 Internal Server Error'' @ crlf"
| "status_line Not_Implemented = ''HTTP/1.0 501 Not Implemented'' @ crlf"
| "status_line Bad_Gateway = ''HTTP/1.0 502 Bad Gateway'' @ crlf"
| "status_line Service_Unavailable = ''HTTP/1.0 503 Service Unavailable'' @ crlf"

record reply =
  rep_status :: status_type
  rep_headers :: "header list"
  rep_content :: cstring

text \<open>The buffers of a reply, in order; what is sent is their concatenation.\<close>

definition to_buffers :: "reply \<Rightarrow> cstring list" where
  "to_buffers r =
     status_line (rep_status r) #
     concat (map (\<lambda>h. [header_name h, '': '', header_value h, crlf]) (rep_headers r)) @
     [crlf, rep_content r]"

definition stock_page :: "cstring \<Rightarrow> cstring \<Rightarrow> cstring" where
  "stock_page title heading =
     ''<html>'' @ ''<head><title>'' @ title @ ''</title></head>'' @
     ''<body><h1>'' @ heading @ ''</h1></body>'' @ ''</html>''"

fun stock_content :: "status_type \<Rightarrow> cstring" where
  "stock_content Ok = []"
| "stock_content Created = stock_page ''Created'' ''201 Created''"
| "stock_content Accepted = stock_page ''Accepted'' ''202 Accepted''"
| "stock_content No_Content = stock_page ''No Content'' ''204 Content''"
| "stock_content Multiple_Choices = stock_page ''Multiple Choices'' ''300 Multiple Choices''"
| "stock_content Moved_Permanently = stock_page ''Moved Permanently'' ''301 Moved Permanently''"
| "stock_content Moved_Temporarily = stock_page ''Moved Temporarily'' ''302 Moved Temporarily''"
| "stock_content Not_Modified = stock_page ''Not Modified'' ''304 Not Modified''"
| "stock_content Bad_Request = stock_page ''Bad Request'' ''400 Bad Request''"
| "stock_content Unauthorized = stock_page ''Unauthorized'' ''401 Unauthorized''"
| "stock_content Forbidden = stock_page ''Forbidden'' ''403 Forbidden''"
| "stock_content Not_Found = stock_page ''Not Found'' ''404 Not Found''"
| "stock_content Internal_Server_Error =
     stock_page ''Internal Server Error'' ''500 Internal Server Error''"
| "stock_content Not_Implemented = stock_page ''Not Implemented'' ''501 Not Implemented''"
| "stock_content Bad_Gateway = stock_page ''Bad Gateway'' ''502 Bad Gateway''"
| "stock_content Service_Unavailable =
     stock_page ''Service Unavailable'' ''503 Service Unavailable''"

definition length_and_type :: "cstring \<Rightarrow> cstring \<Rightarrow> header list" where
  "length_and_type content mime =
     [\<lparr>header_name = ''Content-Length'', header_value = show_nat (length content)\<rparr>,
      \<lparr>header_name = ''Content-Type'', header_value = mime\<rparr>]"

definition stock_reply :: "status_type \<Rightarrow> reply" where
  "stock_reply status =
     (let content = stock_content status
      in \<lparr>rep_status = status, rep_headers = length_and_type content ''text/html'',
          rep_content = content\<rparr>)"

subsection \<open>mime_types\<close>

definition mappings :: "(cstring \<times> cstring) list" where
  "mappings = [(''gif'', ''image/gif''), (''htm'', ''text/html''), (''html'', ''text/html''),
     (''jpg'', ''image/jpeg''), (''png'', ''image/png''), (''js'', ''text/js''),
     (''css'', ''text/css''), (''javascript'', ''application/javascript'')]"

fun find_mapping :: "(cstring \<times> cstring) list \<Rightarrow> cstring \<Rightarrow> cstring" where
  "find_mapping [] extension = ''text/plain''"
| "find_mapping ((e, m) # ms) extension = (if e = extension then m else find_mapping ms extension)"

definition extension_to_type :: "cstring \<Rightarrow> cstring" where
  "extension_to_type extension = find_mapping mappings extension"

subsection \<open>url_decode\<close>

definition is_hex :: "char \<Rightarrow> bool" where
  "is_hex c \<longleftrightarrow> is_digit c \<or> c \<in> set ''abcdefABCDEF''"

definition hex_value :: "char \<Rightarrow> nat" where
  "hex_value c = (let n = of_char c in if n < 58 then n - 48 else if n < 91 then n - 55 else n - 87)"

fun hex_digits :: "nat \<Rightarrow> cstring \<Rightarrow> nat" where
  "hex_digits n [] = n"
| "hex_digits n (c # cs) = hex_digits (16 * n + hex_value c) cs"

text \<open>
  \<open>is >> std::hex >> value\<close> on a stream of two characters: blanks, a sign, an optional \<open>0x\<close>,
  digits; the rest is not looked at.
\<close>

definition extract_hex :: "cstring \<Rightarrow> int option" where
  "extract_hex s =
     (let t = dropWhile is_space s;
          neg = (t \<noteq> [] \<and> hd t = CHR ''-'');
          u = (if t \<noteq> [] \<and> (hd t = CHR ''-'' \<or> hd t = CHR ''+'') then tl t else t);
          v = (if prefix ''0x'' u \<or> prefix ''0X'' u then drop 2 u else u);
          ds = takeWhile is_hex v; n = int (hex_digits 0 ds)
      in if ds = [] then None else Some (if neg then - n else n))"

text \<open>\<open>static_cast<char>(value)\<close>.\<close>

definition to_char :: "int \<Rightarrow> char" where
  "to_char v = char_of (nat (v mod 256))"

fun url_decode :: "cstring \<Rightarrow> cstring option" where
  "url_decode [] = Some []"
| "url_decode (c # cs) =
     (if c = CHR ''%''
      then (case cs of
              a # b # r \<Rightarrow>
                (case extract_hex [a, b] of
                   Some value \<Rightarrow> map_option (\<lambda>out. to_char value # out) (url_decode r)
                 | None \<Rightarrow> None)
            | _ \<Rightarrow> None)
      else if c = CHR ''+'' then map_option (\<lambda>out. CHR '' '' # out) (url_decode cs)
      else map_option (\<lambda>out. c # out) (url_decode cs))"

subsection \<open>handle_request\<close>

text \<open>The path of a request: \<open>None\<close> is a bad request.\<close>

definition request_path :: "cstring \<Rightarrow> cstring option" where
  "request_path uri =
     (case url_decode uri of
        None \<Rightarrow> None
      | Some path \<Rightarrow>
          if path = [] \<or> hd path \<noteq> CHR ''/'' \<or> occurs_in ''..'' path then None
          else Some (if last path = CHR ''/'' then path @ ''index.html'' else path))"

definition path_extension :: "cstring \<Rightarrow> cstring" where
  "path_extension path =
     (case (find_last_of CHR ''.'' path, find_last_of CHR ''/'' path) of
        (Some dot, Some slash) \<Rightarrow> if dot > slash then drop (dot + 1) path else []
      | _ \<Rightarrow> [])"

text \<open>\<open>while (is.read(buf, 512).gcount() > 0) content.append(buf, gcount)\<close>\<close>

function append_blocks :: "cstring \<Rightarrow> cstring \<Rightarrow> cstring" where
  "append_blocks content s =
     (if s = [] then content else append_blocks (content @ take 512 s) (drop 512 s))"
  by auto
termination by (relation "measure (\<lambda>(c, s). length s)") auto

declare append_blocks.simps [simp del]

definition handle_request ::
    "(cstring \<rightharpoonup> cstring) \<Rightarrow> cstring \<Rightarrow> request \<Rightarrow> reply \<Rightarrow> reply" where
  "handle_request fs doc_root req rep =
     (case request_path (rq_uri req) of
        None \<Rightarrow> stock_reply Bad_Request
      | Some path \<Rightarrow>
          (case fs (c_str (doc_root @ path)) of
             None \<Rightarrow> stock_reply Not_Found
           | Some file \<Rightarrow>
               let content = append_blocks (rep_content rep) file
               in \<lparr>rep_status = Ok,
                   rep_headers = length_and_type content (extension_to_type (path_extension path)),
                   rep_content = content\<rparr>))"

subsection \<open>What is decoded and what is served\<close>

lemma append_blocks_eq: "append_blocks content s = content @ s"
proof (induction content s rule: append_blocks.induct)
  case (1 content s)
  then show ?case by (subst append_blocks.simps) simp
qed

definition hex_char :: "nat \<Rightarrow> char" where
  "hex_char n = char_of (if n < 10 then 48 + n else 55 + n)"

text \<open>The encoding of a character as \<open>%XX\<close>.\<close>

definition percent :: "char \<Rightarrow> cstring" where
  "percent c = [CHR ''%'', hex_char (of_char c div 16), hex_char (of_char c mod 16)]"

lemma below_16: "n < 16 \<Longrightarrow> n \<in> {0, 1, 2, 3, 4, 5, 6, 7, 8, 9, 10, 11, 12, 13, 14, 15 :: nat}"
  by (simp only: insert_iff empty_iff) arith

lemma hex_char_values: "map hex_char [0, 1, 2, 3, 4, 5, 6, 7, 8, 9, 10, 11, 12, 13, 14, 15] = ''0123456789ABCDEF''"
  by (simp add: hex_char_def char_of_def bit_iff_odd flip: numeral_2_eq_2)

lemma hex_char_facts:
  assumes "n < 16"
  shows "hex_value (hex_char n) = n" "is_hex (hex_char n)" "\<not> is_space (hex_char n)"
    "hex_char n \<noteq> CHR ''-''" "hex_char n \<noteq> CHR ''+''" "hex_char n \<noteq> CHR ''x''" "hex_char n \<noteq> CHR ''X''"
  using below_16 [OF assms] hex_char_values
  by (elim insertE emptyE; simp add: hex_value_def is_hex_def is_digit_def is_space_def)+

lemma of_char_255: "(of_char c :: nat) < 256"
  by (cases c) (simp add: of_char_def split: bool.splits)

lemma extract_hex_percent: "m < 16 \<Longrightarrow> n < 16 \<Longrightarrow> extract_hex [hex_char m, hex_char n] = Some (int (16 * m + n))"
  using hex_char_facts [of m] hex_char_facts [of n]
  by (auto simp: extract_hex_def Let_def)

text \<open>Plain characters: neither \<open>%\<close> nor \<open>+\<close>.\<close>

fun url_encode :: "(char \<Rightarrow> bool) \<Rightarrow> cstring \<Rightarrow> cstring" where
  "url_encode safe [] = []"
| "url_encode safe (c # cs) =
     (if safe c \<and> c \<noteq> CHR ''%'' \<and> c \<noteq> CHR ''+'' then c # url_encode safe cs
      else percent c @ url_encode safe cs)"

text \<open>
  \<open>url_decode\<close> inverts the percent encoding of every text, whichever of its characters
  the sender leaves plain.
\<close>

lemma url_decode_encode: "url_decode (url_encode safe s) = Some s"
proof (induction s)
  case (Cons c cs)
  have "(of_char c :: nat) div 16 < 16" "(of_char c :: nat) mod 16 < 16"
    using of_char_255 [of c] by (auto intro!: less_mult_imp_div_less)
  moreover have "to_char (int (of_char c)) = c"
    by (simp add: to_char_def zmod_int [symmetric])
  ultimately show ?case
    using Cons by (simp add: percent_def extract_hex_percent)
qed simp

text \<open>Malformed escapes are decoded as well: a sign, or a blank in place of a digit.\<close>

lemma url_decode_lenient:
  "url_decode ''%-1'' = Some [CHR 0xFF]" "url_decode ''% 9'' = Some [CHR 0x09]"
  "url_decode ''%9z'' = Some [CHR 0x09]"
  by (simp_all add: extract_hex_def is_hex_def is_digit_def is_space_def hex_value_def to_char_def
      Let_def char_of_def bit_iff_odd)

subsection \<open>The path guard\<close>

text \<open>The names a server may open below its document root.\<close>

definition below_root :: "cstring \<Rightarrow> cstring set" where
  "below_root root = {c_str root @ p | p. (p = [] \<or> hd p = CHR ''/'') \<and> \<not> occurs_in ''..'' p}"

lemma c_str_append: "c_str (s @ t) = (if NUL \<in> set s then c_str s else s @ c_str t)"
  by (induction s) (auto simp: c_str_def)

lemma occurs_in_prefix: "prefix s t \<Longrightarrow> occurs_in u s \<Longrightarrow> occurs_in u t"
  by (auto simp: occurs_in_sublist intro: sublist_order.order_trans prefix_imp_sublist)

text \<open>The default page adds no dots to a directory.\<close>

definition with_index :: "cstring \<Rightarrow> cstring" where
  "with_index q = (if last q = CHR ''/'' then q @ ''index.html'' else q)"

lemma with_index_no_dots:
  assumes "\<not> occurs_in ''..'' q"
  shows "\<not> occurs_in ''..'' (with_index q)"
proof -
  define dots where "dots = ''..''"
  have "dots = u @ v \<Longrightarrow> prefix v ''index.html'' \<Longrightarrow> v = []" for u v
    by (cases v) (auto simp: dots_def Cons_eq_append_conv)
  then have "sublist dots q" if "dots = u @ v" "suffix u q" "prefix v ''index.html''" for u v
    using that suffix_imp_sublist by fastforce
  moreover have "\<not> sublist dots ''index.html''" by (simp add: dots_def sublist_code)
  ultimately have "\<not> sublist dots (q @ ''index.html'')"
    using assms unfolding sublist_append occurs_in_sublist dots_def by blast
  then show ?thesis using assms by (simp add: with_index_def dots_def occurs_in_sublist)
qed

lemma below_rootI:
  assumes "hd p = CHR ''/''" "\<not> occurs_in ''..'' p"
  shows "c_str (root @ p) \<in> below_root root"
proof -
  define q where "q = (if NUL \<in> set root then [] else c_str p)"
  have "c_str (root @ p) = c_str root @ q" by (simp add: q_def c_str_append)
  moreover have "prefix q p" by (simp add: q_def c_str_prefix)
  then have "\<not> occurs_in ''..'' q" and "q = [] \<or> hd q = CHR ''/''"
    using assms occurs_in_prefix [of q p] by (blast, cases q) (auto simp: prefix_def)
  ultimately show ?thesis unfolding below_root_def by blast
qed

lemma opened_below_root:
  assumes "request_path uri = Some p"
  shows "c_str (root @ p) \<in> below_root root"
proof -
  obtain q where "q \<noteq> []" "hd q = CHR ''/''" "\<not> occurs_in ''..'' q" "p = with_index q"
    using assms by (auto simp: request_path_def with_index_def split: option.splits if_splits)
  then show ?thesis
    using with_index_no_dots [of q] by (intro below_rootI) (auto simp: with_index_def)
qed

text \<open>
  C15: a reply depends on no file outside the document root: files elsewhere, whatever their
  names, contents or absence, change nothing. The names consulted are the root followed by an
  absolute path with no \<open>..\<close> in it, after decoding and after the cut at a zero byte.
\<close>

theorem handle_request_confined:
  "handle_request fs root req rep = handle_request (fs |` below_root root) root req rep"
  by (auto simp: handle_request_def opened_below_root split: option.splits)

subsection \<open>What is sent\<close>

lemma handle_request_cases:
  obtains (stock) st where "st \<in> {Bad_Request, Not_Found}"
      "handle_request fs root req rep = stock_reply st"
  | (served) f mime where "f \<in> ran fs"
      "handle_request fs root req rep =
         \<lparr>rep_status = Ok, rep_headers = length_and_type (rep_content rep @ f) mime,
          rep_content = rep_content rep @ f\<rparr>"
proof (cases "request_path (rq_uri req)")
  case None
  then show thesis using stock [of Bad_Request] by (simp add: handle_request_def)
next
  case (Some p)
  show thesis
  proof (cases "fs (c_str (root @ p))")
    case None
    then show thesis using Some stock [of Not_Found] by (simp add: handle_request_def)
  next
    case f: (Some f)
    then show thesis using Some served [OF ranI [where m = fs, OF f]]
      by (simp add: handle_request_def append_blocks_eq Let_def)
  qed
qed

lemma sent_length_and_type:
  "concat (to_buffers \<lparr>rep_status = st, rep_headers = length_and_type c mime, rep_content = c\<rparr>) =
     status_line st @ ''Content-Length: '' @ show_nat (length c) @ crlf @
     ''Content-Type: '' @ mime @ crlf @ crlf @ c"
  by (simp add: to_buffers_def length_and_type_def)

text \<open>
  C16: the bytes sent for a request are a status line, the length of the body in decimal, its
  type, an empty line and the body, and the length stated is the length of the body: the contents
  of one file of the server's, or one of the two error pages.
\<close>

theorem handle_request_sent:
  "\<exists>st mime body.
     concat (to_buffers (handle_request fs root req
       \<lparr>rep_status = Ok, rep_headers = [], rep_content = []\<rparr>)) =
       status_line st @ ''Content-Length: '' @ show_nat (length body) @ crlf @
       ''Content-Type: '' @ mime @ crlf @ crlf @ body \<and>
     (st = Ok \<and> body \<in> ran fs \<or>
      st \<in> {Bad_Request, Not_Found} \<and> mime = ''text/html'' \<and> body = stock_content st)"
proof (rule handle_request_cases [of fs root req "\<lparr>rep_status = Ok, rep_headers = [], rep_content = []\<rparr>"],
    goal_cases)
  case (1 st)
  then show ?case
    unfolding stock_reply_def Let_def by (metis sent_length_and_type)
next
  case (2 f mime)
  then have "concat (to_buffers (handle_request fs root req
       \<lparr>rep_status = Ok, rep_headers = [], rep_content = []\<rparr>)) =
       status_line Ok @ ''Content-Length: '' @ show_nat (length f) @ crlf @
       ''Content-Type: '' @ mime @ crlf @ crlf @ f"
    by (simp only: reply.select_convs append_Nil sent_length_and_type)
  then show ?case using 2(1) by blast
qed

end
