(* ===== verification/Http_Form.thy ===== *)
theory Http_Form
  imports Http_Reply
begin

section \<open>The HTTP server: the parameters of a POST\<close>

text \<open>
  \<open>content_length\<close> and \<open>parse_paremeters\<close> of \<open>server/request_parser.cpp\<close>.
  \<open>boost::split\<close> is a parameter of the model.
\<close>

definition find_header :: "cstring \<Rightarrow> header list \<Rightarrow> header option" where
  "find_header name hs = find (\<lambda>h. header_name h = name) hs"

definition content_length :: "request \<Rightarrow> int" where
  "content_length rq =
     (case find_header ''Content-Length'' (rq_headers rq) of
        None \<Rightarrow> 0
      | Some item \<Rightarrow> c_atoi (header_value item))"

fun push_parameters ::
    "(char \<Rightarrow> cstring \<Rightarrow> cstring list) \<Rightarrow> cstring list \<Rightarrow> request \<Rightarrow> request outcome" where
  "push_parameters split [] rq = Inr rq"
| "push_parameters split (pair # pairs) rq =
     (case split CHR ''='' pair of
        name # value # _ \<Rightarrow>
          push_parameters split pairs
            (rq\<lparr>rq_parameters := rq_parameters rq @ [\<lparr>header_name = name, header_value = value\<rparr>]\<rparr>)
      | _ \<Rightarrow> Inl (Undefined Out_Of_Range))"

text \<open>\<open>std::string(begin(params), begin(params) + length)\<close> past the end is undefined.\<close>

definition parse_paremeters ::
    "(char \<Rightarrow> cstring \<Rightarrow> cstring list) \<Rightarrow> request \<Rightarrow> cstring \<Rightarrow> request outcome" where
  "parse_paremeters split rq params =
     (if params = [] then Inr rq
      else let len = content_length rq
           in if len \<le> 0 then Inr rq
              else if len > int (length params) then Inl (Undefined Out_Of_Range)
              else push_parameters split (split CHR ''&'' (take (nat len) params)) rq)"

subsection \<open>boost::split\<close>

text \<open>
  What its documentation promises for a separator of one character: one item at least, no
  separator in an item, and the items with the separators between them are the text.
\<close>

fun rejoin :: "char \<Rightarrow> cstring list \<Rightarrow> cstring" where
  "rejoin d [] = []"
| "rejoin d [x] = x"
| "rejoin d (x # xs) = x @ d # rejoin d xs"

definition splits :: "(char \<Rightarrow> cstring \<Rightarrow> cstring list) \<Rightarrow> bool" where
  "splits split \<longleftrightarrow> (\<forall>d s. split d s \<noteq> [] \<and> (\<forall>item \<in> set (split d s). d \<notin> set item) \<and>
     rejoin d (split d s) = s)"

lemma append_sep_eq:
  "d \<notin> set x \<Longrightarrow> d \<notin> set y \<Longrightarrow> x @ d # u = y @ d # v \<longleftrightarrow> x = y \<and> u = v"
proof (induction x arbitrary: y)
  case Nil
  then show ?case by (cases y) auto
next
  case (Cons a x)
  then show ?case by (cases y) auto
qed

lemma rejoin_Cons: "xs \<noteq> [] \<Longrightarrow> rejoin d (x # xs) = x @ d # rejoin d xs"
  by (cases xs) auto

lemma rejoin_inj:
  assumes "xs \<noteq> []" "ys \<noteq> []" "\<forall>x \<in> set xs. d \<notin> set x" "\<forall>y \<in> set ys. d \<notin> set y"
    and "rejoin d xs = rejoin d ys"
  shows "xs = ys"
  using assms
proof (induction xs arbitrary: ys)
  case (Cons x xs)
  then obtain y ys' where ys: "ys = y # ys'" by (cases ys) auto
  have "d \<in> set (rejoin d (z # zs))" if "zs \<noteq> []" for z zs using that by (simp add: rejoin_Cons)
  then have "xs = [] \<longleftrightarrow> ys' = []"
    using Cons.prems ys by (metis list.set_intros(1) rejoin.simps(2))
  then show ?case
    using Cons ys by (cases "xs = []") (auto simp: rejoin_Cons append_sep_eq)
qed simp

lemma split_rejoin:
  assumes "splits split" "xs \<noteq> []" "\<forall>x \<in> set xs. d \<notin> set x"
  shows "split d (rejoin d xs) = xs"
  using assms rejoin_inj [of "split d (rejoin d xs)" xs d] by (auto simp: splits_def)

text \<open>A splitter that keeps the promises.\<close>

fun split_on :: "char \<Rightarrow> cstring \<Rightarrow> cstring list" where
  "split_on d [] = [[]]"
| "split_on d (c # cs) =
     (if c = d then [] # split_on d cs
      else (case split_on d cs of [] \<Rightarrow> [[c]] | x # xs \<Rightarrow> (c # x) # xs))"

lemma split_on_nonempty [simp]: "split_on d s \<noteq> []"
  by (induction s) (auto split: list.splits)

lemma split_on_fresh: "item \<in> set (split_on d s) \<Longrightarrow> d \<notin> set item"
  by (induction s arbitrary: item) (fastforce split: list.splits if_splits)+

lemma rejoin_split_on: "rejoin d (split_on d s) = s"
proof (induction s)
  case (Cons c cs)
  obtain x xs where "split_on d cs = x # xs" by (cases "split_on d cs") auto
  then show ?case using Cons by (cases xs) (auto simp: rejoin_Cons)
qed simp

lemma split_on_splits: "splits split_on"
  by (simp add: splits_def split_on_fresh rejoin_split_on)

subsection \<open>Forms\<close>

text \<open>A form as a client sends it: \<open>name=value&name=value\<close>.\<close>

definition pair_text :: "header \<Rightarrow> cstring" where
  "pair_text p = rejoin CHR ''='' [header_name p, header_value p]"

definition form_text :: "header list \<Rightarrow> cstring" where
  "form_text ps = rejoin CHR ''&'' (map pair_text ps)"

definition form_char :: "char \<Rightarrow> bool" where
  "form_char c \<longleftrightarrow> c \<noteq> CHR ''&'' \<and> c \<noteq> CHR ''=''"

definition pair_ok :: "header \<Rightarrow> bool" where
  "pair_ok p \<longleftrightarrow> list_all form_char (header_name p) \<and> list_all form_char (header_value p)"

definition form_ok :: "header list \<Rightarrow> bool" where
  "form_ok ps \<longleftrightarrow> ps \<noteq> [] \<and> list_all pair_ok ps"

lemma split_pair: "splits split \<Longrightarrow> pair_ok p \<Longrightarrow> split CHR ''='' (pair_text p) = [header_name p, header_value p]"
  unfolding pair_text_def
  by (rule split_rejoin) (auto simp: pair_ok_def form_char_def list_all_iff)

lemma push_form:
  assumes "splits split" "list_all pair_ok ps"
  shows "push_parameters split (map pair_text ps) rq =
     Inr (rq\<lparr>rq_parameters := rq_parameters rq @ ps\<rparr>)"
  using assms(2) by (induction ps arbitrary: rq) (simp_all add: split_pair [OF assms(1)])

lemma pair_text_no_amp: "pair_ok p \<Longrightarrow> CHR ''&'' \<notin> set (pair_text p)"
  by (auto simp: pair_ok_def pair_text_def form_char_def list_all_iff)

lemma split_form:
  "splits split \<Longrightarrow> form_ok ps \<Longrightarrow> split CHR ''&'' (form_text ps) = map pair_text ps"
  unfolding form_text_def
  by (rule split_rejoin) (auto simp: form_ok_def list_all_iff pair_text_no_amp)

lemma form_text_nonempty: "form_ok ps \<Longrightarrow> form_text ps \<noteq> []"
  by (cases ps; cases "tl ps") (auto simp: form_ok_def form_text_def pair_text_def rejoin_Cons)

text \<open>
  C20: a form that a client sends with its length is read back: the parameters of the request
  are its names and values in order, whatever follows the form in the buffer.
\<close>

theorem parse_paremeters_form:
  assumes "splits split" and "form_ok ps" and "length (form_text ps) < 2 ^ 31"
    and "find_header ''Content-Length'' (rq_headers rq) =
           Some \<lparr>header_name = ''Content-Length'', header_value = show_nat (length (form_text ps))\<rparr>"
  shows "parse_paremeters split rq (form_text ps @ rest) =
     Inr (rq\<lparr>rq_parameters := rq_parameters rq @ ps\<rparr>)"
proof -
  have "content_length rq = int (length (form_text ps))"
    using assms(3,4) c_atoi_small [of "show_nat (length (form_text ps))"]
    by (simp add: content_length_def strtol_show_nat)
  moreover have "push_parameters split (map pair_text ps) rq =
      Inr (rq\<lparr>rq_parameters := rq_parameters rq @ ps\<rparr>)"
    using assms(1,2) by (intro push_form) (auto simp: form_ok_def)
  ultimately show ?thesis
    using assms(1,2) form_text_nonempty [OF assms(2)]
    by (simp add: parse_paremeters_def split_form)
qed

theorem parse_paremeters_form_witness:
  "parse_paremeters split_on
     (new_request\<lparr>rq_headers := [\<lparr>header_name = ''Content-Length'', header_value = show_nat 7\<rparr>]\<rparr>)
     (''a=1&b=2'' @ ''xyz'') =
   Inr (new_request\<lparr>rq_headers := [\<lparr>header_name = ''Content-Length'', header_value = show_nat 7\<rparr>],
     rq_parameters := [\<lparr>header_name = ''a'', header_value = ''1''\<rparr>,
       \<lparr>header_name = ''b'', header_value = ''2''\<rparr>]\<rparr>)"
proof -
  define ps where "ps = [\<lparr>header_name = ''a'', header_value = ''1''\<rparr>, \<lparr>header_name = ''b'', header_value = ''2''\<rparr>]"
  have t: "form_text ps = ''a=1&b=2''" by (simp add: ps_def form_text_def pair_text_def)
  have l: "length (form_text ps) = 7" unfolding t by simp
  have ok: "form_ok ps" by (simp add: ps_def form_ok_def pair_ok_def form_char_def)
  define rq where
    "rq = new_request\<lparr>rq_headers := [\<lparr>header_name = ''Content-Length'', header_value = show_nat 7\<rparr>]\<rparr>"
  have "find_header ''Content-Length'' (rq_headers rq) =
      Some \<lparr>header_name = ''Content-Length'', header_value = show_nat (length (form_text ps))\<rparr>"
    unfolding l rq_def find_header_def by simp
  from parse_paremeters_form [OF split_on_splits ok _ this, of "''xyz''"]
  have "parse_paremeters split_on rq (''a=1&b=2'' @ ''xyz'') = Inr (rq\<lparr>rq_parameters := ps\<rparr>)"
    by (simp add: l t rq_def new_request_def)
  then show ?thesis unfolding rq_def ps_def .
qed

text \<open>A pair with no \<open>=\<close>, and a length beyond the text, are undefined.\<close>

lemma parse_paremeters_undefined:
  "splits split \<Longrightarrow> push_parameters split [''a''] rq = Inl (Undefined Out_Of_Range)"
  "params \<noteq> [] \<Longrightarrow> int (length params) < content_length rq \<Longrightarrow>
     parse_paremeters split rq params = Inl (Undefined Out_Of_Range)"
proof -
  assume "splits split"
  then have "split CHR ''='' (rejoin CHR ''='' [''a'']) = [''a'']" by (intro split_rejoin) auto
  then show "push_parameters split [''a''] rq = Inl (Undefined Out_Of_Range)" by simp
qed (auto simp: parse_paremeters_def Let_def)

end
