(* ===== verification/Http_Server.thy ===== *)
theory Http_Server
  imports Http_Form
begin

section \<open>The HTTP server: connections and the accept loop\<close>

text \<open>
  \<open>server/connection.hpp\<close>, \<open>connection.cpp\<close>, \<open>connection_manager.hpp\<close>,
  \<open>connection_manager.cpp\<close>, \<open>server.hpp\<close> and \<open>server.cpp\<close>.  \<open>io_context_.run()\<close>
  runs one completion handler at a time; a handler is a function on the server's state, and
  which one runs next, with which error and which bytes, is the choice of the network.
\<close>

subsection \<open>State\<close>

text \<open>Asio's errors as the code tells them apart.\<close>

datatype io_error = No_Error | Aborted | Io_Failed

text \<open>
  The operation a connection has outstanding; the flag says whether its socket was open when
  the operation was started, and a write holds the bytes of its buffers.
\<close>

datatype pending = Idle | Reading bool | Writing bool cstring

record connection =
  cn_open :: bool
  cn_buffer :: cstring
  cn_request :: request
  cn_parser :: parser_state
  cn_reply :: reply
  cn_pending :: pending

text \<open>\<open>sv_managed\<close> holds the indices of the managed connections in \<open>sv_conns\<close>.\<close>

record server =
  sv_acceptor_open :: bool
  sv_accepting :: bool
  sv_awaiting_signal :: bool
  sv_conns :: "connection list"
  sv_managed :: "nat list"
  sv_sent :: "(nat \<times> cstring) list"

text \<open>The files, the document root, \<open>boost::split\<close>, and what a new buffer happens to hold.\<close>

record http_env =
  he_files :: "cstring \<rightharpoonup> cstring"
  he_root :: cstring
  he_split :: "char \<Rightarrow> cstring \<Rightarrow> cstring list"
  he_junk :: cstring

subsection \<open>connection\<close>

text \<open>The status of a new reply is indeterminate; every use writes it first.\<close>

definition new_reply :: reply where
  "new_reply = \<lparr>rep_status = Ok, rep_headers = [], rep_content = []\<rparr>"

definition new_connection :: "http_env \<Rightarrow> connection" where
  "new_connection e = \<lparr>cn_open = True, cn_buffer = he_junk e, cn_request = new_request,
     cn_parser = Method_Start, cn_reply = new_reply, cn_pending = Idle\<rparr>"

definition do_read :: "connection \<Rightarrow> connection" where
  "do_read cn = cn\<lparr>cn_pending := Reading (cn_open cn)\<rparr>"

definition do_write :: "connection \<Rightarrow> connection" where
  "do_write cn = cn\<lparr>cn_pending := Writing (cn_open cn) (concat (to_buffers (cn_reply cn)))\<rparr>"

definition conn_start :: "connection \<Rightarrow> connection" where
  "conn_start cn = do_read cn"

definition conn_stop :: "connection \<Rightarrow> connection" where
  "conn_stop cn = cn\<lparr>cn_open := False\<rparr>"

text \<open>
  A \<open>std::string\<close> assigned from a pointer into the buffer: the characters up to a zero; with
  none before the end of the buffer the read is out of range.
\<close>

definition c_string_at :: "nat \<Rightarrow> cstring \<Rightarrow> cstring outcome" where
  "c_string_at pos buffer =
     (if NUL \<in> set (drop pos buffer) then Inr (c_str (drop pos buffer))
      else Inl (Undefined Out_Of_Range))"

text \<open>The completion of a read without an error.\<close>

definition received :: "http_env \<Rightarrow> cstring \<Rightarrow> connection \<Rightarrow> connection outcome" where
  "received e bytes cn =
     (let buffer = bytes @ drop (length bytes) (cn_buffer cn)
      in case parse_chars (cn_parser cn) (cn_request cn) bytes of
           Inl u \<Rightarrow> Inl u
         | Inr ((result, st, rq), rest) \<Rightarrow>
             (case c_string_at (length bytes - length rest) buffer of
                Inl u \<Rightarrow> Inl u
              | Inr post_parameters \<Rightarrow>
                  let cn' = cn\<lparr>cn_buffer := buffer, cn_request := rq, cn_parser := st\<rparr>
                  in case result of
                       Good \<Rightarrow>
                         (case if rq_method rq = ''POST''
                               then parse_paremeters (he_split e) rq post_parameters
                               else Inr rq of
                            Inl u \<Rightarrow> Inl u
                          | Inr rq' \<Rightarrow>
                              Inr (do_write (cn'\<lparr>cn_request := rq',
                                cn_reply := handle_request (he_files e) (he_root e) rq'
                                  (cn_reply cn')\<rparr>)))
                     | Bad \<Rightarrow> Inr (do_write (cn'\<lparr>cn_reply := stock_reply Bad_Request\<rparr>))
                     | Indeterminate \<Rightarrow> Inr (do_read cn')))"

subsection \<open>connection_manager and server\<close>

definition update_conn :: "nat \<Rightarrow> (connection \<Rightarrow> connection) \<Rightarrow> server \<Rightarrow> server" where
  "update_conn i f sv = sv\<lparr>sv_conns := (sv_conns sv)[i := f (sv_conns sv ! i)]\<rparr>"

definition manager_start :: "nat \<Rightarrow> server \<Rightarrow> server" where
  "manager_start i sv = update_conn i conn_start (sv\<lparr>sv_managed := List.insert i (sv_managed sv)\<rparr>)"

definition manager_stop :: "nat \<Rightarrow> server \<Rightarrow> server" where
  "manager_stop i sv = update_conn i conn_stop (sv\<lparr>sv_managed := removeAll i (sv_managed sv)\<rparr>)"

definition stop_all :: "server \<Rightarrow> server" where
  "stop_all sv = (fold (\<lambda>i. update_conn i conn_stop) (sv_managed sv) sv)\<lparr>sv_managed := []\<rparr>"

definition do_accept :: "server \<Rightarrow> server" where
  "do_accept sv = sv\<lparr>sv_accepting := True\<rparr>"

definition do_await_stop :: "server \<Rightarrow> server" where
  "do_await_stop sv = sv\<lparr>sv_awaiting_signal := True\<rparr>"

text \<open>The constructor.\<close>

definition server_start :: server where
  "server_start =
     (let sv = \<lparr>sv_acceptor_open = False, sv_accepting = False, sv_awaiting_signal = False,
          sv_conns = [], sv_managed = [], sv_sent = []\<rparr>;
          sv = do_await_stop sv;
          sv = sv\<lparr>sv_acceptor_open := True\<rparr>
      in do_accept sv)"

subsection \<open>The completion handlers\<close>

datatype event =
    Accept_Done io_error | Read_Done nat io_error cstring | Write_Done nat io_error | Signalled

definition on_accept :: "http_env \<Rightarrow> io_error \<Rightarrow> server \<Rightarrow> server" where
  "on_accept e ec sv =
     (let sv = sv\<lparr>sv_accepting := False\<rparr>
      in if \<not> sv_acceptor_open sv then sv
         else do_accept
           (if ec = No_Error
            then manager_start (length (sv_conns sv)) (sv\<lparr>sv_conns := sv_conns sv @ [new_connection e]\<rparr>)
            else sv))"

definition on_read :: "http_env \<Rightarrow> nat \<Rightarrow> io_error \<Rightarrow> cstring \<Rightarrow> server \<Rightarrow> server outcome" where
  "on_read e i ec bytes sv =
     (let sv = update_conn i (\<lambda>cn. cn\<lparr>cn_pending := Idle\<rparr>) sv
      in if ec = No_Error
         then map_outcome (\<lambda>cn. update_conn i (\<lambda>_. cn) sv) (received e bytes (sv_conns sv ! i))
         else Inr (if ec \<noteq> Aborted then manager_stop i sv else sv))"

definition on_write :: "nat \<Rightarrow> io_error \<Rightarrow> server \<Rightarrow> server" where
  "on_write i ec sv =
     (let bytes = (case cn_pending (sv_conns sv ! i) of Writing _ b \<Rightarrow> b | _ \<Rightarrow> []);
          sv = update_conn i (\<lambda>cn. cn\<lparr>cn_pending := Idle\<rparr>) sv;
          sv = (if ec = No_Error then sv\<lparr>sv_sent := sv_sent sv @ [(i, bytes)]\<rparr> else sv)
      in if ec \<noteq> Aborted then manager_stop i sv else sv)"

definition on_signal :: "server \<Rightarrow> server" where
  "on_signal sv = stop_all (sv\<lparr>sv_awaiting_signal := False, sv_acceptor_open := False\<rparr>)"

fun handle :: "http_env \<Rightarrow> event \<Rightarrow> server \<Rightarrow> server outcome" where
  "handle e (Accept_Done ec) sv = Inr (on_accept e ec sv)"
| "handle e (Read_Done i ec bytes) sv = on_read e i ec bytes sv"
| "handle e (Write_Done i ec) sv = Inr (on_write i ec sv)"
| "handle e Signalled sv = Inr (on_signal sv)"

text \<open>
  Which handlers may run, as Asio documents it: the one of an outstanding operation; with
  \<open>operation_aborted\<close> only when its socket has been closed; with an error when the socket was
  closed before the operation was started; and a read that succeeds has read something.
\<close>

definition completes :: "bool \<Rightarrow> bool \<Rightarrow> io_error \<Rightarrow> bool" where
  "completes started_open is_open ec \<longleftrightarrow>
     (if started_open then ec \<noteq> Aborted \<or> \<not> is_open else ec = Io_Failed)"

fun enabled :: "event \<Rightarrow> server \<Rightarrow> bool" where
  "enabled (Accept_Done ec) sv \<longleftrightarrow> sv_accepting sv \<and> completes True (sv_acceptor_open sv) ec"
| "enabled (Read_Done i ec bytes) sv \<longleftrightarrow>
     i < length (sv_conns sv) \<and>
     (let cn = sv_conns sv ! i
      in case cn_pending cn of
           Reading o1 \<Rightarrow> completes o1 (cn_open cn) ec \<and>
             (if ec = No_Error then bytes \<noteq> [] \<and> length bytes \<le> length (cn_buffer cn) else bytes = [])
         | _ \<Rightarrow> False)"
| "enabled (Write_Done i ec) sv \<longleftrightarrow>
     i < length (sv_conns sv) \<and>
     (let cn = sv_conns sv ! i
      in case cn_pending cn of Writing o1 _ \<Rightarrow> completes o1 (cn_open cn) ec | _ \<Rightarrow> False)"
| "enabled Signalled sv \<longleftrightarrow> sv_awaiting_signal sv"

text \<open>The server runs a sequence of handlers.\<close>

inductive serves :: "http_env \<Rightarrow> server \<Rightarrow> event list \<Rightarrow> server \<Rightarrow> bool" for e where
  serves_Nil: "serves e sv [] sv"
| serves_snoc: "serves e sv evs sv' \<Longrightarrow> enabled ev sv' \<Longrightarrow> handle e ev sv' = Inr sv'' \<Longrightarrow>
     serves e sv (evs @ [ev]) sv''"

inductive_cases serves_NilE: "serves e sv [] sv'"

code_pred serves .

subsection \<open>What a connection answers\<close>

text \<open>The text a connection has received, and the bytes owed to a client that sent \<open>s\<close>.\<close>

fun piece :: "nat \<Rightarrow> event \<Rightarrow> cstring" where
  "piece i (Read_Done j ec bytes) = (if i = j then bytes else [])"
| "piece i ev = []"

definition text_of :: "nat \<Rightarrow> event list \<Rightarrow> cstring" where
  "text_of i evs = concat (map (piece i) evs)"

definition answer :: "http_env \<Rightarrow> cstring \<Rightarrow> cstring option" where
  "answer e s =
     (case parse_chars Method_Start new_request s of
        Inl u \<Rightarrow> None
      | Inr ((result, st, rq), rest) \<Rightarrow>
          (case result of
             Good \<Rightarrow> Some (concat (to_buffers (handle_request (he_files e) (he_root e) rq new_reply)))
           | Bad \<Rightarrow> Some (concat (to_buffers (stock_reply Bad_Request)))
           | Indeterminate \<Rightarrow> None))"

lemma text_of_snoc [simp]: "text_of i (evs @ [ev]) = text_of i evs @ piece i ev"
  by (simp add: text_of_def)

definition conn_inv :: "http_env \<Rightarrow> cstring \<Rightarrow> connection \<Rightarrow> bool" where
  "conn_inv e s cn \<longleftrightarrow>
     (case cn_pending cn of
        Idle \<Rightarrow> \<not> cn_open cn
      | Reading o1 \<Rightarrow> (o1 \<or> \<not> cn_open cn) \<and> cn_reply cn = new_reply \<and>
          parse_chars Method_Start new_request s =
            Inr ((Indeterminate, cn_parser cn, cn_request cn), [])
      | Writing o1 b \<Rightarrow> (o1 \<or> \<not> cn_open cn) \<and> answer e s = Some b)"

lemma push_parameters_uri: "push_parameters split pairs rq = Inr rq' \<Longrightarrow> rq_uri rq' = rq_uri rq"
  by (induction split pairs rq rule: push_parameters.induct) (auto split: list.splits)

lemma parse_paremeters_uri: "parse_paremeters split rq s = Inr rq' \<Longrightarrow> rq_uri rq' = rq_uri rq"
  by (auto simp: parse_paremeters_def Let_def push_parameters_uri split: if_splits)

lemma handle_request_uri:
  "rq_uri rq' = rq_uri rq \<Longrightarrow> handle_request fs root rq' rep = handle_request fs root rq rep"
  by (simp add: handle_request_def)

lemma parse_more:
  assumes "parse_chars Method_Start new_request s = Inr ((Indeterminate, st, rq), [])"
  shows "parse_chars Method_Start new_request (s @ bytes) = parse_chars st rq bytes"
  using http.parse_append [of "(Method_Start, new_request)" s bytes] assms
  by (cases "parse_chars st rq bytes") auto

lemma received_conn_inv:
  assumes "conn_inv e s cn" "cn_pending cn = Reading o1"
    and "received e bytes (cn\<lparr>cn_pending := Idle\<rparr>) = Inr cn'"
  shows "conn_inv e (s @ bytes) cn' \<and> cn_open cn' = cn_open cn \<and> cn_pending cn' \<noteq> Idle"
proof -
  have new: "cn_reply cn = new_reply"
    and more: "parse_chars Method_Start new_request (s @ bytes) =
      parse_chars (cn_parser cn) (cn_request cn) bytes"
    using assms(1,2) parse_more by (auto simp: conn_inv_def)
  obtain result st rq rest
    where p: "parse_chars (cn_parser cn) (cn_request cn) bytes = Inr ((result, st, rq), rest)"
    using assms(3) by (auto simp: received_def Let_def split: sum.splits prod.splits)
  show ?thesis
  proof (cases result)
    case Indeterminate
    then have "rest = []"
      using http.more_reads_all [of "(cn_parser cn, cn_request cn)" bytes "(st, rq)" rest] p by simp
    then show ?thesis
      using assms(3) p Indeterminate more new
      by (auto simp: received_def Let_def do_read_def conn_inv_def split: sum.splits)
  next
    case Good
    then show ?thesis
      using assms(3) p more new
      by (auto simp: received_def Let_def do_write_def conn_inv_def answer_def
          intro!: arg_cong [where f = to_buffers] arg_cong [where f = concat] handle_request_uri
          dest!: parse_paremeters_uri
          split: sum.splits if_splits)
  next
    case Bad
    then show ?thesis
      using assms(3) p more
      by (auto simp: received_def Let_def do_write_def conn_inv_def answer_def split: sum.splits)
  qed
qed

subsection \<open>The invariant of the server\<close>

definition conns_inv :: "http_env \<Rightarrow> event list \<Rightarrow> server \<Rightarrow> bool" where
  "conns_inv e evs sv \<longleftrightarrow>
     distinct (sv_managed sv) \<and>
     (\<forall>i. i \<in> set (sv_managed sv) \<longleftrightarrow> i < length (sv_conns sv) \<and> cn_open (sv_conns sv ! i)) \<and>
     (\<forall>i < length (sv_conns sv). conn_inv e (text_of i evs) (sv_conns sv ! i)) \<and>
     (\<forall>i \<ge> length (sv_conns sv). text_of i evs = [])"

definition accept_inv :: "server \<Rightarrow> bool" where
  "accept_inv sv \<longleftrightarrow> sv_awaiting_signal sv = sv_acceptor_open sv \<and>
     (if sv_acceptor_open sv then sv_accepting sv else sv_managed sv = [])"

definition sent_inv :: "http_env \<Rightarrow> event list \<Rightarrow> server \<Rightarrow> bool" where
  "sent_inv e evs sv \<longleftrightarrow> distinct (map fst (sv_sent sv)) \<and>
     (\<forall>(i, bytes) \<in> set (sv_sent sv). i < length (sv_conns sv) \<and>
        cn_pending (sv_conns sv ! i) = Idle \<and> answer e (text_of i evs) = Some bytes)"

definition server_inv :: "http_env \<Rightarrow> event list \<Rightarrow> server \<Rightarrow> bool" where
  "server_inv e evs sv \<longleftrightarrow> conns_inv e evs sv \<and> accept_inv sv \<and> sent_inv e evs sv"

lemmas server_invs = server_inv_def conns_inv_def accept_inv_def sent_inv_def

lemmas server_ops = update_conn_def manager_start_def manager_stop_def do_accept_def

lemma update_conn_simps [simp]:
  "sv_acceptor_open (update_conn i f sv) = sv_acceptor_open sv"
  "sv_accepting (update_conn i f sv) = sv_accepting sv"
  "sv_awaiting_signal (update_conn i f sv) = sv_awaiting_signal sv"
  "sv_managed (update_conn i f sv) = sv_managed sv"
  "sv_sent (update_conn i f sv) = sv_sent sv"
  "length (sv_conns (update_conn i f sv)) = length (sv_conns sv)"
  by (simp_all add: update_conn_def)

lemma update_conn_nth:
  "j < length (sv_conns sv) \<Longrightarrow>
     sv_conns (update_conn i f sv) ! j = (if j = i then f (sv_conns sv ! j) else sv_conns sv ! j)"
  by (simp add: update_conn_def nth_list_update)

text \<open>\<open>stop_all\<close> closes the managed connections and no others.\<close>

lemma fold_update_conn:
  assumes "\<And>cn. f (f cn) = f cn"
  shows "length (sv_conns (fold (\<lambda>i. update_conn i f) is sv)) = length (sv_conns sv) \<and>
    (\<forall>j < length (sv_conns sv). sv_conns (fold (\<lambda>i. update_conn i f) is sv) ! j =
       (if j \<in> set is then f (sv_conns sv ! j) else sv_conns sv ! j)) \<and>
    sv_acceptor_open (fold (\<lambda>i. update_conn i f) is sv) = sv_acceptor_open sv \<and>
    sv_accepting (fold (\<lambda>i. update_conn i f) is sv) = sv_accepting sv \<and>
    sv_awaiting_signal (fold (\<lambda>i. update_conn i f) is sv) = sv_awaiting_signal sv \<and>
    sv_sent (fold (\<lambda>i. update_conn i f) is sv) = sv_sent sv"
  by (induction "is" arbitrary: sv) (auto simp: update_conn_nth assms)

lemma conn_stop_twice: "conn_stop (conn_stop cn) = conn_stop cn"
  by (simp add: conn_stop_def)

lemmas stop_all_facts = fold_update_conn [where f = conn_stop, OF conn_stop_twice]

lemma conn_stop_inv: "conn_inv e s cn \<Longrightarrow> conn_inv e s (conn_stop cn)"
  by (auto simp: conn_inv_def conn_stop_def split: pending.splits)

lemma conn_stop_simps [simp]: "\<not> cn_open (conn_stop cn)" "cn_pending (conn_stop cn) = cn_pending cn"
  by (simp_all add: conn_stop_def)

lemma server_start_inv: "server_inv e [] server_start"
  by (simp add: server_invs server_start_def Let_def do_await_stop_def do_accept_def text_of_def)

lemma on_signal_facts:
  "sv_acceptor_open (on_signal sv) = False" "sv_accepting (on_signal sv) = sv_accepting sv"
  "sv_awaiting_signal (on_signal sv) = False" "sv_managed (on_signal sv) = []"
  "sv_sent (on_signal sv) = sv_sent sv" "length (sv_conns (on_signal sv)) = length (sv_conns sv)"
  "j < length (sv_conns sv) \<Longrightarrow> sv_conns (on_signal sv) ! j =
     (if j \<in> set (sv_managed sv) then conn_stop (sv_conns sv ! j) else sv_conns sv ! j)"
  using stop_all_facts [of "sv_managed sv" "sv\<lparr>sv_awaiting_signal := False, sv_acceptor_open := False\<rparr>"]
  by (simp_all add: on_signal_def stop_all_def)

lemma on_signal_inv:
  assumes "server_inv e evs sv"
  shows "server_inv e (evs @ [Signalled]) (on_signal sv)"
proof -
  have c: "conns_inv e evs sv" and s: "sent_inv e evs sv" using assms by (simp_all add: server_inv_def)
  have "conns_inv e (evs @ [Signalled]) (on_signal sv)"
    using c unfolding conns_inv_def
    by (auto simp: on_signal_facts conn_stop_inv)
  moreover have "accept_inv (on_signal sv)" by (simp add: accept_inv_def on_signal_facts)
  moreover have "sent_inv e (evs @ [Signalled]) (on_signal sv)"
    using s unfolding sent_inv_def by (auto simp: on_signal_facts)
  ultimately show ?thesis by (simp add: server_inv_def)
qed

lemma on_accept_inv:
  assumes "server_inv e evs sv" "enabled (Accept_Done ec) sv"
  shows "server_inv e (evs @ [Accept_Done ec]) (on_accept e ec sv)"
proof (cases "sv_acceptor_open sv \<and> ec = No_Error")
  case False
  then show ?thesis
    using assms by (auto simp: server_invs on_accept_def Let_def do_accept_def)
next
  case True
  have "conn_inv e [] (conn_start (new_connection e))" "cn_open (conn_start (new_connection e))"
    by (simp_all add: conn_inv_def conn_start_def do_read_def new_connection_def)
  then show ?thesis
    using assms True
    by (auto simp: server_invs on_accept_def Let_def server_ops nth_append List.insert_def less_Suc_eq)
qed

text \<open>A handler of connection \<open>i\<close> that leaves it stopped, or open with an operation outstanding.\<close>

lemma conns_inv_update:
  assumes "conns_inv e evs sv" "i < length (sv_conns sv)"
    and "piece i ev = bytes" "\<forall>j. j \<noteq> i \<longrightarrow> piece j ev = []"
    and "conn_inv e (text_of i evs @ bytes) cn" "cn_open cn = cn_open (sv_conns sv ! i)"
    and "sv_conns sv' = (sv_conns sv)[i := cn]" "sv_managed sv' = sv_managed sv"
  shows "conns_inv e (evs @ [ev]) sv'"
  using assms unfolding conns_inv_def by (auto simp: nth_list_update)

lemma conns_inv_stop:
  assumes "conns_inv e evs sv" "i < length (sv_conns sv)"
    and "\<forall>j. piece j ev = []"
    and "sv_conns sv' = (sv_conns sv)[i := cn]" "\<not> cn_open cn" "cn_pending cn = Idle"
    and "sv_managed sv' = removeAll i (sv_managed sv)"
  shows "conns_inv e (evs @ [ev]) sv'"
  using assms unfolding conns_inv_def by (auto simp: nth_list_update conn_inv_def distinct_removeAll)

lemma sent_inv_other:
  assumes "sent_inv e evs sv" "i \<notin> fst ` set (sv_sent sv)" "\<forall>j. j \<noteq> i \<longrightarrow> piece j ev = []"
    and "\<exists>cn. sv_conns sv' = (sv_conns sv)[i := cn]" "sv_sent sv' = sv_sent sv"
  shows "sent_inv e (evs @ [ev]) sv'"
  unfolding sent_inv_def
proof (intro conjI ballI, goal_cases)
  case 1
  then show ?case using assms by (simp add: sent_inv_def)
next
  case (2 x)
  obtain j b where x: "x = (j, b)" by (cases x)
  with 2 have x': "(j, b) \<in> set (sv_sent sv)" using assms(5) by simp
  then have "j \<noteq> i" using assms(2) by force
  then show ?case using assms x x' by (auto simp: sent_inv_def)
qed

lemma on_read_inv:
  assumes "server_inv e evs sv" "enabled (Read_Done i ec bytes) sv"
    and "on_read e i ec bytes sv = Inr sv'"
  shows "server_inv e (evs @ [Read_Done i ec bytes]) sv'"
proof -
  define cn where "cn = sv_conns sv ! i"
  obtain o1 where i: "i < length (sv_conns sv)" and o1: "cn_pending cn = Reading o1"
    and ec: "completes o1 (cn_open cn) ec" "ec \<noteq> No_Error \<Longrightarrow> bytes = []"
    using assms(2) by (auto simp: Let_def cn_def split: pending.splits if_splits)
  have inv: "conn_inv e (text_of i evs) cn" and other: "\<forall>j. j \<noteq> i \<longrightarrow> piece j (Read_Done i ec bytes) = []"
    using assms(1) i by (auto simp: server_invs cn_def)
  have parts: "conns_inv e evs sv" "accept_inv sv" "sent_inv e evs sv"
    using assms(1) by (simp_all add: server_inv_def)
  have not_sent: "i \<notin> fst ` set (sv_sent sv)"
    using parts(3) o1 by (auto simp: sent_inv_def cn_def)
  consider (ok) "ec = No_Error" | (aborted) "ec = Aborted" | (failed) "ec = Io_Failed"
    by (cases ec) auto
  then have "conns_inv e (evs @ [Read_Done i ec bytes]) sv' \<and> accept_inv sv' \<and>
      sv_sent sv' = sv_sent sv \<and> (\<exists>cn'. sv_conns sv' = (sv_conns sv)[i := cn'])"
  proof cases
    case ok
    then obtain cn' where r: "received e bytes (cn\<lparr>cn_pending := Idle\<rparr>) = Inr cn'"
      and sv': "sv' = update_conn i (\<lambda>_. cn') (update_conn i (\<lambda>cn. cn\<lparr>cn_pending := Idle\<rparr>) sv)"
      using assms(3) i by (auto simp: on_read_def Let_def map_outcome_Inr update_conn_nth cn_def)
    then show ?thesis
      using received_conn_inv [OF inv o1 r] parts i other
      by (auto simp: accept_inv_def update_conn_def cn_def intro!: conns_inv_update [of e evs sv i _ bytes cn'])
  next
    case aborted
    then have "\<not> cn_open cn" using ec by (auto simp: completes_def split: if_splits)
    then show ?thesis
      using assms(3) aborted parts i ec(2) other
      by (auto simp: on_read_def accept_inv_def update_conn_def conn_inv_def cn_def
          intro!: conns_inv_update [of e evs sv i _ bytes "cn\<lparr>cn_pending := Idle\<rparr>"])
  next
    case failed
    then show ?thesis
      using assms(3) parts i ec(2) other
      by (auto simp: on_read_def accept_inv_def manager_stop_def update_conn_def
          intro!: conns_inv_stop [of e evs sv i _ _ "conn_stop (cn\<lparr>cn_pending := Idle\<rparr>)"] simp: cn_def)
  qed
  moreover from this have "sent_inv e (evs @ [Read_Done i ec bytes]) sv'"
    using parts(3) not_sent other by (intro sent_inv_other [of e evs sv i]) auto
  ultimately show ?thesis by (simp add: server_inv_def)
qed

lemma on_write_inv:
  assumes "server_inv e evs sv" "enabled (Write_Done i ec) sv"
  shows "server_inv e (evs @ [Write_Done i ec]) (on_write i ec sv)"
proof -
  define cn where "cn = sv_conns sv ! i"
  define cn' where "cn' = cn\<lparr>cn_pending := Idle\<rparr>"
  obtain o1 b where i: "i < length (sv_conns sv)" and o1: "cn_pending cn = Writing o1 b"
    and ec: "completes o1 (cn_open cn) ec"
    using assms(2) by (auto simp: Let_def cn_def split: pending.splits)
  have parts: "conns_inv e evs sv" "accept_inv sv" "sent_inv e evs sv"
    using assms(1) by (simp_all add: server_inv_def)
  have owed: "answer e (text_of i evs) = Some b"
    using parts(1) i o1 by (auto simp: conns_inv_def conn_inv_def cn_def split: pending.splits)
  have not_sent: "i \<notin> fst ` set (sv_sent sv)"
    using parts(3) o1 by (auto simp: sent_inv_def cn_def)
  have sent: "sv_sent (on_write i ec sv) = sv_sent sv @ (if ec = No_Error then [(i, b)] else [])"
    using o1 by (auto simp: on_write_def Let_def manager_stop_def cn_def)
  have conns: "sv_conns (on_write i ec sv) = (sv_conns sv)[i := if ec = Aborted then cn' else conn_stop cn']"
    using i by (auto simp: on_write_def Let_def manager_stop_def update_conn_def cn_def cn'_def)
  have "conns_inv e (evs @ [Write_Done i ec]) (on_write i ec sv)"
  proof (cases "ec = Aborted")
    case True
    then have closed: "\<not> cn_open cn" using ec by (auto simp: completes_def split: if_splits)
    then show ?thesis
      using True parts(1) i conns
      by (intro conns_inv_update [of e evs sv i _ "[]" cn'])
        (auto simp: on_write_def Let_def conn_inv_def cn'_def cn_def)
  next
    case False
    then show ?thesis
      using parts(1) i conns
      by (intro conns_inv_stop [of e evs sv i _ _ "conn_stop cn'"])
        (auto simp: on_write_def Let_def manager_stop_def cn'_def)
  qed
  moreover have "accept_inv (on_write i ec sv)"
    using parts(2) by (auto simp: accept_inv_def on_write_def Let_def manager_stop_def)
  moreover have "sent_inv e (evs @ [Write_Done i ec]) (on_write i ec sv)"
    using parts(3) i not_sent owed
    by (auto simp: sent_inv_def sent conns nth_list_update cn'_def rev_image_eqI)
  ultimately show ?thesis by (simp add: server_inv_def)
qed

lemma handle_inv:
  "server_inv e evs sv \<Longrightarrow> enabled ev sv \<Longrightarrow> handle e ev sv = Inr sv' \<Longrightarrow> server_inv e (evs @ [ev]) sv'"
  by (cases ev) (auto simp: on_accept_inv on_read_inv on_write_inv on_signal_inv)

lemma serves_inv: "serves e server_start evs sv \<Longrightarrow> server_inv e evs sv"
  by (induction server_start evs sv rule: serves.induct) (auto simp: server_start_inv handle_inv)

text \<open>
  C17: a connection is answered at most once, and the answer is a function of the text the client
  has sent, however it was cut into pieces and whatever other connections did: the reply to the
  request the text begins with, or a bad request.
\<close>

theorem server_answers:
  assumes "serves e server_start evs sv"
  shows "distinct (map fst (sv_sent sv)) \<and>
    (\<forall>(i, bytes) \<in> set (sv_sent sv). answer e (text_of i evs) = Some bytes)"
  using serves_inv [OF assms] by (auto simp: server_inv_def sent_inv_def)

text \<open>
  C18: the managed connections are exactly those whose socket is open, each once and each with
  an operation outstanding, so none is forgotten; while the acceptor is open an accept and the
  wait for a signal are outstanding, and once it is closed no connection is managed.
\<close>

theorem server_manages:
  assumes "serves e server_start evs sv"
  shows "distinct (sv_managed sv) \<and>
    set (sv_managed sv) = {i. i < length (sv_conns sv) \<and> cn_open (sv_conns sv ! i)} \<and>
    (\<forall>i \<in> set (sv_managed sv). cn_pending (sv_conns sv ! i) \<noteq> Idle) \<and>
    (if sv_acceptor_open sv then sv_accepting sv \<and> sv_awaiting_signal sv else sv_managed sv = [])"
  using serves_inv [OF assms]
  by (auto simp: server_inv_def conns_inv_def accept_inv_def conn_inv_def split: if_splits)

subsection \<open>Shutting down\<close>

definition op_work :: "connection \<Rightarrow> nat" where
  "op_work cn = (case cn_pending cn of Idle \<Rightarrow> 0 | Reading o1 \<Rightarrow> if o1 then 2 else 1 | Writing _ _ \<Rightarrow> 1)"

definition work :: "server \<Rightarrow> nat" where
  "work sv = (if sv_accepting sv then 1 else 0) + sum_list (map op_work (sv_conns sv))"

text \<open>Nothing is outstanding: \<open>io_context_.run()\<close> returns.\<close>

definition finished :: "server \<Rightarrow> bool" where
  "finished sv \<longleftrightarrow> \<not> sv_accepting sv \<and> \<not> sv_awaiting_signal sv \<and>
     list_all (\<lambda>cn. cn_pending cn = Idle) (sv_conns sv)"

lemma finished_iff: "finished sv \<longleftrightarrow> (\<forall>ev. \<not> enabled ev sv)"
proof
  assume "finished sv"
  then show "\<forall>ev. \<not> enabled ev sv"
    by (auto simp: finished_def list_all_length Let_def elim!: enabled.elims)
next
  assume none: "\<forall>ev. \<not> enabled ev sv"
  have "\<not> sv_accepting sv" using none [rule_format, of "Accept_Done Io_Failed"] by (simp add: completes_def)
  moreover have "\<not> sv_awaiting_signal sv" using none [rule_format, of Signalled] by simp
  moreover have "cn_pending (sv_conns sv ! i) = Idle" if "i < length (sv_conns sv)" for i
    using none [rule_format, of "Read_Done i Io_Failed []"] none [rule_format, of "Write_Done i Io_Failed"] that
    by (auto simp: Let_def completes_def split: pending.splits if_splits)
  ultimately show "finished sv" by (simp add: finished_def list_all_length)
qed

lemma sum_list_map_update:
  "i < length xs \<Longrightarrow> sum_list (map f (xs[i := x])) + f (xs ! i) = sum_list (map f xs) + (f x :: nat)"
  by (induction xs arbitrary: i) (auto split: nat.split)

lemma received_closed_work:
  "received e bytes cn = Inr cn' \<Longrightarrow> \<not> cn_open cn \<Longrightarrow> op_work cn' = 1"
  by (auto simp: received_def Let_def do_read_def do_write_def op_work_def
      split: sum.splits prod.splits result_type.splits if_splits)

lemma conn_work_less:
  assumes "i < length (sv_conns sv)" "sv_conns sv' = (sv_conns sv)[i := cn]"
    "sv_accepting sv' = sv_accepting sv" "op_work cn < op_work (sv_conns sv ! i)"
  shows "work sv' < work sv"
  using sum_list_map_update [of i "sv_conns sv" op_work cn] assms by (simp add: work_def)

lemma closed_read_works:
  assumes "enabled (Read_Done i ec bytes) sv" "on_read e i ec bytes sv = Inr sv'"
    and "\<not> cn_open (sv_conns sv ! i)"
  shows "work sv' < work sv \<and> length (sv_conns sv') = length (sv_conns sv)"
proof -
  obtain o1 where i: "i < length (sv_conns sv)" and o1: "cn_pending (sv_conns sv ! i) = Reading o1"
    and ec: "completes o1 False ec"
    using assms(1,3) by (auto simp: Let_def split: pending.splits)
  have "\<exists>cn. sv_conns sv' = (sv_conns sv)[i := cn] \<and> op_work cn < op_work (sv_conns sv ! i) \<and>
      sv_accepting sv' = sv_accepting sv"
  proof (cases "ec = No_Error")
    case True
    then have "o1" using ec by (simp add: completes_def split: if_splits)
    then obtain cn where "received e bytes ((sv_conns sv ! i)\<lparr>cn_pending := Idle\<rparr>) = Inr cn"
      and "sv' = sv\<lparr>sv_conns := (sv_conns sv)[i := cn]\<rparr>"
      using True assms(2) i by (auto simp: on_read_def Let_def map_outcome_Inr update_conn_def)
    then show ?thesis
      using \<open>o1\<close> o1 assms(3) received_closed_work by (intro exI [of _ cn]) (fastforce simp: op_work_def)
  next
    case False
    then show ?thesis
      using assms(2) i o1
      by (auto simp: on_read_def Let_def manager_stop_def update_conn_def conn_stop_def op_work_def
          intro!: exI split: if_splits)
  qed
  then show ?thesis using conn_work_less [OF i] by fastforce
qed

lemma closed_write_works:
  assumes "enabled (Write_Done i ec) sv"
  shows "work (on_write i ec sv) < work sv \<and>
    length (sv_conns (on_write i ec sv)) = length (sv_conns sv)"
proof -
  obtain o1 b where i: "i < length (sv_conns sv)" and o1: "cn_pending (sv_conns sv ! i) = Writing o1 b"
    using assms by (auto simp: Let_def split: pending.splits)
  define cn where "cn = (sv_conns sv ! i)\<lparr>cn_pending := Idle\<rparr>"
  have conns: "sv_conns (on_write i ec sv) = (sv_conns sv)[i := if ec = Aborted then cn else conn_stop cn]"
    using i by (auto simp: on_write_def Let_def manager_stop_def update_conn_def cn_def)
  have "work (on_write i ec sv) < work sv"
    by (rule conn_work_less [OF i conns])
      (use o1 in \<open>auto simp: op_work_def cn_def on_write_def Let_def manager_stop_def\<close>)
  then show ?thesis using conns by simp
qed

lemma on_read_acceptor: "on_read e i ec bytes sv = Inr sv' \<Longrightarrow> sv_acceptor_open sv' = sv_acceptor_open sv"
  unfolding on_read_def Let_def
  by (cases "ec = No_Error") (auto simp: map_outcome_Inr manager_stop_def split: if_splits)

lemma on_write_acceptor: "sv_acceptor_open (on_write i ec sv) = sv_acceptor_open sv"
  by (simp add: on_write_def Let_def manager_stop_def)

text \<open>Once the acceptor is closed, every handler leaves less to do.\<close>

lemma closed_step:
  assumes inv: "server_inv e evs sv" and closed: "\<not> sv_acceptor_open sv"
    and ev: "enabled ev sv" and h: "handle e ev sv = Inr sv'"
  shows "work sv' < work sv \<and> length (sv_conns sv') = length (sv_conns sv) \<and> \<not> sv_acceptor_open sv'"
proof (cases ev)
  case (Accept_Done ec)
  then show ?thesis using assms by (auto simp: on_accept_def work_def)
next
  case (Read_Done i ec bytes)
  have "i < length (sv_conns sv)" using ev Read_Done by simp
  then have "\<not> cn_open (sv_conns sv ! i)" using inv closed by (auto simp: server_invs)
  moreover have "sv_acceptor_open sv' = sv_acceptor_open sv"
    using h on_read_acceptor unfolding Read_Done by simp
  moreover have "enabled (Read_Done i ec bytes) sv" "on_read e i ec bytes sv = Inr sv'"
    using ev h unfolding Read_Done by simp_all
  ultimately show ?thesis using closed_read_works closed by blast
next
  case (Write_Done i ec)
  have w: "enabled (Write_Done i ec) sv" and sv': "sv' = on_write i ec sv"
    using ev h unfolding Write_Done by simp_all
  show ?thesis using closed_write_works [OF w] closed unfolding sv' by (simp add: on_write_acceptor)
next
  case Signalled
  then show ?thesis using inv closed ev by (simp add: server_inv_def accept_inv_def)
qed

lemma serves_append:
  "serves e sv' evs2 sv'' \<Longrightarrow> serves e sv evs sv' \<Longrightarrow> serves e sv (evs @ evs2) sv''"
proof (induction sv' evs2 sv'' rule: serves.induct)
  case (serves_snoc sv' evs2 sv'' ev sv3)
  then show ?case using serves.serves_snoc [of e sv "evs @ evs2"] by simp
qed simp

lemma closed_runs:
  assumes "serves e server_start evs sv" "\<not> sv_acceptor_open sv" "serves e sv evs2 sv'"
  shows "length evs2 + work sv' \<le> work sv \<and> length (sv_conns sv') = length (sv_conns sv) \<and>
    \<not> sv_acceptor_open sv' \<and> server_inv e (evs @ evs2) sv'"
  using assms(3,1,2)
proof (induction sv evs2 sv' rule: serves.induct)
  case (serves_Nil sv)
  then show ?case by (simp add: serves_inv)
next
  case (serves_snoc sv evs2 sv' ev sv'')
  then have ih: "length evs2 + work sv' \<le> work sv" "length (sv_conns sv') = length (sv_conns sv)"
    "\<not> sv_acceptor_open sv'" "server_inv e (evs @ evs2) sv'"
    by auto
  then show ?case
    using closed_step [OF ih(4,3) serves_snoc.hyps(2,3)] handle_inv [OF ih(4) serves_snoc.hyps(2,3)]
    by simp
qed

lemma work_bound: "work sv \<le> 1 + 2 * length (sv_conns sv)"
proof -
  have "op_work cn \<le> 2" for cn by (simp add: op_work_def split: pending.split)
  then have "sum_list (map op_work cns) \<le> 2 * length cns" for cns
    by (induction cns) (auto intro: order_trans [OF add_mono])
  from this [of "sv_conns sv"] show ?thesis by (simp add: work_def)
qed

text \<open>
  C19: while the acceptor is open \<open>run\<close> does not return, as an accept is always outstanding; after
  a signal it accepts and manages no connection any more, at most two more handlers run for each
  connection there has been and one for the accept, and it returns as soon as none can run.
\<close>

theorem server_stops:
  assumes "serves e server_start evs sv" and "serves e sv evs2 sv'"
  shows "if sv_acceptor_open sv then \<not> finished sv
    else length evs2 \<le> 1 + 2 * length (sv_conns sv) \<and>
      length (sv_conns sv') = length (sv_conns sv) \<and> sv_managed sv' = [] \<and>
      (finished sv' \<or> (\<exists>ev. enabled ev sv'))"
proof (cases "sv_acceptor_open sv")
  case True
  then show ?thesis using serves_inv [OF assms(1)] by (auto simp: server_invs finished_def)
next
  case False
  note r = closed_runs [OF assms(1) False assms(2)]
  then have "sv_managed sv' = []" by (auto simp: server_invs)
  then show ?thesis using False r work_bound [of sv] finished_iff by auto
qed

subsection \<open>Two runs of the server\<close>

definition one_client :: "http_env \<Rightarrow> server" where
  "one_client e = \<lparr>sv_acceptor_open = True, sv_accepting = True, sv_awaiting_signal = True,
     sv_conns = [conn_start (new_connection e)], sv_managed = [0], sv_sent = []\<rparr>"

lemma one_client_serves: "serves e server_start [Accept_Done No_Error] (one_client e)"
  using serves_snoc [OF serves_Nil, of "Accept_Done No_Error" server_start e "one_client e"]
  by (simp add: server_start_def Let_def do_await_stop_def do_accept_def completes_def on_accept_def
      manager_start_def update_conn_def one_client_def)

text \<open>A client asks for the root of an empty directory.\<close>

definition empty_site :: http_env where
  "empty_site = \<lparr>he_files = Map.empty, he_root = ''www'', he_split = split_on,
     he_junk = replicate 8192 NUL\<rparr>"

definition get_root :: request where
  "get_root = \<lparr>rq_method = ''GET'', rq_uri = ''/'', rq_major = 1, rq_minor = 0, rq_headers = [],
     rq_parameters = []\<rparr>"

definition one_visit :: "event list" where
  "one_visit = [Accept_Done No_Error, Read_Done 0 No_Error (render_request get_root),
     Write_Done 0 No_Error]"

lemma get_root_renderable: "renderable get_root"
  by (simp add: renderable_def get_root_def token_char_def is_char_def is_ctl_def is_tspecial_def
      tspecials_def c_int_def max_version_def)

lemma get_root_length: "length (render_request get_root) = 18"
  by (simp add: render_request_def get_root_def render_version_def show_int_def show_nat.simps crlf_def)

definition visited :: connection where
  "visited = \<lparr>cn_open = True, cn_buffer = render_request get_root @ replicate 8174 NUL,
     cn_request = get_root, cn_parser = Expecting_Newline_3, cn_reply = stock_reply Not_Found,
     cn_pending = Writing True (concat (to_buffers (stock_reply Not_Found)))\<rparr>"

lemma get_root_received:
  "received empty_site (render_request get_root) (new_connection empty_site) = Inr visited"
proof -
  have "parse_chars Method_Start new_request (render_request get_root) =
      Inr ((Good, Expecting_Newline_3, get_root), [])"
    using parse_rendered [OF get_root_renderable, of "[]"] by simp
  moreover have "handle_request Map.empty root get_root rep = stock_reply Not_Found" for root rep
    by (simp add: handle_request_def get_root_def request_path_def)
  ultimately show ?thesis
    by (simp add: received_def new_connection_def empty_site_def get_root_length c_string_at_def
        do_write_def visited_def) (simp add: get_root_def)
qed

lemma one_visit_serves:
  "serves empty_site server_start one_visit
     \<lparr>sv_acceptor_open = True, sv_accepting = True, sv_awaiting_signal = True,
      sv_conns = [visited\<lparr>cn_open := False, cn_pending := Idle\<rparr>], sv_managed = [],
      sv_sent = [(0, concat (to_buffers (stock_reply Not_Found)))]\<rparr>"
proof -
  define s1 where "s1 = one_client empty_site"
  define s2 where "s2 = s1\<lparr>sv_conns := [visited]\<rparr>"
  have "serves empty_site server_start [Accept_Done No_Error] s1"
    unfolding s1_def by (rule one_client_serves)
  moreover have "enabled (Read_Done 0 No_Error (render_request get_root)) s1"
    using get_root_length
    by (simp add: s1_def one_client_def conn_start_def do_read_def new_connection_def empty_site_def completes_def flip: length_greater_0_conv)
  moreover have "(conn_start (new_connection empty_site))\<lparr>cn_pending := Idle\<rparr> = new_connection empty_site"
    by (simp add: conn_start_def do_read_def new_connection_def)
  then have "handle empty_site (Read_Done 0 No_Error (render_request get_root)) s1 = Inr s2"
    by (simp add: on_read_def Let_def s1_def one_client_def s2_def update_conn_def get_root_received map_outcome_def)
  ultimately have "serves empty_site server_start
      ([Accept_Done No_Error] @ [Read_Done 0 No_Error (render_request get_root)]) s2"
    by (rule serves_snoc)
  from serves_snoc [OF this, of "Write_Done 0 No_Error"] show ?thesis
    by (simp add: one_visit_def s2_def s1_def one_client_def visited_def completes_def on_write_def Let_def
        manager_stop_def update_conn_def conn_stop_def)
qed

theorem server_answers_witness:
  "\<exists>sv. serves empty_site server_start one_visit sv \<and> sv_sent sv \<noteq> [] \<and>
     (\<forall>(i, bytes) \<in> set (sv_sent sv). answer empty_site (text_of i one_visit) = Some bytes)"
  using server_answers [OF one_visit_serves] one_visit_serves by fastforce

theorem server_manages_witness:
  "\<exists>sv. serves empty_site server_start one_visit sv \<and> set (sv_managed sv) = {}"
  using server_manages [OF one_visit_serves] one_visit_serves by fastforce

text \<open>A signal while a client is connected: two handlers run and the server has stopped.\<close>

lemma interrupted_serves:
  fixes e :: http_env
  defines "sv \<equiv> \<lparr>sv_acceptor_open = False, sv_accepting = True, sv_awaiting_signal = False,
      sv_conns = [(conn_start (new_connection e))\<lparr>cn_open := False\<rparr>], sv_managed = [], sv_sent = []\<rparr>"
  shows "serves e server_start [Accept_Done No_Error, Signalled] sv"
    and "serves e sv [Accept_Done Aborted, Read_Done 0 Aborted []]
      (sv\<lparr>sv_accepting := False, sv_conns := [(new_connection e)\<lparr>cn_open := False\<rparr>]\<rparr>)"
proof -
  define s1 where "s1 = one_client e"
  have "serves e server_start [Accept_Done No_Error] s1"
    unfolding s1_def by (rule one_client_serves)
  from serves_snoc [OF this, of Signalled] show "serves e server_start [Accept_Done No_Error, Signalled] sv"
    by (simp add: s1_def one_client_def sv_def on_signal_def stop_all_def update_conn_def conn_stop_def)
  have "serves e sv [Accept_Done Aborted] (sv\<lparr>sv_accepting := False\<rparr>)"
    using serves_snoc [OF serves_Nil, of "Accept_Done Aborted" sv e "sv\<lparr>sv_accepting := False\<rparr>"]
    by (simp add: sv_def completes_def on_accept_def)
  from serves_snoc [OF this, of "Read_Done 0 Aborted []"]
  show "serves e sv [Accept_Done Aborted, Read_Done 0 Aborted []]
      (sv\<lparr>sv_accepting := False, sv_conns := [(new_connection e)\<lparr>cn_open := False\<rparr>]\<rparr>)"
    by (simp add: sv_def conn_start_def do_read_def new_connection_def completes_def on_read_def
        update_conn_def)
qed

theorem server_stops_witness:
  "\<exists>sv sv'. serves empty_site server_start [Accept_Done No_Error, Signalled] sv \<and> \<not> sv_acceptor_open sv \<and>
     serves empty_site sv [Accept_Done Aborted, Read_Done 0 Aborted []] sv' \<and> length (sv_conns sv') = 1 \<and>
     finished sv'"
proof -
  note i = interrupted_serves [of empty_site]
  show ?thesis
    using server_stops [OF i] i by (intro exI conjI) (assumption | simp add: finished_def new_connection_def)+
qed

end
