(* ===== verification/Http_Beast.thy ===== *)
theory Http_Beast
  imports Http_Form
begin

section \<open>The second HTTP server\<close>

text \<open>
  \<open>http_server/handle_request.h\<close>, \<open>http_server/mime_types.cpp\<close> and
  \<open>http_server/session.cpp\<close>: a server on the messages of Boost.Beast.  Beast is a parameter of
  the model: it delivers parsed requests, opens files and says of a response whether the
  connection has to end after it.  What is printed on the console is not modelled.
\<close>

subsection \<open>mime_types\<close>

definition to_lower :: "char \<Rightarrow> char" where
  "to_lower c =
     (let n = of_char c :: nat in if 65 \<le> n \<and> n \<le> 90 then char_of (n + 32) else c)"

definition iequals :: "cstring \<Rightarrow> cstring \<Rightarrow> bool" where
  "iequals s t \<longleftrightarrow> map to_lower s = map to_lower t"

text \<open>From the last dot on; empty without a dot.\<close>

definition dot_extension :: "cstring \<Rightarrow> cstring" where
  "dot_extension path = (case find_last_of CHR ''.'' path of None \<Rightarrow> [] | Some pos \<Rightarrow> drop pos path)"

definition mime_table :: "(cstring \<times> cstring) list" where
  "mime_table =
    [(''.htm'', ''text/html''), (''.html'', ''text/html''), (''.php'', ''text/html''),
     (''.css'', ''text/css''), (''.txt'', ''text/plain''), (''.js'', ''application/javascript''),
     (''.json'', ''application/json''), (''.xml'', ''application/xml''),
     (''.swf'', ''application/x-shockwave-flash''), (''.flv'', ''video/x-flv''),
     (''.png'', ''image/png''), (''.jpe'', ''image/jpeg''), (''.jpeg'', ''image/jpeg''),
     (''.jpg'', ''image/jpeg''), (''.gif'', ''image/gif''), (''.bmp'', ''image/bmp''),
     (''.ico'', ''image/vnd.microsoft.icon''), (''.tiff'', ''image/tiff''), (''.tif'', ''image/tiff''),
     (''.svg'', ''image/svg+xml''), (''.svgz'', ''image/svg+xml'')]"

definition mime_type :: "cstring \<Rightarrow> cstring" where
  "mime_type path =
     (case find (\<lambda>(ext, mime). iequals (dot_extension path) ext) mime_table of
        Some (ext, mime) \<Rightarrow> mime
      | None \<Rightarrow> ''application/text'')"

subsection \<open>Messages\<close>

datatype verb = Get | Post | Other_Verb

record beast_request =
  bq_method :: verb
  bq_target :: cstring
  bq_version :: nat
  bq_keep_alive :: bool
  bq_body :: cstring

text \<open>
  \<open>None\<close> in a field that was not set.  The version string of the library is in every response
  and is left out.
\<close>

record beast_response =
  br_status :: nat
  br_version :: nat
  br_content_type :: "cstring option"
  br_keep_alive :: "bool option"
  br_length :: "nat option"
  br_body :: cstring

datatype open_result = No_Such_File | Open_Error cstring | Opened cstring

record beast_env =
  be_open :: "cstring \<Rightarrow> open_result"
  be_split :: "char \<Rightarrow> cstring \<Rightarrow> cstring list"
  be_need_eof :: "beast_response \<Rightarrow> bool"

subsection \<open>handle_request\<close>

text \<open>The branch of the platforms other than Windows.\<close>

definition path_cat :: "cstring \<Rightarrow> cstring \<Rightarrow> cstring" where
  "path_cat base path =
     (if base = [] then path
      else (if last base = CHR ''/'' then butlast base else base) @ path)"

definition load_html :: "beast_env \<Rightarrow> cstring \<Rightarrow> cstring" where
  "load_html env path =
     (case be_open env (c_str path) of Opened content \<Rightarrow> append_blocks [] content | _ \<Rightarrow> [])"

definition html_response :: "nat \<Rightarrow> beast_request \<Rightarrow> cstring \<Rightarrow> beast_response" where
  "html_response status req body =
     \<lparr>br_status = status, br_version = bq_version req, br_content_type = Some ''text/html'',
      br_keep_alive = Some (bq_keep_alive req), br_length = Some (length body), br_body = body\<rparr>"

definition bad_request :: "beast_request \<Rightarrow> cstring \<Rightarrow> beast_response" where
  "bad_request req why = html_response 400 req why"

definition not_found :: "beast_request \<Rightarrow> cstring \<Rightarrow> beast_response" where
  "not_found req target =
     html_response 404 req (''The resource '' @ [CHR 0x27] @ target @ [CHR 0x27] @ '' was not found.'')"

definition server_error :: "beast_request \<Rightarrow> cstring \<Rightarrow> beast_response" where
  "server_error req why = html_response 500 req (''An error occurred: '' @ [CHR 0x27] @ why @ [CHR 0x27])"

definition target_path :: "cstring \<Rightarrow> beast_request \<Rightarrow> cstring" where
  "target_path doc_root req =
     (let path = path_cat doc_root (bq_target req)
      in if last (bq_target req) = CHR ''/'' then path @ ''index.html'' else path)"

text \<open>The map of the posted parameters: the first value of a name stays.\<close>

fun insert_pairs ::
    "(char \<Rightarrow> cstring \<Rightarrow> cstring list) \<Rightarrow> cstring list \<Rightarrow> (cstring \<rightharpoonup> cstring) \<Rightarrow>
     (cstring \<rightharpoonup> cstring) outcome" where
  "insert_pairs split [] m = Inr m"
| "insert_pairs split (pair # pairs) m =
     (case split CHR ''='' pair of
        name # value # _ \<Rightarrow>
          insert_pairs split pairs (if m name = None then m(name \<mapsto> value) else m)
      | _ \<Rightarrow> Inl (Undefined Out_Of_Range))"

definition respond_get :: "beast_env \<Rightarrow> cstring \<Rightarrow> beast_request \<Rightarrow> beast_response" where
  "respond_get env doc_root req =
     (let path = target_path doc_root req
      in case be_open env (c_str path) of
           No_Such_File \<Rightarrow> not_found req (bq_target req)
         | Open_Error message \<Rightarrow> server_error req message
         | Opened body \<Rightarrow>
             \<lparr>br_status = 200, br_version = bq_version req, br_content_type = Some (mime_type path),
              br_keep_alive = Some (bq_keep_alive req), br_length = Some (length body), br_body = body\<rparr>)"

definition respond_post :: "beast_env \<Rightarrow> cstring \<Rightarrow> beast_request \<Rightarrow> beast_response outcome" where
  "respond_post env doc_root req =
     (case insert_pairs (be_split env) (be_split env CHR ''&'' (bq_body req)) Map.empty of
        Inl u \<Rightarrow> Inl u
      | Inr parameters \<Rightarrow>
          Inr \<lparr>br_status = 200, br_version = bq_version req, br_content_type = None,
               br_keep_alive = None, br_length = None,
               br_body = load_html env (target_path doc_root req)\<rparr>)"

definition target_ok :: "cstring \<Rightarrow> bool" where
  "target_ok target \<longleftrightarrow> target \<noteq> [] \<and> hd target = CHR ''/'' \<and> \<not> occurs_in ''..'' target"

definition beast_handle_request ::
    "beast_env \<Rightarrow> cstring \<Rightarrow> beast_request \<Rightarrow> beast_response outcome" where
  "beast_handle_request env doc_root req =
     (if bq_method req \<noteq> Get \<and> bq_method req \<noteq> Post then Inr (bad_request req ''Unknown HTTP-method'')
      else if \<not> target_ok (bq_target req) then Inr (bad_request req ''Illegal request-target'')
      else if bq_method req = Get then Inr (respond_get env doc_root req)
      else respond_post env doc_root req)"

subsection \<open>session\<close>

text \<open>
  Of a session: the outstanding operation, and the responses handed to \<open>async_write\<close>.  A session
  without an operation is destroyed.
\<close>

datatype session_phase = Reading | Writing bool | Shut_Down | Dropped

record session =
  se_phase :: session_phase
  se_sent :: "beast_response list"

datatype read_result = Read_Request beast_request | End_Of_Stream | Read_Error

definition new_session :: session where
  "new_session = \<lparr>se_phase = Dropped, se_sent = []\<rparr>"

definition do_read :: "session \<Rightarrow> session" where
  "do_read s = s\<lparr>se_phase := Reading\<rparr>"

definition session_run :: "session \<Rightarrow> session" where
  "session_run s = do_read s"

definition do_close :: "session \<Rightarrow> session" where
  "do_close s = s\<lparr>se_phase := Shut_Down\<rparr>"

definition fail :: "session \<Rightarrow> session" where
  "fail s = s\<lparr>se_phase := Dropped\<rparr>"

definition send_lambda :: "beast_env \<Rightarrow> beast_response \<Rightarrow> session \<Rightarrow> session" where
  "send_lambda env msg s = s\<lparr>se_sent := se_sent s @ [msg], se_phase := Writing (be_need_eof env msg)\<rparr>"

definition session_on_read ::
    "beast_env \<Rightarrow> cstring \<Rightarrow> read_result \<Rightarrow> session \<Rightarrow> session outcome" where
  "session_on_read env doc_root r s =
     (case r of
        End_Of_Stream \<Rightarrow> Inr (do_close s)
      | Read_Error \<Rightarrow> Inr (fail s)
      | Read_Request req \<Rightarrow>
          (case beast_handle_request env doc_root req of
             Inl u \<Rightarrow> Inl u
           | Inr msg \<Rightarrow> Inr (send_lambda env msg s)))"

definition session_on_write :: "bool \<Rightarrow> bool \<Rightarrow> session \<Rightarrow> session" where
  "session_on_write close failed s =
     (if failed then fail s else if close then do_close s else do_read s)"

text \<open>
  A session with a client: each read with its result and, when it leads to a write, whether the
  write fails.
\<close>

fun session_serve ::
    "beast_env \<Rightarrow> cstring \<Rightarrow> (read_result \<times> bool) list \<Rightarrow> session \<Rightarrow> session outcome" where
  "session_serve env doc_root [] s = Inr s"
| "session_serve env doc_root ((r, write_fails) # rs) s =
     (if se_phase s \<noteq> Reading then Inr s
      else case session_on_read env doc_root r s of
        Inl u \<Rightarrow> Inl u
      | Inr s1 \<Rightarrow>
          (case se_phase s1 of
             Writing close \<Rightarrow> session_serve env doc_root rs (session_on_write close write_fails s1)
           | _ \<Rightarrow> Inr s1))"

subsection \<open>What is opened\<close>

text \<open>The document root as \<open>path_cat\<close> writes it.\<close>

definition root_prefix :: "cstring \<Rightarrow> cstring" where
  "root_prefix base = path_cat base []"

lemma path_cat_prefix: "path_cat base path = root_prefix base @ path"
  by (simp add: root_prefix_def path_cat_def)

lemma target_path_index: "target_path root req = root_prefix root @ with_index (bq_target req)"
  by (simp add: target_path_def path_cat_prefix with_index_def Let_def)

lemma target_path_below:
  "target_ok (bq_target req) \<Longrightarrow> c_str (target_path root req) \<in> below_root (root_prefix root)"
  using with_index_no_dots [of "bq_target req"] unfolding target_path_index
  by (intro below_rootI) (auto simp: target_ok_def with_index_def)

text \<open>The same server on a file system that answers for the names in a set only.\<close>

definition confined_to :: "cstring set \<Rightarrow> beast_env \<Rightarrow> beast_env" where
  "confined_to names env =
     env\<lparr>be_open := (\<lambda>name. if name \<in> names then be_open env name else No_Such_File)\<rparr>"

lemma beast_handle_confined:
  "beast_handle_request (confined_to (below_root (root_prefix root)) env) root req =
   beast_handle_request env root req"
proof (cases "target_ok (bq_target req)")
  case True
  then have "be_open (confined_to (below_root (root_prefix root)) env) (c_str (target_path root req)) =
      be_open env (c_str (target_path root req))"
    by (simp add: confined_to_def target_path_below)
  then have "respond_get (confined_to (below_root (root_prefix root)) env) root req = respond_get env root req"
    "load_html (confined_to (below_root (root_prefix root)) env) (target_path root req) =
       load_html env (target_path root req)"
    by (simp_all add: respond_get_def load_html_def)
  moreover have "be_split (confined_to (below_root (root_prefix root)) env) = be_split env"
    by (simp add: confined_to_def)
  ultimately show ?thesis by (simp add: beast_handle_request_def respond_post_def split: sum.split)
next
  case False
  then show ?thesis by (simp add: beast_handle_request_def)
qed

subsection \<open>A session\<close>

text \<open>
  What Beast documents of \<open>need_eof\<close>: a response without a length ends with the connection; one
  that has a length says itself whether the connection stays.
\<close>

definition documented_need_eof :: "beast_env \<Rightarrow> bool" where
  "documented_need_eof env \<longleftrightarrow>
     (\<forall>r. (br_length r = None \<longrightarrow> be_need_eof env r) \<and>
        (\<forall>n keep. br_length r = Some n \<and> br_keep_alive r = Some keep \<longrightarrow> be_need_eof env r = (\<not> keep)))"

text \<open>The requests that are handled as a POST, and the forms whose pairs all have a \<open>=\<close>.\<close>

definition posts :: "beast_request \<Rightarrow> bool" where
  "posts req \<longleftrightarrow> bq_method req = Post \<and> target_ok (bq_target req)"

definition has_values :: "(char \<Rightarrow> cstring \<Rightarrow> cstring list) \<Rightarrow> cstring \<Rightarrow> bool" where
  "has_values split body \<longleftrightarrow> list_all (\<lambda>pair. 2 \<le> length (split CHR ''='' pair)) (split CHR ''&'' body)"

definition stays :: "beast_request \<Rightarrow> bool" where
  "stays req \<longleftrightarrow> bq_keep_alive req \<and> \<not> posts req"

lemma insert_pairs_cases:
  "if list_all (\<lambda>pair. 2 \<le> length (split CHR ''='' pair)) pairs
   then \<exists>m'. insert_pairs split pairs m = Inr m'
   else insert_pairs split pairs m = Inl (Undefined Out_Of_Range)"
proof (induction pairs arbitrary: m)
  case (Cons pair pairs)
  show ?case
  proof (cases "split CHR ''='' pair")
    case (Cons name vs)
    then show ?thesis using Cons.IH by (cases vs) auto
  qed simp
qed simp

lemma posts_handled:
  assumes "posts req"
  shows "if has_values (be_split env) (bq_body req)
     then \<exists>r. beast_handle_request env root req = Inr r \<and> br_length r = None \<and> br_status r = 200
     else beast_handle_request env root req = Inl (Undefined Out_Of_Range)"
  using assms insert_pairs_cases [of "be_split env" "be_split env CHR ''&'' (bq_body req)" Map.empty]
  by (auto simp: posts_def has_values_def beast_handle_request_def respond_post_def)

lemma others_handled:
  assumes "\<not> posts req"
  shows "\<exists>r. beast_handle_request env root req = Inr r \<and> br_length r = Some (length (br_body r)) \<and>
     br_keep_alive r = Some (bq_keep_alive req)"
  using assms
  by (cases "bq_method req"; cases "target_ok (bq_target req)")
    (auto simp: posts_def beast_handle_request_def bad_request_def not_found_def server_error_def
      html_response_def respond_get_def Let_def split: open_result.split)

text \<open>One exchange whose write does not fail.\<close>

definition exchange :: "beast_request \<Rightarrow> read_result \<times> bool" where
  "exchange req = (Read_Request req, False)"

lemma serve_stays:
  assumes "documented_need_eof env" "stays req" "se_phase s = Reading"
  obtains r where "beast_handle_request env root req = Inr r"
    "session_serve env root (exchange req # rs) s = session_serve env root rs (s\<lparr>se_sent := se_sent s @ [r]\<rparr>)"
proof -
  obtain r where "beast_handle_request env root req = Inr r" "\<not> be_need_eof env r"
    using assms others_handled [of req env root] by (auto simp: stays_def documented_need_eof_def)
  moreover from this have "session_serve env root (exchange req # rs) s =
      session_serve env root rs (s\<lparr>se_sent := se_sent s @ [r]\<rparr>)"
    using assms(3)
    by (cases s)
      (simp add: exchange_def session_on_read_def send_lambda_def session_on_write_def do_read_def)
  ultimately show thesis using that by blast
qed

lemma serve_ends:
  assumes "documented_need_eof env" "\<not> stays req" "se_phase s = Reading"
  shows "session_serve env root (exchange req # rs) s =
     (case beast_handle_request env root req of
        Inl u \<Rightarrow> Inl u
      | Inr r \<Rightarrow> Inr (s\<lparr>se_sent := se_sent s @ [r], se_phase := Shut_Down\<rparr>))"
proof (cases "beast_handle_request env root req")
  case (Inl u)
  then show ?thesis using assms(3) by (simp add: exchange_def session_on_read_def)
next
  case (Inr r)
  then have "be_need_eof env r"
    using assms(1,2) posts_handled [of req env root] others_handled [of req env root]
    by (cases "posts req") (auto simp: stays_def documented_need_eof_def split: if_splits)
  then show ?thesis
    using assms(3) Inr
    by (cases rs)
      (auto simp: exchange_def session_on_read_def send_lambda_def session_on_write_def do_close_def)
qed

lemma serve_staying:
  assumes "documented_need_eof env"
  shows "list_all stays reqs \<Longrightarrow> se_phase s = Reading \<Longrightarrow>
    \<exists>replies. list_all2 (\<lambda>req r. beast_handle_request env root req = Inr r) reqs replies \<and>
      (\<forall>rs. session_serve env root (map exchange reqs @ rs) s =
        session_serve env root rs (s\<lparr>se_sent := se_sent s @ replies\<rparr>))"
proof (induction reqs arbitrary: s)
  case Nil
  have "s\<lparr>se_sent := se_sent s @ []\<rparr> = s" by simp
  then show ?case by (intro exI [of _ "[]"]) simp
next
  case (Cons req reqs)
  obtain r where "beast_handle_request env root req = Inr r"
    using Cons.prems serve_stays [OF assms, of req s root] by auto
  moreover from this have "session_serve env root (exchange req # rs) s =
      session_serve env root rs (s\<lparr>se_sent := se_sent s @ [r]\<rparr>)" for rs
    using Cons.prems serve_stays [OF assms, of req s root rs] by auto
  moreover obtain replies where "list_all2 (\<lambda>req r. beast_handle_request env root req = Inr r) reqs replies"
    "\<forall>rs. session_serve env root (map exchange reqs @ rs) (s\<lparr>se_sent := se_sent s @ [r]\<rparr>) =
       session_serve env root rs (s\<lparr>se_sent := se_sent s @ r # replies\<rparr>)"
    using Cons.IH [of "s\<lparr>se_sent := se_sent s @ [r]\<rparr>"] Cons.prems by auto
  ultimately show ?case by (intro exI [of _ "r # replies"]) simp
qed


text \<open>A server with one file, and a client that reads it and then posts a form.\<close>

definition sample_env :: beast_env where
  "sample_env = \<lparr>be_open = (\<lambda>name. if name = ''/www/a.html'' then Opened ''hi'' else No_Such_File),
     be_split = split_on,
     be_need_eof = (\<lambda>r. case br_length r of None \<Rightarrow> True | Some n \<Rightarrow> br_keep_alive r \<noteq> Some True)\<rparr>"

definition sample_get :: beast_request where
  "sample_get = \<lparr>bq_method = Get, bq_target = ''/a.html'', bq_version = 11, bq_keep_alive = True, bq_body = []\<rparr>"


end
