(* ===== verification/Http_Fast.thy ===== *)
theory Http_Fast
  imports Http_Beast
begin

section \<open>The fast HTTP server\<close>

text \<open>
  \<open>http_server/http_server_fast.cpp\<close>: a worker that accepts a connection, reads one request,
  writes one response and accepts again, and the deadline of its requests.  Beast and Asio are
  parameters: what a read with the parser of the worker gives, and which files open.  Its table of
  mime types is that of \<open>mime_types.cpp\<close>.  The console is not modelled.
\<close>

record fast_request = beast_request +
  bq_method_string :: cstring

text \<open>
  \<open>fe_read p buf bytes\<close>: \<open>http::async_read\<close> with the parser \<open>p\<close> and the buffer \<open>buf\<close> on a
  connection that sends \<open>bytes\<close>: whether it failed, the parser and the buffer after it.
\<close>

record 'p fast_env =
  fe_open :: "cstring \<Rightarrow> cstring option"
  fe_read :: "'p \<Rightarrow> cstring \<Rightarrow> cstring \<Rightarrow> bool \<times> 'p \<times> cstring"
  fe_done :: "'p \<Rightarrow> bool"
  fe_get :: "'p \<Rightarrow> fast_request"

datatype fast_phase = F_Accepting | F_Reading | F_Writing

text \<open>The deadline is a time in seconds, \<open>None\<close> the greatest time point.\<close>

record 'p fast_worker =
  fw_phase :: fast_phase
  fw_open :: bool
  fw_buffer :: cstring
  fw_parser :: 'p
  fw_deadline :: "nat option"
  fw_waits :: nat
  fw_written :: "beast_response list"

definition fast_accept :: "'p fast_worker \<Rightarrow> 'p fast_worker" where
  "fast_accept w = w\<lparr>fw_open := False, fw_buffer := [], fw_phase := F_Accepting\<rparr>"

definition check_deadline :: "nat \<Rightarrow> 'p fast_worker \<Rightarrow> 'p fast_worker" where
  "check_deadline now w =
     (let w1 = (case fw_deadline w of
                  Some t \<Rightarrow> if t \<le> now then w\<lparr>fw_open := False, fw_deadline := None\<rparr> else w
                | None \<Rightarrow> w)
      in w1\<lparr>fw_waits := fw_waits w1 + 1\<rparr>)"

definition fast_start :: "nat \<Rightarrow> 'p fast_worker \<Rightarrow> 'p fast_worker" where
  "fast_start now w = check_deadline now (fast_accept w)"

text \<open>The parser is the member it was: it is not made anew.\<close>

definition read_request :: "'p fast_worker \<Rightarrow> 'p fast_worker" where
  "read_request w = w\<lparr>fw_phase := F_Reading\<rparr>"

definition on_accepted :: "nat \<Rightarrow> bool \<Rightarrow> 'p fast_worker \<Rightarrow> 'p fast_worker" where
  "on_accepted now ec w =
     (if ec then fast_accept w
      else read_request (w\<lparr>fw_open := True, fw_deadline := Some (now + 60)\<rparr>))"

definition write_response :: "beast_response \<Rightarrow> 'p fast_worker \<Rightarrow> 'p fast_worker" where
  "write_response r w = w\<lparr>fw_written := fw_written w @ [r], fw_phase := F_Writing\<rparr>"

definition text_response :: "nat \<Rightarrow> bool \<Rightarrow> cstring \<Rightarrow> beast_response" where
  "text_response status keep body =
     \<lparr>br_status = status, br_version = 11, br_content_type = Some ''text/plain'',
      br_keep_alive = Some keep, br_length = Some (length body), br_body = body\<rparr>"

definition fast_bad_response :: "nat \<Rightarrow> cstring \<Rightarrow> beast_response" where
  "fast_bad_response status error = text_response status False error"

text \<open>\<open>target.data()\<close> taken as a C string: a view has no zero behind its last character.\<close>

definition view_c_str :: "cstring \<Rightarrow> cstring outcome" where
  "view_c_str s = (if NUL \<in> set s then Inr (c_str s) else Inl (Undefined Out_Of_Range))"

definition fast_send_post :: "fast_request \<Rightarrow> beast_response outcome" where
  "fast_send_post req =
     (case view_c_str (bq_target req) of
        Inl u \<Rightarrow> Inl u
      | Inr body \<Rightarrow> Inr (text_response 200 (bq_keep_alive req) body))"

definition fast_send_file :: "'p fast_env \<Rightarrow> cstring \<Rightarrow> cstring \<Rightarrow> beast_response" where
  "fast_send_file env doc_root target =
     (if \<not> target_ok target then fast_bad_response 404 (''File not found'' @ [CR, LF])
      else case fe_open env (c_str (doc_root @ target)) of
             None \<Rightarrow> fast_bad_response 404 (''File not found'' @ [CR, LF])
           | Some body \<Rightarrow>
               \<lparr>br_status = 200, br_version = 11, br_content_type = Some (mime_type target),
                br_keep_alive = Some False, br_length = Some (length body), br_body = body\<rparr>)"

definition process_request :: "'p fast_env \<Rightarrow> cstring \<Rightarrow> fast_request \<Rightarrow> beast_response outcome" where
  "process_request env doc_root req =
     (case bq_method req of
        Get \<Rightarrow> Inr (fast_send_file env doc_root (bq_target req))
      | Post \<Rightarrow> fast_send_post req
      | Other_Verb \<Rightarrow>
          Inr (fast_bad_response 400 (''Invalid request-method '' @ [CHR 0x27] @ bq_method_string req @
            [CHR 0x27, CR, LF])))"

definition on_request :: "'p fast_env \<Rightarrow> cstring \<Rightarrow> cstring \<Rightarrow> 'p fast_worker \<Rightarrow> 'p fast_worker outcome" where
  "on_request env doc_root bytes w =
     (case fe_read env (fw_parser w) (fw_buffer w) bytes of
        (ec, p, buf) \<Rightarrow>
          let w1 = w\<lparr>fw_parser := p, fw_buffer := buf\<rparr>
          in if ec then Inr (fast_accept w1)
             else (case process_request env doc_root (fe_get env p) of
                     Inl u \<Rightarrow> Inl u
                   | Inr r \<Rightarrow> Inr (write_response r w1)))"

definition on_written :: "'p fast_worker \<Rightarrow> 'p fast_worker" where
  "on_written w = fast_accept w"

subsection \<open>The completions\<close>

text \<open>
  What happens to a worker: a completion of its socket operation, or of its wait on the deadline
  (at its time, or cancelled by a new deadline).
\<close>

datatype fast_event = Accept_Done bool | Read_Done cstring | Write_Done | Wait_Done

fun fast_step :: "'p fast_env \<Rightarrow> cstring \<Rightarrow> nat \<Rightarrow> fast_event \<Rightarrow> 'p fast_worker \<Rightarrow> 'p fast_worker outcome" where
  "fast_step env root now (Accept_Done ec) w = Inr (if fw_phase w = F_Accepting then on_accepted now ec w else w)"
| "fast_step env root now (Read_Done bytes) w = (if fw_phase w = F_Reading then on_request env root bytes w else Inr w)"
| "fast_step env root now Write_Done w = Inr (if fw_phase w = F_Writing then on_written w else w)"
| "fast_step env root now Wait_Done w =
     Inr (if 0 < fw_waits w then check_deadline now (w\<lparr>fw_waits := fw_waits w - 1\<rparr>) else w)"

fun fast_run :: "'p fast_env \<Rightarrow> cstring \<Rightarrow> (nat \<times> fast_event) list \<Rightarrow> 'p fast_worker \<Rightarrow> 'p fast_worker outcome" where
  "fast_run env root [] w = Inr w"
| "fast_run env root ((now, ev) # evs) w =
     (case fast_step env root now ev w of Inl u \<Rightarrow> Inl u | Inr w1 \<Rightarrow> fast_run env root evs w1)"

text \<open>
  What Beast documents of a read: it is over when the parser is done, so that a parser that is
  done already reads nothing; and without an error the parser is done afterwards.
\<close>

definition documented_read :: "'p fast_env \<Rightarrow> bool" where
  "documented_read env \<longleftrightarrow>
     (\<forall>p buf bytes. fe_done env p \<longrightarrow> fe_read env p buf bytes = (False, p, buf)) \<and>
     (\<forall>p buf bytes p' buf'. fe_read env p buf bytes = (False, p', buf') \<longrightarrow> fe_done env p')"

text \<open>A connection from its acceptance on: it sends its bytes and waits for the answer.\<close>

definition connection_events :: "nat \<times> cstring \<Rightarrow> (nat \<times> fast_event) list" where
  "connection_events = (\<lambda>(now, bytes). [(now, Accept_Done False), (now, Read_Done bytes), (now, Write_Done)])"

lemma done_parser_connection:
  assumes "documented_read env" and "fw_phase w = F_Accepting" and "fe_done env (fw_parser w)"
    and "process_request env root (fe_get env (fw_parser w)) = Inr r"
  shows "fast_run env root (connection_events c @ evs) w =
    fast_run env root evs (w\<lparr>fw_open := False, fw_buffer := [], fw_deadline := Some (fst c + 60),
      fw_written := fw_written w @ [r]\<rparr>)"
proof -
  have "fe_read env (fw_parser w) buf bytes = (False, fw_parser w, buf)" for buf bytes
    using assms(1,3) by (simp add: documented_read_def)
  with assms(2,4) show ?thesis
    by (cases c, cases w)
      (simp add: connection_events_def on_accepted_def read_request_def on_request_def Let_def write_response_def
        on_written_def fast_accept_def)
qed

text \<open>
  C34: once a request was read, every later connection is answered with the response to that
  request, whatever it sends: the parser is never made anew.
\<close>

theorem first_request_for_ever:
  assumes "documented_read env" and "fw_phase w = F_Accepting" and "fe_done env (fw_parser w)"
    and "process_request env root (fe_get env (fw_parser w)) = Inr r"
  shows "\<exists>w'. fast_run env root (concat (map connection_events cs)) w = Inr w' \<and>
    fw_written w' = fw_written w @ replicate (length cs) r \<and> fw_phase w' = F_Accepting"
  using assms(2-4)
proof (induction cs arbitrary: w)
  case (Cons c cs)
  let ?w = "w\<lparr>fw_open := False, fw_buffer := [], fw_deadline := Some (fst c + 60), fw_written := fw_written w @ [r]\<rparr>"
  from Cons.IH [of ?w] Cons.prems show ?case
    by (simp add: done_parser_connection [OF assms(1)])
qed simp

definition tiny_env :: "fast_request option fast_env" where
  "tiny_env = \<lparr>fe_open = (\<lambda>name. if name = ''/srv/a.txt'' then Some ''hello'' else None),
     fe_read = (\<lambda>p buf bytes.
        if p \<noteq> None then (False, p, buf)
        else if bytes = [] then (True, None, [])
        else (False, Some \<lparr>bq_method = Get, bq_target = bytes, bq_version = 11, bq_keep_alive = False, bq_body = [],
                bq_method_string = ''GET''\<rparr>, [])),
     fe_done = (\<lambda>p. p \<noteq> None), fe_get = the\<rparr>"

definition tiny_worker :: "fast_request option fast_worker" where
  "tiny_worker = \<lparr>fw_phase = F_Accepting, fw_open = False, fw_buffer = [],
     fw_parser = Some \<lparr>bq_method = Get, bq_target = ''/a.txt'', bq_version = 11, bq_keep_alive = False, bq_body = [],
       bq_method_string = ''GET''\<rparr>, fw_deadline = None, fw_waits = 1, fw_written = []\<rparr>"

lemma tiny_documented: "documented_read tiny_env"
  by (auto simp: documented_read_def tiny_env_def split: if_splits)

lemma tiny_request:
  "fw_phase tiny_worker = F_Accepting" "fe_done tiny_env (fw_parser tiny_worker)" "fw_written tiny_worker = []"
  "process_request tiny_env ''/srv'' (fe_get tiny_env (fw_parser tiny_worker)) =
     Inr (fast_send_file tiny_env ''/srv'' ''/a.txt'')"
  by (simp_all add: tiny_env_def tiny_worker_def process_request_def)

theorem first_request_for_ever_witness:
  "\<exists>w'. fast_run tiny_env ''/srv'' (concat (map connection_events [(5, ''/b.txt''), (9, [])])) tiny_worker = Inr w' \<and>
     fw_written w' = replicate 2 (fast_send_file tiny_env ''/srv'' ''/a.txt'') \<and> fw_phase w' = F_Accepting"
  using first_request_for_ever [OF tiny_documented tiny_request(1,2,4), of "[(5, ''/b.txt''), (9, [])]"]
  by (simp only: tiny_request(3) append_Nil list.size One_nat_def add_Suc_right add_0_right numeral_2_eq_2)

text \<open>Every completion leaves one wait on the deadline.\<close>

lemma one_wait:
  assumes "fw_waits w = 1" and "fast_step env root now ev w = Inr w'" shows "fw_waits w' = 1"
  using assms
  by (cases ev)
    (auto simp: on_accepted_def read_request_def fast_accept_def on_request_def Let_def write_response_def
      on_written_def check_deadline_def split: if_splits prod.splits sum.splits option.splits)

text \<open>A request that takes 60 seconds loses its connection.\<close>

lemma deadline_closes:
  "fw_deadline w = Some t \<Longrightarrow> t \<le> now \<Longrightarrow> 0 < fw_waits w \<Longrightarrow>
     \<exists>w'. fast_step env root now Wait_Done w = Inr w' \<and> \<not> fw_open w' \<and> fw_deadline w' = None"
  by (simp add: check_deadline_def Let_def)

lemma fast_post_undefined:
  "bq_method req = Post \<Longrightarrow> NUL \<notin> set (bq_target req) \<Longrightarrow>
     process_request env root req = Inl (Undefined Out_Of_Range)"
  by (simp add: process_request_def fast_send_post_def view_c_str_def)

end
