(* ===== verification/Http_Listener.thy ===== *)
theory Http_Listener
  imports Http_Beast
begin

section \<open>The listener of the second HTTP server\<close>

text \<open>
  \<open>http_server/listener.cpp\<close>: the set-up of the acceptor, the accepts and the sessions they start.
  Which steps of the set-up succeed, and how an accept ends, is what Asio gives.
\<close>

record listener =
  li_error :: "cstring option"
  li_accepting :: bool
  li_sessions :: "session list"
  li_failed :: "cstring list"

definition setup_steps :: "cstring list" where
  "setup_steps = [''open'', ''set_option'', ''bind'', ''listen'']"

text \<open>The constructor ends at the first step that fails, having reported it.\<close>

definition new_listener :: "(cstring \<Rightarrow> bool) \<Rightarrow> listener" where
  "new_listener ok =
     (let bad = find (\<lambda>s. \<not> ok s) setup_steps
      in \<lparr>li_error = bad, li_accepting = False, li_sessions = [],
          li_failed = (case bad of None \<Rightarrow> [] | Some s \<Rightarrow> [s])\<rparr>)"

definition listener_do_accept :: "listener \<Rightarrow> listener" where
  "listener_do_accept l = l\<lparr>li_accepting := True\<rparr>"

definition listener_run :: "listener \<Rightarrow> listener" where
  "listener_run l = listener_do_accept l"

definition listener_on_accept :: "bool \<Rightarrow> listener \<Rightarrow> listener" where
  "listener_on_accept ec l =
     listener_do_accept
       (let l1 = l\<lparr>li_accepting := False\<rparr>
        in if ec then l1\<lparr>li_failed := li_failed l1 @ [''accept'']\<rparr>
           else l1\<lparr>li_sessions := li_sessions l1 @ [session_run new_session]\<rparr>)"

definition start_listener :: "(cstring \<Rightarrow> bool) \<Rightarrow> listener" where
  "start_listener ok = listener_run (new_listener ok)"

lemma start_listener_accepts: "li_accepting (start_listener ok)"
  by (simp add: start_listener_def listener_run_def listener_do_accept_def)

text \<open>
  \<open>http_server_async.cpp\<close> calls \<open>run\<close> whether the constructor succeeded or not, and a failed accept
  is followed by the next: on an acceptor that is not open, where every accept fails at once, the
  server goes round for ever.
\<close>

lemma listener_goes_on:
  assumes "li_accepting l"
  shows "li_accepting (fold listener_on_accept ecs l) \<and>
    length (li_sessions (fold listener_on_accept ecs l)) =
      length (li_sessions l) + length (filter Not ecs) \<and>
    li_failed (fold listener_on_accept ecs l) = li_failed l @ replicate (length (filter id ecs)) ''accept''"
  using assms
proof (induction ecs arbitrary: l)
  case (Cons ec ecs)
  have "li_accepting (listener_on_accept ec l)"
    by (simp add: listener_on_accept_def listener_do_accept_def)
  from Cons.IH [OF this] show ?case
    by (simp add: listener_on_accept_def listener_do_accept_def Let_def)
qed simp

end
