(* ===== verification/Template_Lexer.thy ===== *)
theory Template_Lexer
  imports Agent_Effects
begin

section \<open>Templates: tokens\<close>

text \<open>
  The tokenizer of \<open>template/NLTemplate.h\<close> and \<open>template/NLTemplate.cpp\<close>: tags are found at
  every position of the text, what lies between two tags is one text token, and the tag that
  ends a text is kept for the next call.
\<close>

datatype token =
    Tok_End | Tok_Text cstring | Tok_Block cstring | Tok_Endblock | Tok_Include cstring
  | Tok_Var cstring

definition alphanum :: "char \<Rightarrow> bool" where
  "alphanum c \<longleftrightarrow>
     (let n = (of_char c :: nat)
      in 97 \<le> n \<and> n \<le> 122 \<or> 65 \<le> n \<and> n \<le> 90 \<or> 48 \<le> n \<and> n \<le> 57 \<or>
         c = CHR ''_'' \<or> c = CHR ''/'' \<or> c = CHR ''.'')"

text \<open>
  The loop both matchers end with: a name up to the closing characters.  A zero ends the loop in
  the code; it is no name character either.
\<close>

fun scan_name :: "cstring \<Rightarrow> cstring \<Rightarrow> cstring \<Rightarrow> cstring option" where
  "scan_name close acc [] = None"
| "scan_name close acc (c # cs) =
     (if prefix close (c # cs) then Some acc
      else if \<not> alphanum c then None
      else scan_name close (acc @ [c]) cs)"

definition match_var :: "cstring \<Rightarrow> (cstring \<times> nat) option" where
  "match_var s =
     (if \<not> prefix ''{{ '' s then None
      else case scan_name '' }}'' [] (drop 3 s) of
             None \<Rightarrow> None
           | Some name \<Rightarrow> Some (name, 3 + length name + 3))"

definition match_tag_with_param :: "cstring \<Rightarrow> cstring \<Rightarrow> (cstring \<times> nat) option" where
  "match_tag_with_param tag s =
     (if \<not> prefix ''{% '' s then None
      else if \<not> prefix tag (drop 3 s) then None
      else if \<not> prefix '' '' (drop (3 + length tag) s) then None
      else case scan_name '' %}'' [] (drop (3 + length tag + 1) s) of
             None \<Rightarrow> None
           | Some name \<Rightarrow> Some (name, 3 + length tag + 1 + length name + 3))"

definition s_endblock :: cstring where "s_endblock = ''{% endblock %}''"
definition s_block :: cstring where "s_block = ''block''"
definition s_include :: cstring where "s_include = ''include''"

text \<open>The tag a text begins with, and its length.\<close>

definition tag_at :: "cstring \<Rightarrow> (token \<times> nat) option" where
  "tag_at s =
     (case match_tag_with_param s_block s of
        Some (name, m) \<Rightarrow> Some (Tok_Block name, m)
      | None \<Rightarrow>
          if prefix s_endblock s then Some (Tok_Endblock, length s_endblock)
          else (case match_tag_with_param s_include s of
                  Some (name, m) \<Rightarrow> Some (Tok_Include name, m)
                | None \<Rightarrow>
                    (case match_var s of
                       Some (name, m) \<Rightarrow> Some (Tok_Var name, m)
                     | None \<Rightarrow> None)))"

text \<open>The loop \<open>goto a\<close>: the characters before the next tag, the tag and its length.\<close>

fun scan :: "nat \<Rightarrow> cstring \<Rightarrow> nat \<times> token \<times> nat" where
  "scan textlen [] = (textlen, Tok_End, 0)"
| "scan textlen (c # cs) =
     (case tag_at (c # cs) of
        Some (t, m) \<Rightarrow> (textlen, t, m)
      | None \<Rightarrow> scan (Suc textlen) cs)"

record tokenizer =
  tk_text :: cstring
  tk_pos :: nat
  tk_peek :: token
  tk_peeking :: bool

definition new_tokenizer :: "cstring \<Rightarrow> tokenizer" where
  "new_tokenizer s = \<lparr>tk_text = s, tk_pos = 0, tk_peek = Tok_End, tk_peeking = False\<rparr>"

definition next_token :: "tokenizer \<Rightarrow> token \<times> tokenizer" where
  "next_token tk =
     (if tk_peeking tk then (tk_peek tk, tk\<lparr>tk_peeking := False\<rparr>)
      else let s = drop (tk_pos tk) (tk_text tk); (n, t, m) = scan 0 s;
               tk' = tk\<lparr>tk_pos := tk_pos tk + n + m, tk_peek := t\<rparr>
           in if n > 0 then (Tok_Text (take n s), tk'\<lparr>tk_peeking := True\<rparr>) else (t, tk'))"

subsection \<open>Tags are what they say\<close>

fun token_source :: "token \<Rightarrow> cstring" where
  "token_source Tok_End = []"
| "token_source (Tok_Text s) = s"
| "token_source (Tok_Block name) = ''{% block '' @ name @ '' %}''"
| "token_source Tok_Endblock = ''{% endblock %}''"
| "token_source (Tok_Include name) = ''{% include '' @ name @ '' %}''"
| "token_source (Tok_Var name) = ''{{ '' @ name @ '' }}''"

lemma scan_name_sound:
  "scan_name close acc s = Some name \<Longrightarrow>
     \<exists>n. name = acc @ n \<and> prefix (n @ close) s \<and> list_all alphanum n"
proof (induction close acc s rule: scan_name.induct)
  case (2 close acc c cs)
  show ?case
  proof (cases "prefix close (c # cs)")
    case True
    then show ?thesis using "2.prems" by (intro exI [of _ "[]"]) simp
  next
    case False
    with "2.prems" have "alphanum c" "scan_name close (acc @ [c]) cs = Some name"
      by (auto split: if_splits)
    with "2.IH" False obtain n where "name = (acc @ [c]) @ n" "prefix (n @ close) cs" "list_all alphanum n"
      by blast
    then show ?thesis using \<open>alphanum c\<close> by (intro exI [of _ "c # n"]) simp
  qed
qed simp

lemma prefix_dropE: "prefix p s \<Longrightarrow> prefix q (drop (length p) s) \<Longrightarrow> prefix (p @ q) s"
  by (auto simp: prefix_def)

lemma match_tag_sound:
  assumes "match_tag_with_param tag s = Some (name, m)"
  shows "prefix (''{% '' @ tag @ '' '' @ name @ '' %}'') s \<and>
    m = length (''{% '' @ tag @ '' '' @ name @ '' %}'') \<and> list_all alphanum name"
proof -
  define lead where "lead = ''{% ''"
  have len: "length lead = 3" by (simp add: lead_def)
  from assms have 1: "prefix lead s" and 2: "prefix tag (drop (length lead) s)"
    and 3: "prefix '' '' (drop (length (lead @ tag)) s)"
    and 4: "scan_name '' %}'' [] (drop (length ((lead @ tag) @ '' '')) s) = Some name"
    and m: "m = 3 + length tag + 1 + length name + 3"
    by (auto simp: match_tag_with_param_def len simp flip: lead_def split: if_splits option.splits)
  from scan_name_sound [OF 4] have 5: "prefix (name @ '' %}'') (drop (length ((lead @ tag) @ '' '')) s)"
    and "list_all alphanum name" by auto
  moreover have "prefix (((lead @ tag) @ '' '') @ name @ '' %}'') s"
    using prefix_dropE [OF prefix_dropE [OF prefix_dropE [OF 1 2] 3] 5] by simp
  ultimately show ?thesis using m by (simp add: lead_def)
qed

lemma match_var_sound:
  assumes "match_var s = Some (name, m)"
  shows "prefix (''{{ '' @ name @ '' }}'') s \<and> m = length (''{{ '' @ name @ '' }}'') \<and>
    list_all alphanum name"
proof -
  define lead where "lead = ''{{ ''"
  have len: "length lead = 3" by (simp add: lead_def)
  from assms have 1: "prefix lead s" and 2: "scan_name '' }}'' [] (drop (length lead) s) = Some name"
    and m: "m = 3 + length name + 3"
    by (auto simp: match_var_def len simp flip: lead_def split: if_splits option.splits)
  from scan_name_sound [OF 2] have 3: "prefix (name @ '' }}'') (drop (length lead) s)"
    and "list_all alphanum name" by auto
  then show ?thesis using prefix_dropE [OF 1 3] m by (simp add: lead_def)
qed

text \<open>A tag: its text is what it was read from, and it is neither the end nor a text.\<close>

fun is_tag :: "token \<Rightarrow> bool" where
  "is_tag Tok_End = False"
| "is_tag (Tok_Text s) = False"
| "is_tag Tok_Endblock = True"
| "is_tag (Tok_Block name) = list_all alphanum name"
| "is_tag (Tok_Include name) = list_all alphanum name"
| "is_tag (Tok_Var name) = list_all alphanum name"

lemma tag_at_sound:
  assumes "tag_at s = Some (t, m)"
  shows "prefix (token_source t) s \<and> m = length (token_source t) \<and> is_tag t"
proof -
  consider (block) name where "match_tag_with_param s_block s = Some (name, m)" "t = Tok_Block name"
    | (endblock) "prefix s_endblock s" "t = Tok_Endblock" "m = length s_endblock"
    | (incl) name where "match_tag_with_param s_include s = Some (name, m)" "t = Tok_Include name"
    | (var) name where "match_var s = Some (name, m)" "t = Tok_Var name"
    using assms by (auto simp: tag_at_def split: option.splits if_splits)
  then show ?thesis
  proof cases
    case block
    then show ?thesis using match_tag_sound [OF block(1)] by (simp add: s_block_def)
  next
    case endblock
    then show ?thesis by (simp add: s_endblock_def)
  next
    case incl
    then show ?thesis using match_tag_sound [OF incl(1)] by (simp add: s_include_def)
  next
    case var
    then show ?thesis using match_var_sound [OF var(1)] by simp
  qed
qed

subsection \<open>The tokens of a text\<close>

lemma scan_sound:
  "scan k s = (n, t, m) \<Longrightarrow>
     k \<le> n \<and> n - k + m \<le> length s \<and>
     (if t = Tok_End then n - k = length s \<and> m = 0
      else is_tag t \<and> m = length (token_source t) \<and> prefix (token_source t) (drop (n - k) s))"
proof (induction k s rule: scan.induct)
  case (2 k c cs)
  show ?case
  proof (cases "tag_at (c # cs)")
    case None
    with 2 have "scan (Suc k) cs = (n, t, m)" by simp
    note ih = "2.IH" [OF None this]
    then have "n - k = Suc (n - Suc k)" by arith
    then show ?thesis using ih by auto
  next
    case (Some tm)
    with "2.prems" have eq: "tag_at (c # cs) = Some (t, m)" "n = k" by (cases tm; simp)+
    from tag_at_sound [OF eq(1)] show ?thesis
      using eq(2) prefix_length_le by (cases t) fastforce+
  qed
qed simp

definition rest_of :: "tokenizer \<Rightarrow> cstring" where
  "rest_of tk = drop (tk_pos tk) (tk_text tk)"

definition tk_ok :: "tokenizer \<Rightarrow> bool" where
  "tk_ok tk \<longleftrightarrow> (\<not> tk_peeking tk \<or> is_tag (tk_peek tk) \<or> tk_peek tk = Tok_End \<and> rest_of tk = [])"

text \<open>What is still to be read: the tag kept, and the text after it.\<close>

definition pending_text :: "tokenizer \<Rightarrow> cstring" where
  "pending_text tk = (if tk_peeking tk then token_source (tk_peek tk) else []) @ rest_of tk"

lemma tag_source_nonempty [simp]: "is_tag t \<Longrightarrow> token_source t \<noteq> []"
  by (cases t) auto

lemma new_tokenizer_ok [simp]:
  "tk_ok (new_tokenizer s)" "pending_text (new_tokenizer s) = s" "\<not> tk_peeking (new_tokenizer s)"
  by (simp_all add: tk_ok_def pending_text_def new_tokenizer_def rest_of_def)

text \<open>
  One call: the token and the pending text after it make up the pending text before; the end is
  returned with nothing left only; a text is not empty and a tag, or the end, follows it.
\<close>

lemma next_token_sound:
  assumes "next_token tk = (t, tk')" "tk_ok tk"
  shows "pending_text tk = token_source t @ pending_text tk' \<and> tk_ok tk' \<and>
    (case t of
       Tok_End \<Rightarrow> pending_text tk' = [] \<and> \<not> tk_peeking tk'
     | Tok_Text s \<Rightarrow> s \<noteq> [] \<and> tk_peeking tk' \<and> \<not> tk_peeking tk
     | _ \<Rightarrow> is_tag t \<and> \<not> tk_peeking tk')"
proof (cases "tk_peeking tk")
  case True
  then have tk: "tk' = tk\<lparr>tk_peeking := False\<rparr>" "tk_peek tk = t"
    and "is_tag t \<or> t = Tok_End \<and> rest_of tk = []"
    using assms by (auto simp: next_token_def tk_ok_def)
  then show ?thesis
    unfolding tk_ok_def pending_text_def tk(1) using True tk(2) by (cases t) (auto simp: rest_of_def)
next
  case False
  obtain n t' m where sc: "scan 0 (rest_of tk) = (n, t', m)" by (cases "scan 0 (rest_of tk)")
  note s = scan_sound [OF sc]
  define tk1 where "tk1 = tk\<lparr>tk_pos := tk_pos tk + n + m, tk_peek := t'\<rparr>"
  have rest: "rest_of tk1 = drop m (drop n (rest_of tk))"
    by (simp add: rest_of_def tk1_def add.commute add.left_commute)
  have "token_source t' = take m (drop n (rest_of tk))"
    using s by (cases "t' = Tok_End") (auto simp: prefix_def)
  then have split: "drop n (rest_of tk) = token_source t' @ rest_of tk1"
    by (simp only: rest append_take_drop_id)
  have tag: "t' = Tok_End \<and> rest_of tk1 = [] \<or> is_tag t'" using s split by (auto simp: rest split: if_splits)
  show ?thesis
  proof (cases "n = 0")
    case True
    then have "t = t'" "tk' = tk1"
      using assms(1) False sc by (auto simp: next_token_def rest_of_def Let_def tk1_def)
    then show ?thesis
      using False True split tag
      by (cases t') (auto simp: pending_text_def tk_ok_def tk1_def rest_of_def)
  next
    case nz: False
    then have "t = Tok_Text (take n (rest_of tk))" "tk' = tk1\<lparr>tk_peeking := True\<rparr>"
      using assms(1) False sc by (auto simp: next_token_def rest_of_def Let_def tk1_def)
    moreover have "rest_of tk = take n (rest_of tk) @ token_source t' @ rest_of tk1"
      using split by (metis append_take_drop_id)
    moreover have "rest_of tk \<noteq> []" using s nz by auto
    ultimately show ?thesis
      using False nz tag
      by (auto simp: pending_text_def tk_ok_def tk1_def rest_of_def)
  qed
qed

text \<open>Repeated calls up to the end.\<close>

definition tk_size :: "tokenizer \<Rightarrow> nat" where
  "tk_size tk = 2 * (length (tk_text tk) - tk_pos tk) + (if tk_peeking tk then 1 else 0)"

lemma next_token_size:
  assumes "next_token tk = (t, tk')" "t \<noteq> Tok_End"
  shows "tk_size tk' < tk_size tk"
proof (cases "tk_peeking tk")
  case True
  then show ?thesis using assms by (auto simp: next_token_def tk_size_def)
next
  case False
  obtain n t' m where sc: "scan 0 (rest_of tk) = (n, t', m)" by (cases "scan 0 (rest_of tk)")
  note s = scan_sound [OF sc]
  have len: "length (rest_of tk) = length (tk_text tk) - tk_pos tk" by (simp add: rest_of_def)
  have tk': "tk_pos tk' = tk_pos tk + n + m" "tk_text tk' = tk_text tk" "n = 0 \<Longrightarrow> t' = t"
    using assms(1) False sc by (auto simp: next_token_def rest_of_def Let_def split: if_splits)
  have "0 < n + m"
    using s tk'(3) assms(2) tag_source_nonempty [of t] by (cases "n = 0") (auto split: if_splits)
  moreover have "n + m \<le> length (tk_text tk) - tk_pos tk" using s len by simp
  ultimately have "Suc (2 * (length (tk_text tk) - (tk_pos tk + n + m))) < 2 * (length (tk_text tk) - tk_pos tk)"
    by arith
  then show ?thesis using False by (simp add: tk_size_def tk')
qed

function drain :: "tokenizer \<Rightarrow> token list" where
  "drain tk = (case next_token tk of (t, tk') \<Rightarrow> if t = Tok_End then [] else t # drain tk')"
  by auto
termination
proof (relation "measure tk_size")
  fix tk x y
  assume "(x, y) = next_token tk" "x \<noteq> Tok_End"
  then show "(y, tk) \<in> measure tk_size" using next_token_size [of tk x y] by simp
qed simp

declare drain.simps [simp del]

definition token_list :: "cstring \<Rightarrow> token list" where
  "token_list s = drain (new_tokenizer s)"

fun is_text :: "token \<Rightarrow> bool" where
  "is_text (Tok_Text s) = True"
| "is_text _ = False"

definition separated :: "token list \<Rightarrow> bool" where
  "separated ts \<longleftrightarrow> successively (\<lambda>t u. \<not> (is_text t \<and> is_text u)) ts"

lemma separated_simps [simp]:
  "separated []" "separated (t # ts) \<longleftrightarrow> separated ts \<and> (ts = [] \<or> \<not> is_text t \<or> \<not> is_text (hd ts))"
  "separated (xs @ ys) \<longleftrightarrow> separated xs \<and> separated ys \<and>
     (xs = [] \<or> ys = [] \<or> \<not> is_text (last xs) \<or> \<not> is_text (hd ys))"
  by (auto simp: separated_def successively_Cons successively_append_iff)

definition token_ok :: "token \<Rightarrow> bool" where
  "token_ok t \<longleftrightarrow> is_tag t \<or> (\<exists>s. t = Tok_Text s \<and> s \<noteq> [])"

lemma drain_sound:
  "tk_ok tk \<Longrightarrow>
     concat (map token_source (drain tk)) = pending_text tk \<and> list_all token_ok (drain tk) \<and>
     separated (drain tk) \<and> (tk_peeking tk \<longrightarrow> drain tk = [] \<or> \<not> is_text (hd (drain tk)))"
proof (induction tk rule: drain.induct)
  case (1 tk)
  obtain t tk' where nt: "next_token tk = (t, tk')" by (cases "next_token tk")
  note s = next_token_sound [OF nt "1.prems"]
  show ?case
  proof (cases "t = Tok_End")
    case True
    then show ?thesis using nt s by (simp add: drain.simps [of tk])
  next
    case False
    then have dr: "drain tk = t # drain tk'" using nt by (simp add: drain.simps [of tk])
    note ih = "1.IH" [OF nt [symmetric] False]
    show ?thesis
      unfolding dr using ih s False
      by (cases t) (auto simp: token_ok_def)
  qed
qed

text \<open>
  C21: the tokens of a text are the text cut into pieces: put back together they give the text,
  whatever it is; tags have proper names, text tokens are not empty and never two in a row, so
  the cut is the coarsest one.
\<close>

theorem token_list_cuts:
  "concat (map token_source (token_list s)) = s \<and> list_all token_ok (token_list s) \<and>
   separated (token_list s)"
  using drain_sound [of "new_tokenizer s"] by (simp add: token_list_def)

subsection \<open>Reading printed tags\<close>

lemma scan_name_complete:
  assumes "list_all alphanum name" "close \<noteq> []" "\<not> alphanum (hd close)"
  shows "scan_name close acc (name @ close @ r) = Some (acc @ name)"
  using assms(1)
proof (induction name arbitrary: acc)
  case Nil
  then show ?case using assms(2) by (cases close) auto
next
  case (Cons c cs)
  then have "\<not> prefix close (c # cs @ close @ r)"
    using assms(2,3) by (cases close) auto
  then show ?case using Cons by simp
qed

lemma match_tag_complete:
  assumes "list_all alphanum name"
  shows "match_tag_with_param tag (''{% '' @ tag @ '' '' @ name @ '' %}'' @ r) =
    Some (name, length (''{% '' @ tag @ '' '' @ name @ '' %}''))"
proof -
  have "scan_name '' %}'' [] (name @ '' %}'' @ r) = Some ([] @ name)"
    by (rule scan_name_complete [OF assms]) (simp_all add: alphanum_def)
  moreover have "drop (3 + length tag) (''{% '' @ tag @ x) = x" for x
    by (simp add: numeral_3_eq_3)
  moreover from this have "drop (3 + length tag + 1) (''{% '' @ tag @ '' '' @ x) = x" for x
    by (metis drop_drop add.commute append.simps(1) append_Cons drop0 drop_Suc_Cons One_nat_def)
  moreover have "drop 3 (''{% '' @ x) = x" "prefix ''{% '' (''{% '' @ x)" for x by simp_all
  ultimately show ?thesis
    unfolding match_tag_with_param_def by (simp del: append_Cons)
qed

lemma match_var_complete:
  assumes "list_all alphanum name"
  shows "match_var (''{{ '' @ name @ '' }}'' @ r) = Some (name, length (''{{ '' @ name @ '' }}''))"
proof -
  have "scan_name '' }}'' [] (name @ '' }}'' @ r) = Some ([] @ name)"
    by (rule scan_name_complete [OF assms]) (simp_all add: alphanum_def)
  then show ?thesis by (simp add: match_var_def)
qed

lemma tag_at_complete:
  assumes "is_tag t"
  shows "tag_at (token_source t @ r) = Some (t, length (token_source t))"
proof (cases t)
  case (Tok_Block name)
  then show ?thesis using assms match_tag_complete [of name s_block r] by (simp add: tag_at_def s_block_def)
next
  case Tok_Endblock
  then show ?thesis by (simp add: tag_at_def match_tag_with_param_def s_block_def s_endblock_def)
next
  case (Tok_Include name)
  have "match_tag_with_param s_block (token_source t @ r) = None" "\<not> prefix s_endblock (token_source t @ r)"
    unfolding Tok_Include by (simp_all add: match_tag_with_param_def s_block_def s_endblock_def)
  then show ?thesis
    using assms Tok_Include match_tag_complete [of name s_include r] by (simp add: tag_at_def s_include_def)
next
  case (Tok_Var name)
  have "match_tag_with_param tag (token_source t @ r) = None" "\<not> prefix s_endblock (token_source t @ r)" for tag
    unfolding Tok_Var by (simp_all add: match_tag_with_param_def s_endblock_def)
  then show ?thesis using assms Tok_Var match_var_complete [of name r] by (simp add: tag_at_def)
qed (use assms in simp_all)

lemma no_tag: "c \<noteq> CHR ''{'' \<Longrightarrow> tag_at (c # cs) = None"
  by (simp add: tag_at_def match_tag_with_param_def match_var_def s_endblock_def)

lemma scan_plain: "CHR ''{'' \<notin> set s \<Longrightarrow> scan k (s @ r) = scan (k + length s) r"
  by (induction s arbitrary: k) (auto simp: no_tag)

lemma scan_tag:
  assumes "is_tag t"
  shows "scan k (token_source t @ r) = (k, t, length (token_source t))"
proof -
  obtain c cs where e: "token_source t @ r = c # cs"
    using tag_source_nonempty [OF assms] by (cases "token_source t") auto
  have "tag_at (c # cs) = Some (t, length (token_source t))"
    using tag_at_complete [OF assms, of r] unfolding e .
  then show ?thesis unfolding e by simp
qed

text \<open>Tokens that print to a text which reads back as these tokens.\<close>

definition printable :: "token list \<Rightarrow> bool" where
  "printable ts \<longleftrightarrow> separated ts \<and>
     list_all (\<lambda>t. is_tag t \<or> (\<exists>s. t = Tok_Text s \<and> s \<noteq> [] \<and> CHR ''{'' \<notin> set s)) ts"

lemma drain_printed:
  "printable ts \<Longrightarrow> \<not> tk_peeking tk \<Longrightarrow> rest_of tk = concat (map token_source ts) \<Longrightarrow> drain tk = ts"
proof (induction ts arbitrary: tk)
  case Nil
  then show ?case by (simp add: drain.simps [of tk] next_token_def rest_of_def Let_def)
next
  case (Cons t ts)
  define r where "r = concat (map token_source ts)"
  have ts: "printable ts" and rest: "rest_of tk = token_source t @ r"
    using Cons.prems by (simp_all add: printable_def r_def)
  define tk2 where "tk2 = tk\<lparr>tk_pos := tk_pos tk + length (token_source t)\<rparr>"
  have rest2: "rest_of tk2 = r" and np: "\<not> tk_peeking tk2"
    using rest Cons.prems(2) by (simp_all add: tk2_def rest_of_def flip: drop_drop)
       (metis add.commute append_eq_conv_conj drop_drop)
  have ih: "drain tk2 = ts" by (rule Cons.IH [OF ts np]) (simp add: rest2 r_def)
  show ?case
  proof (cases "is_tag t")
    case True
    then have "scan 0 (rest_of tk) = (0, t, length (token_source t))"
      using scan_tag rest by simp
    then have nt: "next_token tk = (t, tk2\<lparr>tk_peek := t\<rparr>)"
      using Cons.prems(2) by (simp add: next_token_def rest_of_def tk2_def)
    have "drain (tk2\<lparr>tk_peek := t\<rparr>) = drain tk2"
      using np by (simp add: drain.simps [of "tk2\<lparr>tk_peek := t\<rparr>"] drain.simps [of tk2] next_token_def Let_def split: prod.split)
    then show ?thesis using nt True ih by (auto simp: drain.simps [of tk])
  next
    case False
    then obtain s where t: "t = Tok_Text s" "s \<noteq> []" "CHR ''{'' \<notin> set s"
      using Cons.prems(1) by (auto simp: printable_def)
    have "\<exists>t' m. \<forall>k. scan k r = (k, t', m)"
    proof (cases ts)
      case Nil
      then show ?thesis by (simp add: r_def)
    next
      case (Cons u us)
      then have "is_tag u" using Cons.prems(1) t by (cases u) (auto simp: printable_def)
      then show ?thesis using scan_tag Cons by (auto simp: r_def)
    qed
    then obtain t' m where sc: "\<And>k. scan k r = (k, t', m)" by blast
    define tk3 where "tk3 = tk2\<lparr>tk_pos := tk_pos tk2 + m, tk_peek := t'\<rparr>"
    have nt: "next_token tk = (Tok_Text s, tk3\<lparr>tk_peeking := True\<rparr>)"
      using Cons.prems(2) rest t sc [of "length s"]
      by (simp add: next_token_def tk3_def tk2_def scan_plain flip: rest_of_def)
    have nt2: "next_token tk2 = (t', tk3)"
      using np rest2 sc [of 0] by (simp add: next_token_def tk3_def flip: rest_of_def)
    have nt3: "next_token (tk3\<lparr>tk_peeking := True\<rparr>) = (t', tk3)"
      using np by (simp add: next_token_def tk3_def)
    have "drain (tk3\<lparr>tk_peeking := True\<rparr>) = drain tk2"
      using nt2 nt3 by (simp add: drain.simps [of tk2] drain.simps [of "tk3\<lparr>tk_peeking := True\<rparr>"])
    then show ?thesis using nt ih t(1) by (simp add: drain.simps [of tk])
  qed
qed

lemma token_list_printed: "printable ts \<Longrightarrow> token_list (concat (map token_source ts)) = ts"
  unfolding token_list_def by (rule drain_printed) (simp_all add: new_tokenizer_def rest_of_def)

end
