(* ===== verification/Template_Tree.thy ===== *)
theory Template_Tree
  imports Template_Lexer
begin

section \<open>Templates: dictionaries and fragments\<close>

text \<open>
  \<open>Dictionary\<close>, \<open>Fragment\<close>, \<open>Text\<close>, \<open>Property\<close>, \<open>Node\<close> and \<open>Block\<close> of
  \<open>template/NLTemplate.h\<close> and \<open>template/NLTemplate.cpp\<close>.  Every fragment is owned by one node,
  so a tree is a value; an operation on the reference that \<open>block\<close> or \<open>operator[]\<close> returns is an
  update at that place of the tree.
\<close>

subsection \<open>Dictionary\<close>

type_synonym dictionary = "(cstring \<times> cstring) list"

fun dict_find :: "dictionary \<Rightarrow> cstring \<Rightarrow> cstring" where
  "dict_find [] name = []"
| "dict_find ((k, v) # ps) name = (if k = name then v else dict_find ps name)"

fun dict_set :: "cstring \<Rightarrow> cstring \<Rightarrow> dictionary \<Rightarrow> dictionary" where
  "dict_set name value [] = [(name, value)]"
| "dict_set name value ((k, v) # ps) =
     (if k = name then (k, value) # ps else (k, v) # dict_set name value ps)"

text \<open>The interface of a dictionary: what is found after it has been written to.\<close>

locale dictionary_laws =
  fixes find :: "'d \<Rightarrow> 'k \<Rightarrow> 'v" and set :: "'k \<Rightarrow> 'v \<Rightarrow> 'd \<Rightarrow> 'd"
  assumes find_set: "find (set k v d) k' = (if k' = k then v else find d k')"
begin

text \<open>Any number of writes: the last one of a key counts.\<close>

definition write_all :: "('k \<times> 'v) list \<Rightarrow> 'd \<Rightarrow> 'd" where
  "write_all kvs d = fold (\<lambda>(k, v). set k v) kvs d"

lemma find_write_all:
  "find (write_all kvs d) k = (case map_of (rev kvs) k of None \<Rightarrow> find d k | Some v \<Rightarrow> v)"
  by (induction kvs arbitrary: d)
    (auto simp: write_all_def find_set map_add_def split: option.split)

end

interpretation dict: dictionary_laws dict_find dict_set
proof
  fix k v d k'
  show "dict_find (dict_set k v d) k' = (if k' = k then v else dict_find d k')"
    by (induction k v d rule: dict_set.induct) auto
qed

lemma dict_set_keys: "fst ` set (dict_set k v d) = insert k (fst ` set d)"
  by (induction k v d rule: dict_set.induct) auto

lemma dict_set_distinct: "distinct (map fst d) \<Longrightarrow> distinct (map fst (dict_set k v d))"
proof (induction k v d rule: dict_set.induct)
  case (2 k v k' v' ps)
  then show ?case using dict_set_keys [of k v ps] by auto
qed simp

lemma dict_set_map_of: "map_of (dict_set k v d) = (map_of d)(k \<mapsto> v)"
  by (induction k v d rule: dict_set.induct) auto

lemma dict_find_map_of: "dict_find d k = (case map_of d k of None \<Rightarrow> [] | Some v \<Rightarrow> v)"
  by (induction d k rule: dict_find.induct) auto

lemma dict_set_order:
  "map fst (dict_set k v d) = (if k \<in> fst ` set d then map fst d else map fst d @ [k])"
  by (induction k v d rule: dict_set.induct) auto

lemma dict_writes_order:
  "map fst (fold (\<lambda>(k, v). dict_set k v) kvs []) = rev (remdups (rev (map fst kvs)))"
proof (induction kvs rule: rev_induct)
  case (snoc kv kvs)
  define d where "d = fold (\<lambda>(k, v). dict_set k v) kvs []"
  have "map fst d = rev (remdups (rev (map fst kvs)))" unfolding d_def by (rule snoc)
  moreover from this have "fst ` set d = fst ` set kvs"
    by (metis list.set_map set_remdups set_rev)
  ultimately show ?case by (cases kv) (simp add: dict_set_order flip: d_def)
qed simp

text \<open>
  C22: a dictionary refines a map whose missing keys are empty texts: after any writes into a new
  dictionary, what is found is the last value written, each key is kept once, in the order in
  which the keys were first written.
\<close>

theorem dictionary_refines_map:
  "let d = fold (\<lambda>(k, v). dict_set k v) kvs [] in
     dict_find d k = (case map_of (rev kvs) k of None \<Rightarrow> [] | Some v \<Rightarrow> v) \<and>
     map fst d = rev (remdups (rev (map fst kvs)))"
  using dict.find_write_all [of kvs "[]" k] dict_writes_order [of kvs]
  by (simp add: dict.write_all_def split: option.split)

subsection \<open>Fragments\<close>

text \<open>
  A block holds its dictionary, its fragments, and the nodes of its repetitions; these nodes are
  copies of the block and so blocks themselves.  A template is the block \<open>main\<close>.
\<close>

datatype fragment =
    Text cstring
  | Property cstring
  | Block (blk_name: cstring) (blk_enabled: bool) (blk_resized: bool) (blk_properties: dictionary)
      (blk_fragments: "fragment list") (blk_nodes: "fragment list")

definition new_block :: "cstring \<Rightarrow> fragment list \<Rightarrow> fragment" where
  "new_block name fs = Block name True False [] fs []"

fun is_block_named :: "cstring \<Rightarrow> fragment \<Rightarrow> bool" where
  "is_block_named name (Block n _ _ _ _ _) \<longleftrightarrow> n = name"
| "is_block_named name _ \<longleftrightarrow> False"

text \<open>\<open>copy\<close> of a block starts enabled and not repeated, whatever the block is.\<close>

fun copy_fragment :: "fragment \<Rightarrow> fragment" where
  "copy_fragment (Text s) = Text s"
| "copy_fragment (Property n) = Property n"
| "copy_fragment (Block n en rs ps fs ns) = Block n True False ps (map copy_fragment fs) []"

text \<open>\<open>render\<close> of the three kinds of fragment; a block ignores the dictionary it is given.\<close>

fun render :: "dictionary \<Rightarrow> fragment \<Rightarrow> cstring" where
  "render d (Text s) = s"
| "render d (Property n) = dict_find d n"
| "render d (Block n en rs ps fs ns) =
     (if en
      then if rs then concat (map (render []) ns) else concat (map (render ps) fs)
      else [])"

text \<open>\<open>Template::render\<close> calls \<open>Node::render\<close>: the flags and the repetitions of the template do not matter.\<close>

definition template_render :: "fragment \<Rightarrow> cstring" where
  "template_render t = concat (map (render (blk_properties t)) (blk_fragments t))"

definition block_enable :: "fragment \<Rightarrow> fragment" where
  "block_enable b = Block (blk_name b) True (blk_resized b) (blk_properties b) (blk_fragments b) (blk_nodes b)"

definition block_disable :: "fragment \<Rightarrow> fragment" where
  "block_disable b = Block (blk_name b) False (blk_resized b) (blk_properties b) (blk_fragments b) (blk_nodes b)"

definition block_repeat :: "nat \<Rightarrow> fragment \<Rightarrow> fragment" where
  "block_repeat n b = Block (blk_name b) (blk_enabled b) True (blk_properties b) (blk_fragments b)
     (replicate n (copy_fragment b))"

definition block_set :: "cstring \<Rightarrow> cstring \<Rightarrow> fragment \<Rightarrow> fragment" where
  "block_set name value b = Block (blk_name b) (blk_enabled b) (blk_resized b)
     (dict_set name value (blk_properties b)) (blk_fragments b) (blk_nodes b)"

text \<open>
  \<open>Node::block(name)\<close> and \<open>Block::operator[]\<close> with what is then done to the reference; both throw
  when there is no such place.
\<close>

fun update_first :: "('a \<Rightarrow> bool) \<Rightarrow> ('a \<Rightarrow> 'a outcome) \<Rightarrow> 'a list \<Rightarrow> 'a list outcome" where
  "update_first p f [] = Inl (Thrown (Other_Exception ''Block not found''))"
| "update_first p f (x # xs) =
     (if p x then (case f x of Inl e \<Rightarrow> Inl e | Inr x' \<Rightarrow> Inr (x' # xs))
      else (case update_first p f xs of Inl e \<Rightarrow> Inl e | Inr xs' \<Rightarrow> Inr (x # xs')))"

definition with_fragments :: "fragment list \<Rightarrow> fragment \<Rightarrow> fragment" where
  "with_fragments fs b =
     Block (blk_name b) (blk_enabled b) (blk_resized b) (blk_properties b) fs (blk_nodes b)"

definition with_nodes :: "fragment list \<Rightarrow> fragment \<Rightarrow> fragment" where
  "with_nodes ns b =
     Block (blk_name b) (blk_enabled b) (blk_resized b) (blk_properties b) (blk_fragments b) ns"

definition at_block :: "cstring \<Rightarrow> (fragment \<Rightarrow> fragment outcome) \<Rightarrow> fragment \<Rightarrow> fragment outcome" where
  "at_block name f b =
     (case update_first (is_block_named name) f (blk_fragments b) of
        Inl e \<Rightarrow> Inl e
      | Inr fs \<Rightarrow> Inr (with_fragments fs b))"

definition at_index :: "nat \<Rightarrow> (fragment \<Rightarrow> fragment outcome) \<Rightarrow> fragment \<Rightarrow> fragment outcome" where
  "at_index i f b =
     (if i < length (blk_nodes b)
      then (case f (blk_nodes b ! i) of
              Inl e \<Rightarrow> Inl e
            | Inr x \<Rightarrow> Inr (with_nodes ((blk_nodes b)[i := x]) b))
      else Inl (Thrown (Other_Exception ''vector::_M_range_check'')))"

subsection \<open>Repetition\<close>

lemma copy_copy: "copy_fragment (copy_fragment f) = copy_fragment f"
  by (induction f rule: copy_fragment.induct) auto

text \<open>Fresh: as loaded, with nothing set, disabled or repeated.\<close>

fun fresh :: "fragment \<Rightarrow> bool" where
  "fresh (Text s) = True"
| "fresh (Property n) = True"
| "fresh (Block n en rs ps fs ns) \<longleftrightarrow> en \<and> \<not> rs \<and> ns = [] \<and> list_all fresh fs"

lemma fresh_copy: "fresh f \<Longrightarrow> copy_fragment f = f"
  by (induction f rule: copy_fragment.induct) (auto simp: list_all_iff intro: map_idI)

lemma copy_fresh: "fresh (copy_fragment f)"
  by (induction f rule: copy_fragment.induct) (auto simp: list_all_iff)

text \<open>
  A block repeated \<open>n\<close> times prints as \<open>n\<close> copies of itself, and what is done to the copy
  number \<open>i\<close> changes the output at that place only: the copies share nothing.  An index past
  the copies throws, as does what is done to the copy.
\<close>

lemma block_repeat_independent:
  "let b = block_repeat n (Block name en rs ps fs ns);
       c = copy_fragment (Block name en rs ps fs ns); out = render [] c
   in render d b = (if en then concat (replicate n out) else []) \<and>
      (case at_index i f b of
         Inl e \<Rightarrow> n \<le> i \<or> f c = Inl e
       | Inr b' \<Rightarrow> i < n \<and>
           (\<exists>x. f c = Inr x \<and>
              render d b' = (if en
                then concat (replicate i out) @ render [] x @ concat (replicate (n - i - 1) out)
                else [])))"
proof -
  have split: "map g ((replicate n c)[i := x]) = replicate i (g c) @ g x # replicate (n - i - 1) (g c)"
    if "i < n" for g :: "fragment \<Rightarrow> cstring" and x c
    using that by (simp add: upd_conv_take_nth_drop map_update [symmetric] min_def)
  show ?thesis
    by (auto simp: Let_def block_repeat_def at_index_def with_nodes_def split split: sum.split)
qed

end
