(* ===== verification/Template_Load.thy ===== *)
theory Template_Load
  imports Template_Tree
begin

section \<open>Templates: loading\<close>

text \<open>
  \<open>Loader\<close>, \<open>LoaderFile\<close> and \<open>Template\<close> of \<open>template/NLTemplate.h\<close> and
  \<open>template/NLTemplate.cpp\<close>.  The virtual \<open>Loader::load\<close> is a function of the model;
  \<open>load_file\<close> is the one the library brings.
\<close>

record load_result =
  load_valid :: bool
  load_data :: cstring
  load_error :: cstring

type_synonym loader = "cstring \<Rightarrow> load_result outcome"

text \<open>
  A file that cannot be opened: the result is built with a \<open>std::string\<close> from \<open>nullptr\<close>.
\<close>

definition load_file :: "(cstring \<rightharpoonup> cstring) \<Rightarrow> loader" where
  "load_file fs name =
     (case fs name of
        None \<Rightarrow> Inl (Undefined Null_Pointer)
      | Some content \<Rightarrow> Inr \<lparr>load_valid = True, load_data = content, load_error = []\<rparr>)"

subsection \<open>The stack of open nodes\<close>

text \<open>
  The vector \<open>nodes\<close>: the template at the bottom, unless an \<open>endblock\<close> has removed it, and
  the open blocks above it, the innermost first, each with the fragments it has so far.  In the
  code an open block already hangs in the node below it; here it is put there when it is closed,
  in the same place, as the node below gets nothing in between.
\<close>

record load_stack =
  ls_open :: "(cstring \<times> fragment list) list"
  ls_root :: "fragment list"
  ls_popped :: bool

definition add_fragment :: "fragment \<Rightarrow> load_stack \<Rightarrow> load_stack outcome" where
  "add_fragment f st =
     (case ls_open st of
        (name, fs) # rest \<Rightarrow> Inr (st\<lparr>ls_open := (name, fs @ [f]) # rest\<rparr>)
      | [] \<Rightarrow>
          if ls_popped st then Inl (Undefined Out_Of_Range)
          else Inr (st\<lparr>ls_root := ls_root st @ [f]\<rparr>))"

definition open_block :: "cstring \<Rightarrow> load_stack \<Rightarrow> load_stack outcome" where
  "open_block name st =
     (if ls_open st = [] \<and> ls_popped st then Inl (Undefined Out_Of_Range)
      else Inr (st\<lparr>ls_open := (name, []) # ls_open st\<rparr>))"

definition close_block :: "load_stack \<Rightarrow> load_stack outcome" where
  "close_block st =
     (case ls_open st of
        (name, fs) # rest \<Rightarrow> add_fragment (new_block name fs) (st\<lparr>ls_open := rest\<rparr>)
      | [] \<Rightarrow>
          if ls_popped st then Inl (Undefined Out_Of_Range) else Inr (st\<lparr>ls_popped := True\<rparr>))"

fun apply_token :: "token \<Rightarrow> load_stack \<Rightarrow> load_stack outcome" where
  "apply_token (Tok_Block name) st = open_block name st"
| "apply_token Tok_Endblock st = close_block st"
| "apply_token (Tok_Var name) st = add_fragment (Property name) st"
| "apply_token (Tok_Text s) st = add_fragment (Text s) st"
| "apply_token _ st = Inr st"

subsection \<open>load_recursive\<close>

text \<open>
  The loop over the tokens of one file; \<open>inc\<close> is the recursive call of an include, \<open>None\<close> when it
  runs out of stack.
\<close>

function load_loop ::
    "(cstring \<Rightarrow> load_stack \<Rightarrow> load_stack outcome option) \<Rightarrow> tokenizer \<Rightarrow> load_stack \<Rightarrow>
     load_stack outcome option" where
  "load_loop inc tk st =
     (case next_token tk of
        (t, tk') \<Rightarrow>
          if t = Tok_End then Some (Inr st)
          else (case (case t of Tok_Include name \<Rightarrow> inc name st | _ \<Rightarrow> Some (apply_token t st)) of
                  None \<Rightarrow> None
                | Some (Inl u) \<Rightarrow> Some (Inl u)
                | Some (Inr st') \<Rightarrow> load_loop inc tk' st'))"
  by auto
termination
proof (relation "measure (\<lambda>(inc, tk, st). tk_size tk)", goal_cases)
  case 2
  then show ?case by (auto dest: next_token_size [OF sym])
qed simp

declare load_loop.simps [simp del]

primrec load_recursive ::
    "nat \<Rightarrow> loader \<Rightarrow> cstring \<Rightarrow> load_stack \<Rightarrow> load_stack outcome option" where
  "load_recursive 0 load name st = None"
| "load_recursive (Suc depth) load name st =
     (case load name of
        Inl u \<Rightarrow> Some (Inl u)
      | Inr loaded \<Rightarrow>
          if \<not> load_valid loaded then Some (Inr st)
          else load_loop (load_recursive depth load) (new_tokenizer (load_data loaded)) st)"

text \<open>Blocks left open hang in the node below them.\<close>

fun close_all :: "(cstring \<times> fragment list) list \<Rightarrow> fragment list \<Rightarrow> fragment list" where
  "close_all [] root = root"
| "close_all [(n, fs)] root = root @ [new_block n fs]"
| "close_all ((n, fs) # (m, gs) # rest) root = close_all ((m, gs @ [new_block n fs]) # rest) root"

definition new_template :: fragment where
  "new_template = new_block ''main'' []"

definition template_clear :: "fragment \<Rightarrow> fragment" where
  "template_clear t = Block (blk_name t) (blk_enabled t) (blk_resized t) [] [] []"

definition empty_stack :: load_stack where
  "empty_stack = \<lparr>ls_open = [], ls_root = [], ls_popped = False\<rparr>"

definition template_load ::
    "nat \<Rightarrow> loader \<Rightarrow> cstring \<Rightarrow> fragment \<Rightarrow> fragment outcome option" where
  "template_load depth load name t =
     (case load_recursive depth load name empty_stack of
        None \<Rightarrow> None
      | Some (Inl u) \<Rightarrow> Some (Inl u)
      | Some (Inr st) \<Rightarrow>
          Some (Inr (with_fragments (close_all (ls_open st) (ls_root st)) (template_clear t))))"

subsection \<open>Loading as a run over tokens\<close>

fun run_tokens ::
    "(cstring \<Rightarrow> load_stack \<Rightarrow> load_stack outcome option) \<Rightarrow> token list \<Rightarrow> load_stack \<Rightarrow>
     load_stack outcome option" where
  "run_tokens inc [] st = Some (Inr st)"
| "run_tokens inc (t # ts) st =
     (case (case t of Tok_Include name \<Rightarrow> inc name st | _ \<Rightarrow> Some (apply_token t st)) of
        None \<Rightarrow> None
      | Some (Inl u) \<Rightarrow> Some (Inl u)
      | Some (Inr st') \<Rightarrow> run_tokens inc ts st')"

lemma load_loop_tokens: "load_loop inc tk st = run_tokens inc (drain tk) st"
proof (induction inc tk st rule: load_loop.induct)
  case (1 inc tk st)
  obtain t tk' where nt: "next_token tk = (t, tk')" by (cases "next_token tk")
  show ?case
  proof (cases "t = Tok_End")
    case True
    then show ?thesis using nt by (simp add: load_loop.simps [of inc tk] drain.simps [of tk])
  next
    case False
    then have "drain tk = t # drain tk'" using nt by (simp add: drain.simps [of tk])
    then show ?thesis
      using nt False "1.IH" [OF nt [symmetric] False]
      by (simp add: load_loop.simps [of inc tk] split: option.split sum.split)
  qed
qed

lemma load_recursive_tokens:
  "load_recursive (Suc depth) load name st =
     (case load name of
        Inl u \<Rightarrow> Some (Inl u)
      | Inr r \<Rightarrow> if load_valid r then run_tokens (load_recursive depth load) (token_list (load_data r)) st
          else Some (Inr st))"
  by (simp add: load_loop_tokens token_list_def split: sum.split)

lemma run_tokens_append:
  "run_tokens inc (xs @ ys) st =
     (case run_tokens inc xs st of Some (Inr st') \<Rightarrow> run_tokens inc ys st' | r \<Rightarrow> r)"
  by (induction xs arbitrary: st) (auto split: option.split sum.split)

subsection \<open>Includes\<close>

text \<open>
  The tokens of a file with those of every file it includes in their place, up to a failure of
  the loader; \<open>None\<close> when the includes are nested deeper than the stack allows.
\<close>

fun splice_includes ::
    "(cstring \<Rightarrow> (token list \<times> failure option) option) \<Rightarrow> token list \<Rightarrow>
     (token list \<times> failure option) option" where
  "splice_includes inc [] = Some ([], None)"
| "splice_includes inc (t # ts) =
     (case (case t of Tok_Include name \<Rightarrow> inc name | _ \<Rightarrow> Some ([t], None)) of
        None \<Rightarrow> None
      | Some (xs, Some u) \<Rightarrow> Some (xs, Some u)
      | Some (xs, None) \<Rightarrow>
          (case splice_includes inc ts of None \<Rightarrow> None | Some (ys, u) \<Rightarrow> Some (xs @ ys, u)))"

primrec all_tokens :: "nat \<Rightarrow> loader \<Rightarrow> cstring \<Rightarrow> (token list \<times> failure option) option" where
  "all_tokens 0 load name = None"
| "all_tokens (Suc depth) load name =
     (case load name of
        Inl u \<Rightarrow> Some ([], Some u)
      | Inr r \<Rightarrow> if load_valid r then splice_includes (all_tokens depth load) (token_list (load_data r))
          else Some ([], None))"

text \<open>Running tokens without includes.\<close>

fun run_flat :: "token list \<Rightarrow> load_stack \<Rightarrow> load_stack outcome" where
  "run_flat [] st = Inr st"
| "run_flat (t # ts) st = (case apply_token t st of Inl u \<Rightarrow> Inl u | Inr st' \<Rightarrow> run_flat ts st')"

definition run_then :: "token list \<times> failure option \<Rightarrow> load_stack \<Rightarrow> load_stack outcome" where
  "run_then r st =
     (case run_flat (fst r) st of
        Inl u \<Rightarrow> Inl u
      | Inr st' \<Rightarrow> (case snd r of None \<Rightarrow> Inr st' | Some u \<Rightarrow> Inl u))"

lemma run_flat_append:
  "run_flat (xs @ ys) st = (case run_flat xs st of Inl u \<Rightarrow> Inl u | Inr st' \<Rightarrow> run_flat ys st')"
  by (induction xs arbitrary: st) (auto split: sum.split)

lemma run_then_single: "run_then ([t], None) st = apply_token t st"
  by (simp add: run_then_def split: sum.split)

lemma splice_includes_run:
  assumes "\<And>name r st. inc name = Some r \<Longrightarrow> load name st = Some (run_then r st)"
    and "splice_includes inc ts = Some r"
  shows "run_tokens load ts st = Some (run_then r st)"
  using assms(2)
proof (induction ts arbitrary: r st)
  case Nil
  then show ?case by (auto simp: run_then_def)
next
  case (Cons t ts)
  define one where "one = (case t of Tok_Include name \<Rightarrow> inc name | _ \<Rightarrow> Some ([t], None))"
  have prem: "(case one of None \<Rightarrow> None | Some (xs, Some u) \<Rightarrow> Some (xs, Some u)
      | Some (xs, None) \<Rightarrow>
          (case splice_includes inc ts of None \<Rightarrow> None | Some (ys, u) \<Rightarrow> Some (xs @ ys, u))) = Some r"
    using Cons.prems by (simp add: one_def)
  then obtain xs u where one_eq: "one = Some (xs, u)" by (cases one) auto
  have head: "(case t of Tok_Include name \<Rightarrow> load name st | _ \<Rightarrow> Some (apply_token t st)) =
      Some (run_then (xs, u) st)"
    using one_eq assms(1) by (cases t) (auto simp: one_def run_then_single simp del: apply_token.simps)
  show ?case
  proof (cases u)
    case (Some f)
    then have "r = (xs, Some f)" using prem one_eq by simp
    then show ?thesis using head Some by (auto simp: run_then_def split: sum.split)
  next
    case None
    then obtain ys v where ys: "splice_includes inc ts = Some (ys, v)" and r: "r = (xs @ ys, v)"
      using prem one_eq by (auto split: option.splits)
    show ?thesis
      using head None Cons.IH [OF ys]
      by (auto simp: run_then_def r run_flat_append split: sum.split)
  qed
qed

lemma all_tokens_run:
  "all_tokens depth load name = Some r \<Longrightarrow> load_recursive depth load name st = Some (run_then r st)"
proof (induction depth arbitrary: name r st)
  case (Suc depth)
  show ?case
  proof (cases "load name")
    case (Inl u)
    then show ?thesis using Suc.prems by (auto simp: run_then_def)
  next
    case (Inr x)
    then show ?thesis
      using Suc.prems splice_includes_run [OF Suc.IH, of "all_tokens depth load"]
      by (auto simp: load_recursive_tokens run_then_def simp del: load_recursive.simps split: if_splits)
  qed
qed simp

text \<open>
  C23: an include means the tokens of the file in its place: whenever the includes come to an end
  within the stack, loading a file does what its tokens do in order, those of the included files
  among them, up to the first failure of the loader; blocks may open in one file and close in
  another.
\<close>

theorem load_includes_tokens:
  "case all_tokens depth load name of
     None \<Rightarrow> True
   | Some r \<Rightarrow> load_recursive depth load name st = Some (run_then r st)"
  using all_tokens_run by (auto split: option.split)

lemma splice_includes_total:
  assumes "\<And>name. Tok_Include name \<in> set ts \<Longrightarrow> inc name \<noteq> None"
  shows "splice_includes inc ts \<noteq> None"
  using assms
proof (induction ts)
  case (Cons t ts)
  have "(case t of Tok_Include name \<Rightarrow> inc name | _ \<Rightarrow> Some ([t], None)) \<noteq> None"
    using Cons.prems by (cases t) auto
  then show ?case using Cons by (auto split: option.split)
qed simp

definition includes_below :: "loader \<Rightarrow> (cstring \<Rightarrow> nat) \<Rightarrow> bool" where
  "includes_below load rank \<longleftrightarrow>
     (\<forall>name r inner. load name = Inr r \<and> load_valid r \<and> Tok_Include inner \<in> set (token_list (load_data r)) \<longrightarrow>
        rank inner < rank name)"

lemma all_tokens_total:
  "includes_below load rank \<Longrightarrow> rank name < depth \<Longrightarrow> all_tokens depth load name \<noteq> None"
proof (induction depth arbitrary: name)
  case (Suc depth)
  show ?case
  proof (cases "load name")
    case (Inr r)
    have "all_tokens depth load inner \<noteq> None"
      if "load_valid r" "Tok_Include inner \<in> set (token_list (load_data r))" for inner
      using Suc Inr that by (fastforce simp: includes_below_def)
    then show ?thesis using Inr splice_includes_total by auto
  qed simp
qed simp

lemma splice_includes_mono:
  assumes "\<And>name r. inc name = Some r \<Longrightarrow> inc' name = Some r"
  shows "splice_includes inc ts = Some r \<Longrightarrow> splice_includes inc' ts = Some r"
proof (induction ts arbitrary: r)
  case (Cons t ts)
  have mono: "(case t of Tok_Include name \<Rightarrow> inc' name | _ \<Rightarrow> Some ([t], None)) = Some q"
    if "(case t of Tok_Include name \<Rightarrow> inc name | _ \<Rightarrow> Some ([t], None)) = Some q" for q
    using that assms by (cases t) auto
  show ?case
    using Cons mono
    by (cases "case t of Tok_Include name \<Rightarrow> inc name | _ \<Rightarrow> Some ([t], None)")
      (fastforce split: option.splits)+
qed simp

lemma all_tokens_Suc: "all_tokens depth load name = Some r \<Longrightarrow> all_tokens (Suc depth) load name = Some r"
proof (induction depth arbitrary: name r)
  case (Suc depth)
  have "splice_includes (all_tokens depth load) ts = Some r \<Longrightarrow>
      splice_includes (all_tokens (Suc depth) load) ts = Some r" for ts
    by (rule splice_includes_mono [OF Suc.IH])
  then show ?case
    using Suc.prems by (subst all_tokens.simps(2)) (auto split: sum.splits if_splits simp del: all_tokens.simps(2) simp: all_tokens.simps(2) [of depth])
qed simp

lemma all_tokens_add: "all_tokens depth load name = Some r \<Longrightarrow> all_tokens (depth + extra) load name = Some r"
  by (induction extra) (simp_all add: all_tokens_Suc del: all_tokens.simps(2))

text \<open>
  C24: loading ends when the files include one another without a cycle: with a stack deeper than
  the rank of the file it gives a result, the same one however deep the stack is.
\<close>

theorem load_terminates:
  assumes "includes_below load rank"
  shows "\<exists>r. \<forall>extra. load_recursive (Suc (rank name) + extra) load name st = Some r"
proof -
  obtain r where r: "all_tokens (Suc (rank name)) load name = Some r"
    using all_tokens_total [OF assms, of name "Suc (rank name)"] by auto
  show ?thesis
    using all_tokens_run [OF all_tokens_add [OF r]] by blast
qed

text \<open>A file that begins by including itself is never loaded: the recursion has no end.\<close>

lemma load_self_include:
  assumes "load name = Inr r" "load_valid r" "token_list (load_data r) = Tok_Include name # ts"
  shows "load_recursive depth load name st = None"
proof (induction depth)
  case (Suc depth)
  then show ?case using assms by (simp add: load_recursive_tokens del: load_recursive.simps)
qed simp

text \<open>A page that includes its header.\<close>

definition two_tokens :: "cstring \<Rightarrow> token list" where
  "two_tokens name =
     (if name = ''page'' then [Tok_Include ''header'', Tok_Text '' text''] else [Tok_Var ''title''])"

definition two_files :: loader where
  "two_files name =
     Inr \<lparr>load_valid = name \<in> {''page'', ''header''},
          load_data = concat (map token_source (two_tokens name)), load_error = []\<rparr>"

lemma two_files_below: "includes_below two_files (\<lambda>name. if name = ''page'' then 1 else 0)"
proof -
  have "printable (two_tokens name)" for name
    by (simp add: two_tokens_def printable_def alphanum_def)
  then have "token_list (concat (map token_source (two_tokens name))) = two_tokens name" for name
    by (rule token_list_printed)
  then show ?thesis by (auto simp: includes_below_def two_files_def two_tokens_def split: if_splits)
qed

theorem load_terminates_witness:
  "\<exists>r. \<forall>extra. load_recursive (2 + extra) two_files ''page'' empty_stack = Some r"
  using load_terminates [OF two_files_below, of "''page''" empty_stack] by simp

subsection \<open>Templates that were printed\<close>

fun frag_tokens :: "fragment \<Rightarrow> token list" where
  "frag_tokens (Text s) = [Tok_Text s]"
| "frag_tokens (Property n) = [Tok_Var n]"
| "frag_tokens (Block n en rs ps fs ns) =
     Tok_Block n # concat (map frag_tokens fs) @ [Tok_Endblock]"

definition print_fragments :: "fragment list \<Rightarrow> cstring" where
  "print_fragments fs = concat (map token_source (concat (map frag_tokens fs)))"

text \<open>What can be printed: fresh blocks, plain texts that are not empty and not next to one another.\<close>

fun is_text_fragment :: "fragment \<Rightarrow> bool" where
  "is_text_fragment (Text s) = True"
| "is_text_fragment _ = False"

definition apart :: "fragment list \<Rightarrow> bool" where
  "apart fs \<longleftrightarrow> successively (\<lambda>f g. \<not> (is_text_fragment f \<and> is_text_fragment g)) fs"

fun printable_fragment :: "fragment \<Rightarrow> bool" where
  "printable_fragment (Text s) \<longleftrightarrow> s \<noteq> [] \<and> CHR ''{'' \<notin> set s"
| "printable_fragment (Property n) \<longleftrightarrow> list_all alphanum n"
| "printable_fragment (Block n en rs ps fs ns) \<longleftrightarrow>
     list_all alphanum n \<and> en \<and> \<not> rs \<and> ps = [] \<and> ns = [] \<and> apart fs \<and>
     list_all printable_fragment fs"

lemma frag_tokens_ends:
  "frag_tokens f \<noteq> []" "is_text (hd (frag_tokens f)) = is_text_fragment f"
  "is_text (last (frag_tokens f)) = is_text_fragment f"
  by (cases f; simp)+

lemma tokens_of_list:
  assumes "apart fs" "\<And>f. f \<in> set fs \<Longrightarrow> printable (frag_tokens f)"
  shows "printable (concat (map frag_tokens fs)) \<and>
    (fs \<noteq> [] \<longrightarrow> concat (map frag_tokens fs) \<noteq> [] \<and>
       is_text (hd (concat (map frag_tokens fs))) = is_text_fragment (hd fs))"
  using assms
proof (induction fs)
  case Nil
  then show ?case by (simp add: printable_def)
next
  case (Cons f fs)
  have "apart fs" "fs = [] \<or> \<not> is_text_fragment f \<or> \<not> is_text_fragment (hd fs)"
    using Cons.prems(1) by (auto simp: apart_def successively_Cons)
  with Cons show ?case
    by (auto simp: printable_def frag_tokens_ends hd_append)
qed

lemma frag_tokens_printable: "printable_fragment f \<Longrightarrow> printable (frag_tokens f)"
proof (induction f rule: frag_tokens.induct)
  case (3 n en rs ps fs ns)
  then have "printable (concat (map frag_tokens fs))"
    using tokens_of_list [of fs] by (auto simp: list_all_iff)
  then show ?case using 3 by (auto simp: printable_def)
qed (auto simp: printable_def)

definition live :: "load_stack \<Rightarrow> bool" where
  "live st \<longleftrightarrow> ls_open st \<noteq> [] \<or> \<not> ls_popped st"

fun add_all :: "fragment list \<Rightarrow> load_stack \<Rightarrow> load_stack outcome" where
  "add_all [] st = Inr st"
| "add_all (f # fs) st = (case add_fragment f st of Inl u \<Rightarrow> Inl u | Inr st' \<Rightarrow> add_all fs st')"

lemma add_fragment_live: "live st \<Longrightarrow> \<exists>st'. add_fragment f st = Inr st' \<and> live st'"
  by (auto simp: live_def add_fragment_def split: list.splits)

lemma run_list_adds:
  assumes "\<And>f st. f \<in> set fs \<Longrightarrow> live st \<Longrightarrow> run_flat (frag_tokens f) st = add_fragment f st" "live st"
  shows "run_flat (concat (map frag_tokens fs)) st = add_all fs st"
  using assms
proof (induction fs arbitrary: st)
  case (Cons f fs)
  obtain st' where "add_fragment f st = Inr st'" "live st'" using add_fragment_live Cons.prems(2) by blast
  then show ?case using Cons by (simp add: run_flat_append)
qed simp

lemma add_all_open:
  "ls_open st = (n, gs) # rest \<Longrightarrow> add_all fs st = Inr (st\<lparr>ls_open := (n, gs @ fs) # rest\<rparr>)"
  by (induction fs arbitrary: st gs) (auto simp: add_fragment_def)

lemma run_fragment:
  "printable_fragment f \<Longrightarrow> live st \<Longrightarrow> run_flat (frag_tokens f) st = add_fragment f st"
proof (induction f arbitrary: st rule: frag_tokens.induct)
  case (3 n en rs ps fs ns)
  define st1 where "st1 = st\<lparr>ls_open := (n, []) # ls_open st\<rparr>"
  have op: "open_block n st = Inr st1" using 3 by (auto simp: open_block_def live_def st1_def)
  have "run_flat (concat (map frag_tokens fs)) st1 = add_all fs st1"
    using 3 by (intro run_list_adds) (auto simp: list_all_iff live_def st1_def)
  also have "\<dots> = Inr (st1\<lparr>ls_open := (n, fs) # ls_open st\<rparr>)"
    using add_all_open [of st1 n "[]" "ls_open st" fs] by (simp add: st1_def)
  finally show ?case
    using op 3 by (simp add: run_flat_append close_block_def st1_def new_block_def split: sum.split)
qed (simp_all split: sum.split)

lemma add_all_root:
  "ls_open st = [] \<Longrightarrow> \<not> ls_popped st \<Longrightarrow> add_all fs st = Inr (st\<lparr>ls_root := ls_root st @ fs\<rparr>)"
  by (induction fs arbitrary: st) (auto simp: add_fragment_def)

lemma frag_tokens_no_include: "Tok_Include name \<notin> set (frag_tokens f)"
  by (induction f rule: frag_tokens.induct) auto

lemma run_tokens_flat: "(\<And>name. Tok_Include name \<notin> set ts) \<Longrightarrow> run_tokens inc ts st = Some (run_flat ts st)"
proof (induction ts arbitrary: st)
  case (Cons t ts)
  then show ?case by (cases t) (auto split: sum.split)
qed simp

text \<open>
  C25: a template that was printed is loaded as it was: its blocks, properties and texts, nested
  to any depth, replace whatever the template held before.
\<close>

theorem template_load_printed:
  assumes "apart fs" and "list_all printable_fragment fs"
    and "load name = Inr \<lparr>load_valid = True, load_data = print_fragments fs, load_error = err\<rparr>"
  shows "template_load (Suc depth) load name t = Some (Inr (with_fragments fs (template_clear t)))"
proof -
  have "printable (concat (map frag_tokens fs))"
    using assms(1,2) frag_tokens_printable tokens_of_list by (auto simp: list_all_iff)
  then have toks: "token_list (print_fragments fs) = concat (map frag_tokens fs)"
    unfolding print_fragments_def by (rule token_list_printed)
  have "run_flat (concat (map frag_tokens fs)) empty_stack = add_all fs empty_stack"
    using assms(2) run_fragment by (intro run_list_adds) (auto simp: list_all_iff live_def empty_stack_def)
  also have "\<dots> = Inr (empty_stack\<lparr>ls_root := fs\<rparr>)"
    using add_all_root [of empty_stack fs] by (simp add: empty_stack_def)
  finally have "load_recursive (Suc depth) load name empty_stack = Some (Inr (empty_stack\<lparr>ls_root := fs\<rparr>))"
    using assms(3) toks frag_tokens_no_include
    by (simp add: load_recursive_tokens run_tokens_flat del: load_recursive.simps)
  then show ?thesis by (simp add: template_load_def empty_stack_def del: load_recursive.simps)
qed

theorem template_load_printed_witness:
  "template_load 1 (load_file [''list'' \<mapsto> print_fragments
       [Text ''Items: '', new_block ''item'' [Property ''name'', Text '', '']]]) ''list'' new_template =
     Some (Inr (with_fragments [Text ''Items: '', new_block ''item'' [Property ''name'', Text '', '']]
       (template_clear new_template)))"
  using template_load_printed [of "[Text ''Items: '', new_block ''item'' [Property ''name'', Text '', '']]"
      "load_file [''list'' \<mapsto> print_fragments
         [Text ''Items: '', new_block ''item'' [Property ''name'', Text '', '']]]" "''list''" "[]" 0 new_template]
  by (simp add: apart_def new_block_def alphanum_def load_file_def)

subsection \<open>Unbalanced blocks\<close>

fun is_block_token :: "token \<Rightarrow> bool" where
  "is_block_token (Tok_Block n) = True"
| "is_block_token _ = False"

definition balance_ok :: "nat \<Rightarrow> token list \<Rightarrow> bool" where
  "balance_ok d ts \<longleftrightarrow>
     (\<forall>i < length ts. length (filter (\<lambda>t. t = Tok_Endblock) (take i ts)) \<le>
        length (filter is_block_token (take i ts)) + d)"

lemma balance_ok_Cons:
  "balance_ok d (t # ts) \<longleftrightarrow>
     (if t = Tok_Endblock then if d = 0 then ts = [] else balance_ok (d - 1) ts
      else if is_block_token t then balance_ok (Suc d) ts else balance_ok d ts)"
  by (cases t) (auto simp: balance_ok_def All_less_Suc2 Suc_le_eq le_diff_conv2 gr0_conv_Suc)

definition flat_token :: "token \<Rightarrow> bool" where
  "flat_token t \<longleftrightarrow> t \<noteq> Tok_End \<and> (\<forall>name. t \<noteq> Tok_Include name)"

lemma run_flat_dead:
  "\<not> live st \<Longrightarrow> list_all flat_token ts \<Longrightarrow>
     run_flat ts st = (if ts = [] then Inr st else Inl (Undefined Out_Of_Range))"
  by (cases ts; cases "hd ts")
    (auto simp: live_def flat_token_def open_block_def close_block_def add_fragment_def)

lemma run_flat_balance:
  "\<not> ls_popped st \<Longrightarrow> list_all flat_token ts \<Longrightarrow>
     (case run_flat ts st of
        Inl u \<Rightarrow> \<not> balance_ok (length (ls_open st)) ts \<and> u = Undefined Out_Of_Range
      | Inr st' \<Rightarrow> balance_ok (length (ls_open st)) ts)"
proof (induction ts arbitrary: st)
  case Nil
  then show ?case by (simp add: balance_ok_def)
next
  case (Cons t ts)
  have adds: "\<exists>st'. add_fragment f s = Inr st' \<and> \<not> ls_popped st' \<and> length (ls_open st') = length (ls_open s)"
    if "\<not> ls_popped s" for f s
    using that by (auto simp: add_fragment_def split: list.split)
  show ?case
  proof (cases "t = Tok_Endblock \<and> ls_open st = []")
    case True
    then show ?thesis
      using Cons.prems run_flat_dead [of "st\<lparr>ls_popped := True\<rparr>" ts]
      by (auto simp: close_block_def live_def balance_ok_Cons)
  next
    case False
    have "\<exists>st'. apply_token t st = Inr st' \<and> \<not> ls_popped st' \<and>
        length (ls_open st') = (if t = Tok_Endblock then length (ls_open st) - 1
          else if is_block_token t then Suc (length (ls_open st)) else length (ls_open st))"
    proof (cases t)
      case Tok_Endblock
      then obtain n fs rest where "ls_open st = (n, fs) # rest" using False by (cases "ls_open st") auto
      then show ?thesis
        using adds [of "st\<lparr>ls_open := rest\<rparr>" "new_block n fs"] Cons.prems(1) Tok_Endblock
        by (simp add: close_block_def)
    qed (use Cons.prems adds in \<open>auto simp: open_block_def flat_token_def\<close>)
    then obtain st' where st': "apply_token t st = Inr st'" "\<not> ls_popped st'"
      and len: "length (ls_open st') = (if t = Tok_Endblock then length (ls_open st) - 1
          else if is_block_token t then Suc (length (ls_open st)) else length (ls_open st))"
      by blast
    have "balance_ok (length (ls_open st)) (t # ts) = balance_ok (length (ls_open st')) ts"
      using False len by (auto simp: balance_ok_Cons)
    then show ?thesis
      using st'(1) Cons.IH [OF st'(2)] Cons.prems(2) by (simp split: sum.splits)
  qed
qed

lemma token_list_flat: "t \<in> set (token_list s) \<Longrightarrow> t \<noteq> Tok_End"
  using drain_sound [of "new_tokenizer s"] by (auto simp: token_list_def token_ok_def list_all_iff)

lemma splice_includes_flat:
  assumes "\<And>name xs u. inc name = Some (xs, u) \<Longrightarrow> list_all flat_token xs" "Tok_End \<notin> set ts"
    and "splice_includes inc ts = Some (xs, u)"
  shows "list_all flat_token xs"
  using assms(2,3)
proof (induction ts arbitrary: xs u)
  case (Cons t ts)
  define one where "one = (case t of Tok_Include name \<Rightarrow> inc name | _ \<Rightarrow> Some ([t], None))"
  have flat: "list_all flat_token ys" if "one = Some (ys, v)" for ys v
    using that assms(1) Cons.prems(1) by (cases t) (auto simp: one_def flat_token_def)
  show ?case
    using Cons.prems Cons.IH flat by (auto simp flip: one_def split: option.splits)
qed simp

lemma all_tokens_flat: "all_tokens depth load name = Some (xs, u) \<Longrightarrow> list_all flat_token xs"
proof (induction depth arbitrary: name xs u)
  case (Suc depth)
  have "list_all flat_token xs" if "splice_includes (all_tokens depth load) (token_list s) = Some (xs, u)" for s
    using token_list_flat by (intro splice_includes_flat [OF _ _ that] Suc.IH) blast+
  then show ?case using Suc.prems by (auto split: sum.splits if_splits)
qed simp


end
