(* ===== verification/Game_Hand.thy ===== *)
theory Game_Hand
  imports Agent_Effects Complex_Main
begin

section \<open>The card game: cards and hands\<close>

text \<open>
  \<open>cpprest/messagetypes.h\<close>: cards, hands, players and tables of the black jack server.  An
  enumeration whose values come from outside is its number.  Amounts of money are doubles in the
  code; they are whole numbers multiplied by 2, 2.5 and 3, which doubles hold exactly up to
  \<open>2^50\<close>, and reals here.
\<close>

subsection \<open>Enumerations\<close>

datatype BJHandResult = HR_None | HR_PlayerBlackJack | HR_PlayerWin | HR_ComputerWin | HR_Push

datatype BJHandState = HR_Empty | HR_BlackJack | HR_Active | HR_Held | HR_Busted

datatype BJStatus = ST_PlaceBet | ST_Refresh | ST_YourTurn | ST_None

fun result_code :: "BJHandResult \<Rightarrow> int" where
  "result_code HR_None = 0"
| "result_code HR_PlayerBlackJack = 1"
| "result_code HR_PlayerWin = 2"
| "result_code HR_ComputerWin = 3"
| "result_code HR_Push = 4"

fun state_code :: "BJHandState \<Rightarrow> int" where
  "state_code HR_Empty = 0"
| "state_code HR_BlackJack = 1"
| "state_code HR_Active = 2"
| "state_code HR_Held = 3"
| "state_code HR_Busted = 4"

fun status_code_of :: "BJStatus \<Rightarrow> int" where
  "status_code_of ST_PlaceBet = 0"
| "status_code_of ST_Refresh = 1"
| "status_code_of ST_YourTurn = 2"
| "status_code_of ST_None = 3"

lemma state_code_inj: "state_code s = state_code t \<longleftrightarrow> s = t"
  by (cases s; cases t) simp_all

definition CV_Ace :: int where "CV_Ace = 1"

subsection \<open>Card and BJHand\<close>

record card =
  card_suit :: int
  card_value :: int

record NumericHandValues =
  low :: int
  high :: int

definition Best :: "NumericHandValues \<Rightarrow> int" where
  "Best v = (if high v < 22 then high v else low v)"

record bj_hand =
  revealBoth :: bool
  cards :: "card list"
  bet :: real
  insurance :: real
  hand_state :: BJHandState
  hand_result :: BJHandResult

definition new_hand :: bj_hand where
  "new_hand = \<lparr>revealBoth = True, cards = [], bet = 0, insurance = 0, hand_state = HR_Empty,
     hand_result = HR_None\<rparr>"

definition Clear :: "bj_hand \<Rightarrow> bj_hand" where
  "Clear h = h\<lparr>cards := [], hand_state := HR_Empty, hand_result := HR_None, insurance := 0\<rparr>"

text \<open>The loop: the sum so far and whether an ace was seen.\<close>

fun count_cards :: "card list \<Rightarrow> int \<times> bool \<Rightarrow> int \<times> bool" where
  "count_cards [] acc = acc"
| "count_cards (c # cs) (l, hasAces) =
     count_cards cs (l + min (card_value c) 10, hasAces \<or> card_value c = CV_Ace)"

definition GetNumericValues :: "bj_hand \<Rightarrow> NumericHandValues" where
  "GetNumericValues h =
     (case count_cards (cards h) (0, False) of
        (l, hasAces) \<Rightarrow> \<lparr>low = l, high = (if hasAces then l + 10 else l)\<rparr>)"

definition AddCard :: "card \<Rightarrow> bj_hand \<Rightarrow> bj_hand" where
  "AddCard c h =
     (let h1 = h\<lparr>cards := cards h @ [c]\<rparr>; v = GetNumericValues h1
      in h1\<lparr>hand_state :=
           (if length (cards h1) = 2 \<and> high v = 21 then HR_BlackJack
            else if low v > 21 then HR_Busted
            else HR_Active)\<rparr>)"

subsection \<open>Player and BJTable\<close>

record player =
  player_name :: cstring
  hand :: bj_hand
  balance :: real

definition new_player :: "cstring \<Rightarrow> player" where
  "new_player name = \<lparr>player_name = name, hand = new_hand, balance = 1000\<rparr>"

definition DEALER :: cstring where "DEALER = ''DEALER''"

record bj_table =
  table_id :: int
  capacity :: nat
  players :: "player list"

definition new_bj_table :: "int \<Rightarrow> nat \<Rightarrow> bj_table" where
  "new_bj_table i n = \<lparr>table_id = i, capacity = n, players = [new_player DEALER]\<rparr>"

subsection \<open>What a hand is worth\<close>

definition points :: "card list \<Rightarrow> int" where
  "points cs = sum_list (map (\<lambda>c. min (card_value c) 10) cs)"

definition has_ace :: "card list \<Rightarrow> bool" where
  "has_ace cs \<longleftrightarrow> (\<exists>c \<in> set cs. card_value c = CV_Ace)"

lemma count_cards_points: "count_cards cs (l, a) = (l + points cs, a \<or> has_ace cs)"
  by (induction cs arbitrary: l a) (auto simp: points_def has_ace_def)

lemma numeric_values: "low (GetNumericValues h) = points (cards h)"
  "high (GetNumericValues h) = (if has_ace (cards h) then points (cards h) + 10 else points (cards h))"
  by (simp_all add: GetNumericValues_def count_cards_points)

text \<open>
  The rule of the game: an ace counts 1 or 11, a picture 10.  \<open>totals\<close> are the sums a hand can
  have; the best is the greatest that is at most 21, or the least when there is none.
\<close>

definition card_counts :: "card \<Rightarrow> int set" where
  "card_counts c = (if card_value c = CV_Ace then {1, 11} else {min (card_value c) 10})"

fun totals :: "card list \<Rightarrow> int set" where
  "totals [] = {0}"
| "totals (c # cs) = (\<lambda>(p, t). p + t) ` (card_counts c \<times> totals cs)"

definition best_total :: "card list \<Rightarrow> int" where
  "best_total cs =
     (let ok = {t \<in> totals cs. t \<le> 21} in if ok = {} then Min (totals cs) else Max ok)"

definition playing_card :: "card \<Rightarrow> bool" where
  "playing_card c \<longleftrightarrow> 1 \<le> card_value c \<and> card_value c \<le> 13"

definition aces :: "card list \<Rightarrow> nat" where
  "aces cs = length (filter (\<lambda>c. card_value c = CV_Ace) cs)"

lemma totals_aces: "totals cs = (\<lambda>k. points cs + 10 * int k) ` {..aces cs}"
proof (induction cs)
  case (Cons c cs)
  show ?case
  proof (cases "card_value c = CV_Ace")
    case True
    then have counts: "card_counts c = {1, 11}" and n: "aces (c # cs) = Suc (aces cs)"
      and p: "points (c # cs) = 1 + points cs"
      by (simp_all add: card_counts_def aces_def points_def CV_Ace_def)
    have "totals (c # cs) = (\<lambda>t. 1 + t) ` totals cs \<union> (\<lambda>t. 11 + t) ` totals cs"
      by (auto simp: counts)
    also have "\<dots> = (\<lambda>k. 1 + points cs + 10 * int k) ` ({..aces cs} \<union> Suc ` {..aces cs})"
      unfolding Cons.IH image_Un image_image by (simp add: algebra_simps)
    also have "{..aces cs} \<union> Suc ` {..aces cs} = {..Suc (aces cs)}"
      by (auto simp: image_iff Bex_def) presburger
    finally show ?thesis unfolding n p .
  next
    case False
    then have "totals (c # cs) = (\<lambda>t. min (card_value c) 10 + t) ` totals cs"
      by (auto simp: card_counts_def)
    then show ?thesis
      using False by (simp add: aces_def points_def Cons.IH image_image algebra_simps)
  qed
qed (simp add: points_def aces_def)

lemma points_aces: "list_all playing_card cs \<Longrightarrow> int (aces cs) \<le> points cs"
  by (induction cs) (auto simp: aces_def points_def playing_card_def CV_Ace_def)

lemma has_ace_aces: "has_ace cs \<longleftrightarrow> 0 < aces cs"
  by (auto simp: has_ace_def aces_def filter_empty_conv)

lemma best_of_totals:
  assumes "int n \<le> p"
  shows "(let ok = {t \<in> (\<lambda>k. p + 10 * int k) ` {..n}. t \<le> 21}
    in if ok = {} then Min ((\<lambda>k. p + 10 * int k) ` {..n}) else Max ok) =
    (if 0 < n \<and> p + 10 < 22 then p + 10 else p)"
proof (cases "p \<le> 21")
  case True
  have "p + 10 * int k \<le> 21 \<Longrightarrow> k \<le> n \<Longrightarrow> k = 0 \<or> k = 1" for k using assms by arith
  then have "{t \<in> (\<lambda>k. p + 10 * int k) ` {..n}. t \<le> 21} = (if 0 < n \<and> p + 10 < 22 then {p, p + 10} else {p})"
    using True by (auto simp: image_iff Bex_def; fastforce)
  then show ?thesis by simp
next
  case False
  then have "{t \<in> (\<lambda>k. p + 10 * int k) ` {..n}. t \<le> 21} = {}" by auto
  moreover have "Min ((\<lambda>k. p + 10 * int k) ` {..n}) = p" by (rule Min_eqI) auto
  ultimately have "(let ok = {t \<in> (\<lambda>k. p + 10 * int k) ` {..n}. t \<le> 21}
    in if ok = {} then Min ((\<lambda>k. p + 10 * int k) ` {..n}) else Max ok) = p"
    by (simp only: Let_def refl if_True)
  then show ?thesis using False by (simp only:) simp
qed

lemma Best_numeric:
  assumes "list_all playing_card (cards h)"
  shows "Best (GetNumericValues h) = best_total (cards h)"
  unfolding best_total_def totals_aces best_of_totals [OF points_aces [OF assms]]
  by (simp add: Best_def numeric_values has_ace_aces)

text \<open>
  C40: the value the server compares is the best total of the hand by the rules of the game,
  although it looks at one ace only.
\<close>

theorem Best_is_best_total:
  assumes "list_all playing_card (cards h)"
  shows "Best (GetNumericValues h) = best_total (cards h)"
  by (rule Best_numeric [OF assms])

theorem Best_is_best_total_witness:
  "Best (GetNumericValues (new_hand\<lparr>cards := [\<lparr>card_suit = 0, card_value = 1\<rparr>, \<lparr>card_suit = 1, card_value = 1\<rparr>,
      \<lparr>card_suit = 2, card_value = 9\<rparr>]\<rparr>)) =
   best_total [\<lparr>card_suit = 0, card_value = 1\<rparr>, \<lparr>card_suit = 1, card_value = 1\<rparr>, \<lparr>card_suit = 2, card_value = 9\<rparr>] \<and>
   Best (GetNumericValues (new_hand\<lparr>cards := [\<lparr>card_suit = 0, card_value = 1\<rparr>, \<lparr>card_suit = 1, card_value = 1\<rparr>,
      \<lparr>card_suit = 2, card_value = 9\<rparr>]\<rparr>)) = 21"
  using Best_is_best_total [of "new_hand\<lparr>cards := [\<lparr>card_suit = 0, card_value = 1\<rparr>,
      \<lparr>card_suit = 1, card_value = 1\<rparr>, \<lparr>card_suit = 2, card_value = 9\<rparr>]\<rparr>"]
  by (simp add: playing_card_def new_hand_def GetNumericValues_def Best_def CV_Ace_def)

end
