(* ===== verification/Game_Table.thy ===== *)
theory Game_Table
  imports Game_Hand
begin

section \<open>The card game: a table\<close>

text \<open>
  \<open>cpprest/Table.h\<close> and \<open>cpprest/Table.cpp\<close>: the shoe, the bets, the turns of the players, the
  dealer's turn and the pay-out.  Requests are answered through the messages kept for the
  players; \<open>replies\<close> is what was answered, oldest first.  The random numbers are a parameter,
  and the lock is not modelled: requests are handled one after the other.
\<close>

subsection \<open>DealerTable\<close>

text \<open>
  A request: its number, and the parts of its uri (\<open>uri::split_path\<close> and \<open>uri::split_query\<close> of
  the C++ REST SDK).
\<close>

record http_message =
  msg_id :: nat
  msg_paths :: "cstring list"
  msg_query :: "cstring \<rightharpoonup> cstring"

text \<open>The body of a reply; a table stands for its \<open>AsJSON()\<close>.\<close>

datatype reply_body =
    Put_Response BJStatus bj_table
  | Body_Text cstring
  | Body_Table bj_table
  | Body_Tables "bj_table list"
  | No_Body

record dealer_table = bj_table +
  m_shoe :: "card list"
  m_betting :: bool
  m_pendingrefresh :: "BJStatus list"
  m_responses :: "nat option list"
  m_currentPlayer :: nat
  m_betsMade :: int
  replies :: "(nat \<times> nat \<times> reply_body) list"

text \<open>\<open>swap(shoe[i], shoe[other])\<close>, with the draws of the distribution in order.\<close>

definition swap_at :: "nat \<Rightarrow> nat \<Rightarrow> 'a list \<Rightarrow> 'a list" where
  "swap_at i j xs = xs[i := xs ! j, j := xs ! i]"

definition deck :: "int list" where
  "deck = concat (map (\<lambda>suit. map (\<lambda>fv. suit * 16 + (fv + 1)) [0..12]) [0..3])"

definition stacked :: "nat \<Rightarrow> int list" where
  "stacked decks = concat (replicate decks deck)"

definition ITER :: nat where "ITER = 4"

fun shuffle_from :: "(nat \<Rightarrow> nat) \<Rightarrow> nat \<Rightarrow> nat \<Rightarrow> nat \<Rightarrow> 'a list \<Rightarrow> 'a list" where
  "shuffle_from draws n 0 k shoe = shoe"
| "shuffle_from draws n (Suc r) k shoe =
     shuffle_from draws n r (k + n) (fold (\<lambda>i. swap_at i (draws (k + i))) [0..<n] shoe)"

definition card_of :: "int \<Rightarrow> card" where
  "card_of x = \<lparr>card_suit = x div 16, card_value = x mod 16\<rparr>"

definition FillShoe :: "(nat \<Rightarrow> nat) \<Rightarrow> nat \<Rightarrow> card list" where
  "FillShoe draws decks = map card_of (shuffle_from draws (decks * 52) ITER 0 (stacked decks))"

definition new_dealer_table :: "(nat \<Rightarrow> nat) \<Rightarrow> int \<Rightarrow> nat \<Rightarrow> nat \<Rightarrow> dealer_table" where
  "new_dealer_table draws i n decks =
     bj_table.extend (new_bj_table i n)
       (dealer_table.fields (FillShoe draws decks) True [ST_None] [None] 0 0 [])"

type_synonym 'a table_act = "(dealer_table, 'a) act"

subsection \<open>Vectors, the shoe and replies\<close>

definition nth_checked :: "'b list \<Rightarrow> nat \<Rightarrow> ('w, 'b) act" where
  "nth_checked xs i = (if i < length xs then retA (xs ! i) else failA (Undefined Out_Of_Range))"

definition get_player :: "nat \<Rightarrow> player table_act" where
  "get_player i = bindA (readA players) (\<lambda>ps. nth_checked ps i)"

definition update_player :: "nat \<Rightarrow> (player \<Rightarrow> player) \<Rightarrow> unit table_act" where
  "update_player i f =
     bindA (get_player i) (\<lambda>p. modifyA (\<lambda>t. t\<lparr>players := (players t)[i := f p]\<rparr>))"

definition update_hand :: "nat \<Rightarrow> (bj_hand \<Rightarrow> bj_hand) \<Rightarrow> unit table_act" where
  "update_hand i f = update_player i (\<lambda>p. p\<lparr>hand := f (hand p)\<rparr>)"

text \<open>\<open>m_shoe.front()\<close> and \<open>m_shoe.pop()\<close>; an empty queue has no front.\<close>

definition take_card :: "card table_act" where
  "take_card =
     bindA (readA m_shoe) (\<lambda>shoe.
       case shoe of [] \<Rightarrow> failA (Undefined Out_Of_Range)
       | c # cs \<Rightarrow> thenA (modifyA (\<lambda>t. t\<lparr>m_shoe := cs\<rparr>)) (retA c))"

definition send :: "nat \<Rightarrow> nat \<Rightarrow> reply_body \<Rightarrow> unit table_act" where
  "send m code body = modifyA (\<lambda>t. t\<lparr>replies := replies t @ [(m, code, body)]\<rparr>)"

definition send_table :: "nat \<Rightarrow> BJStatus \<Rightarrow> unit table_act" where
  "send_table m status =
     bindA (readA bj_table.truncate) (\<lambda>t. send m 200 (Put_Response status t))"

definition set_response :: "nat \<Rightarrow> nat option \<Rightarrow> unit table_act" where
  "set_response i r =
     bindA (readA m_responses) (\<lambda>rs.
     bindA (nth_checked rs i) (\<lambda>_. modifyA (\<lambda>t. t\<lparr>m_responses := rs[i := r]\<rparr>)))"

definition set_pending :: "nat \<Rightarrow> BJStatus \<Rightarrow> unit table_act" where
  "set_pending i status =
     bindA (readA m_pendingrefresh) (\<lambda>ps.
     bindA (nth_checked ps i) (\<lambda>_. modifyA (\<lambda>t. t\<lparr>m_pendingrefresh := ps[i := status]\<rparr>)))"

text \<open>\<open>m_responses[i]->reply(...); m_responses[i].reset();\<close>\<close>

definition answer :: "nat \<Rightarrow> BJStatus \<Rightarrow> unit table_act" where
  "answer i status =
     bindA (readA m_responses) (\<lambda>rs.
     bindA (nth_checked rs i) (\<lambda>r.
     bindA (deref r) (\<lambda>m. thenA (send_table m status) (set_response i None))))"

text \<open>The same when a request is waiting, else a note for the player's next request.\<close>

definition inform_player :: "nat \<Rightarrow> BJStatus \<Rightarrow> unit table_act" where
  "inform_player i status =
     bindA (readA m_responses) (\<lambda>rs.
     bindA (nth_checked rs i) (\<lambda>r.
       if r \<noteq> None then answer i status else set_pending i status))"

fun for_each :: "nat list \<Rightarrow> (nat \<Rightarrow> unit table_act) \<Rightarrow> unit table_act" where
  "for_each [] f = retA ()"
| "for_each (i # is) f = thenA (f i) (for_each is f)"

definition refresh_others :: "unit table_act" where
  "refresh_others =
     bindA (readA (\<lambda>t. (length (players t), m_currentPlayer t))) (\<lambda>(n, current).
       for_each [1..<n] (\<lambda>i. if i \<noteq> current then inform_player i ST_Refresh else retA ()))"

subsection \<open>Deal\<close>

definition deal_first :: "nat \<Rightarrow> unit table_act" where
  "deal_first i =
     thenA (update_hand i Clear) (
     bindA (get_player i) (\<lambda>p.
       if i = 0 \<or> bet (hand p) > 0
       then bindA take_card (\<lambda>c. update_hand i (\<lambda>h. h\<lparr>cards := cards h @ [c]\<rparr>))
       else retA ()))"

definition deal_second :: "nat \<Rightarrow> unit table_act" where
  "deal_second i =
     bindA (get_player i) (\<lambda>p.
       if i = 0 \<or> bet (hand p) > 0 then bindA take_card (\<lambda>c. update_hand i (AddCard c)) else retA ())"

definition set_current :: "nat \<Rightarrow> unit table_act" where
  "set_current i = modifyA (\<lambda>t. t\<lparr>m_currentPlayer := i\<rparr>)"

text \<open>The loop ends at the first player with a bet whose hand is active.\<close>

fun first_turn :: "nat list \<Rightarrow> unit table_act" where
  "first_turn [] = retA ()"
| "first_turn (i # is) =
     thenA (set_current i) (
     bindA (get_player i) (\<lambda>p.
       if bet (hand p) = 0 then first_turn is
       else if hand_state (hand p) = HR_Active then answer i ST_YourTurn
       else first_turn is))"

definition Deal :: "unit table_act" where
  "Deal =
     thenA (update_hand 0 (\<lambda>h. h\<lparr>revealBoth := False\<rparr>)) (
     thenA (modifyA (\<lambda>t. t\<lparr>m_currentPlayer := 0, m_betting := False\<rparr>)) (
     bindA (readA (\<lambda>t. length (players t))) (\<lambda>n.
     thenA (for_each [0..<n] deal_first) (
     thenA (for_each [0..<n] deal_second) (
     thenA (first_turn [1..<n]) refresh_others)))))"

subsection \<open>The dealer's turn and the pay-out\<close>

definition must_draw :: "NumericHandValues \<Rightarrow> bool" where
  "must_draw v \<longleftrightarrow> high v < 17 \<or> high v > 21 \<and> low v < 17"

text \<open>
  The loop of \<open>DealerDeal\<close> on the shoe, the dealer's hand and the value it last looked at;
  \<open>busted\<close> is \<open>Players[m_currentPlayer].Hand.state == HR_Busted\<close>.
\<close>

fun dealer_draws ::
    "(bj_hand \<Rightarrow> bool) \<Rightarrow> card list \<Rightarrow> bj_hand \<Rightarrow> NumericHandValues \<Rightarrow>
     (bj_hand \<times> NumericHandValues \<times> card list) outcome" where
  "dealer_draws busted [] h v =
     (if must_draw v then Inl (Undefined Out_Of_Range) else Inr (h, v, []))"
| "dealer_draws busted (c # shoe) h v =
     (if must_draw v
      then let h1 = AddCard c h
           in if hand_state h1 = HR_BlackJack \<or> busted h1 then Inr (h1, v, shoe)
              else dealer_draws busted shoe h1 (GetNumericValues h1)
      else Inr (h, v, c # shoe))"

text \<open>\<open>m_currentPlayer\<close> is 0 there, the dealer.\<close>

definition current_busted :: "dealer_table \<Rightarrow> bj_hand \<Rightarrow> bool" where
  "current_busted t h \<longleftrightarrow>
     hand_state (if m_currentPlayer t = 0 then h else hand (players t ! m_currentPlayer t)) = HR_Busted"

definition round_result :: "bj_hand \<Rightarrow> NumericHandValues \<Rightarrow> bj_hand \<Rightarrow> BJHandResult" where
  "round_result dealer handValue h =
     (if bet h = 0 then HR_None
      else if hand_state h = HR_Busted then HR_ComputerWin
      else if hand_state h = HR_BlackJack
        then if hand_state dealer = HR_BlackJack then HR_Push else HR_PlayerBlackJack
      else if hand_state dealer = HR_Busted then HR_PlayerWin
      else if hand_state dealer = HR_BlackJack then HR_ComputerWin
      else let value = Best (GetNumericValues h)
           in if value < Best handValue then HR_ComputerWin
              else if value = Best handValue then HR_Push else HR_PlayerWin)"

text \<open>
  The insurance is paid when the dealer's state equals \<open>HR_PlayerBlackJack\<close>, an enumerator of the
  results with the number of \<open>HR_BlackJack\<close>.
\<close>

definition settle :: "bj_hand \<Rightarrow> player \<Rightarrow> player" where
  "settle dealer p =
     (let b = bet (hand p);
          p1 = (case hand_result (hand p) of
                  HR_PlayerWin \<Rightarrow> p\<lparr>balance := balance p + b * 2, hand := (hand p)\<lparr>bet := 0\<rparr>\<rparr>
                | HR_ComputerWin \<Rightarrow> p\<lparr>hand := (hand p)\<lparr>bet := 0\<rparr>\<rparr>
                | HR_PlayerBlackJack \<Rightarrow> p\<lparr>balance := balance p + b * (5 / 2), hand := (hand p)\<lparr>bet := 0\<rparr>\<rparr>
                | HR_Push \<Rightarrow> p\<lparr>balance := balance p + b, hand := (hand p)\<lparr>bet := 0\<rparr>\<rparr>
                | HR_None \<Rightarrow> p);
          i = insurance (hand p1);
          p2 = (if i > 0 \<and> state_code (hand_state dealer) = result_code HR_PlayerBlackJack
                then p1\<lparr>balance := balance p1 + i * 3\<rparr> else p1)
      in p2\<lparr>hand := (hand p2)\<lparr>insurance := 0\<rparr>\<rparr>)"

definition PayUp :: "nat \<Rightarrow> unit table_act" where
  "PayUp i =
     bindA (get_player 0) (\<lambda>dealer.
     thenA (update_player i (settle (hand dealer))) (inform_player i ST_PlaceBet))"

definition dealer_turn :: "(bj_hand \<times> NumericHandValues) table_act" where
  "dealer_turn =
     thenA (update_hand 0 (\<lambda>h. h\<lparr>revealBoth := True\<rparr>)) (
     bindA (get_player 0) (\<lambda>dealer.
     bindA (readA (\<lambda>t. dealer_draws (current_busted t) (m_shoe t) (hand dealer) (GetNumericValues (hand dealer))))
       (\<lambda>drawn.
     bindA (liftA drawn) (\<lambda>(h, handValue, rest).
     thenA (update_hand 0 (\<lambda>_. h)) (
     thenA (modifyA (\<lambda>t. t\<lparr>m_shoe := rest\<rparr>)) (retA (h, handValue)))))))"

definition settle_round :: "bj_hand \<Rightarrow> NumericHandValues \<Rightarrow> unit table_act" where
  "settle_round h handValue =
     bindA (readA (\<lambda>t. length (players t))) (\<lambda>n.
     thenA (for_each [1..<n] (\<lambda>i. update_hand i (\<lambda>g. g\<lparr>hand_result := round_result h handValue g\<rparr>))) (
     thenA (modifyA (\<lambda>t. t\<lparr>m_betting := True\<rparr>)) (
     thenA (for_each [1..<n] PayUp)
       (modifyA (\<lambda>t. t\<lparr>m_betsMade := 0\<rparr>)))))"

definition DealerDeal :: "unit table_act" where
  "DealerDeal = bindA dealer_turn (\<lambda>(h, handValue). settle_round h handValue)"

subsection \<open>The requests of the players\<close>

definition QUERY_NAME :: cstring where "QUERY_NAME = ''name''"
definition AMOUNT :: cstring where "AMOUNT = ''amount''"

text \<open>
  \<open>std::istringstream ss(s); int amount; ss >> amount;\<close>: a text without a number gives 0, a number
  out of range the nearest bound, and from a text with nothing but white space nothing is
  extracted, \<open>amount\<close> keeps its indeterminate value.
\<close>

definition extract_int :: "cstring \<Rightarrow> int option" where
  "extract_int s =
     (if list_all is_space s then None
      else Some (max (- (2 ^ 31)) (min (2 ^ 31 - 1) (strtol_value s))))"

definition amount_of :: "cstring \<Rightarrow> real table_act" where
  "amount_of s =
     (case extract_int s of None \<Rightarrow> failA (Undefined Indeterminate_Value)
      | Some a \<Rightarrow> retA (real_of_int a))"

text \<open>\<open>FindPlayer\<close>; \<open>None\<close> is -1.\<close>

fun find_player :: "cstring \<Rightarrow> player list \<Rightarrow> nat option" where
  "find_player name [] = None"
| "find_player name (p # ps) =
     (if player_name p = name then Some 0 else map_option Suc (find_player name ps))"

text \<open>The loop of \<open>NextPlayer\<close>: the player it stops at, or \<open>n\<close>.\<close>

fun find_turn :: "nat \<Rightarrow> nat list \<Rightarrow> nat table_act" where
  "find_turn n [] = retA n"
| "find_turn n (i # is) =
     bindA (get_player i) (\<lambda>p.
       if bet (hand p) > 0 \<and> hand_state (hand p) = HR_Active
       then thenA (answer i ST_YourTurn) (retA i)
       else find_turn n is)"

definition NextPlayer :: "unit table_act" where
  "NextPlayer =
     bindA (readA (\<lambda>t. (m_currentPlayer t, length (players t)))) (\<lambda>(current, n).
     bindA (find_turn (max n (current + 1)) [current + 1..<n]) (\<lambda>i.
       let current1 = (if i = n then 0 else i)
       in thenA (set_current current1) (if current1 = 0 then DealerDeal else retA ())))"

definition Stay :: "http_message \<Rightarrow> unit table_act" where
  "Stay m =
     bindA (readA m_currentPlayer) (\<lambda>current.
       if current = 0 then retA ()
       else bindA (get_player current) (\<lambda>p.
            thenA (if hand_state (hand p) = HR_Active
                   then update_hand current (\<lambda>h. h\<lparr>hand_state := HR_Held\<rparr>) else retA ()) (
            thenA (send_table (msg_id m) ST_Refresh) NextPlayer)))"

definition Hit :: "http_message \<Rightarrow> unit table_act" where
  "Hit m =
     bindA take_card (\<lambda>c.
     bindA (readA m_currentPlayer) (\<lambda>current.
     thenA (update_hand current (AddCard c)) (
     bindA (get_player current) (\<lambda>p.
       if hand_state (hand p) = HR_BlackJack \<or> hand_state (hand p) = HR_Busted then Stay m
       else thenA (send_table (msg_id m) ST_YourTurn) refresh_others))))"

definition DoubleDown :: "http_message \<Rightarrow> unit table_act" where
  "DoubleDown m =
     bindA (readA m_currentPlayer) (\<lambda>current.
       if current = 0 then send (msg_id m) 403 (Body_Text ''Not your turn'')
       else bindA (get_player current) (\<lambda>p.
         if hand_state (hand p) \<noteq> HR_Active then send (msg_id m) 403 (Body_Text ''Not your turn'')
         else if balance p < bet (hand p) then send (msg_id m) 403 (Body_Text ''Not enough money'')
         else if length (cards (hand p)) > 2 then send (msg_id m) 403 (Body_Text ''Too many cards'')
         else
           thenA (update_player current (\<lambda>p. p\<lparr>balance := balance p - bet (hand p),
                    hand := (hand p)\<lparr>bet := bet (hand p) * 2\<rparr>\<rparr>)) (
           bindA take_card (\<lambda>c. thenA (update_hand current (AddCard c)) (Stay m)))))"

definition Wait :: "http_message \<Rightarrow> unit table_act" where
  "Wait m =
     (case msg_query m QUERY_NAME of
        None \<Rightarrow> send (msg_id m) 403 (Body_Text ''name and amount are required in query'')
      | Some name \<Rightarrow>
          bindA (readA (\<lambda>t. (find_player name (players t), m_pendingrefresh t))) (\<lambda>(idx, pending).
            case idx of None \<Rightarrow> retA ()
            | Some i \<Rightarrow>
                if i = 0 then retA ()
                else bindA (nth_checked pending i) (\<lambda>status.
                  if status \<noteq> ST_None
                  then thenA (send_table (msg_id m) status) (set_pending i ST_None)
                  else set_response i (Some (msg_id m)))))"

definition place_bet :: "real \<Rightarrow> player \<Rightarrow> player" where
  "place_bet a p = p\<lparr>balance := balance p - a, hand := (hand p)\<lparr>bet := bet (hand p) + a\<rparr>\<rparr>"

text \<open>The end of \<open>Bet\<close>: the last bet deals.\<close>

definition bet_tail :: "unit table_act" where
  "bet_tail =
     bindA (readA (\<lambda>t. m_betsMade t = int (length (players t)) - 1)) (\<lambda>last.
     thenA (if last then Deal else retA ()) (
     bindA (readA (\<lambda>t. m_currentPlayer t = length (players t))) (\<lambda>past.
       if past then thenA (set_current 0) DealerDeal else retA ())))"

text \<open>The index -1 is outside every vector.\<close>

definition Bet :: "http_message \<Rightarrow> unit table_act" where
  "Bet m =
     (case (msg_query m AMOUNT, msg_query m QUERY_NAME) of
        (Some a, Some name) \<Rightarrow>
          bindA (readA (\<lambda>t. find_player name (players t))) (\<lambda>idx.
          thenA (case idx of None \<Rightarrow> retA ()
                 | Some i \<Rightarrow> if i = 0 then retA ()
                     else bindA (amount_of a) (\<lambda>amount. update_player i (place_bet amount))) (
          thenA (modifyA (\<lambda>t. t\<lparr>m_betsMade := m_betsMade t + 1\<rparr>)) (
          thenA (case idx of None \<Rightarrow> failA (Undefined Out_Of_Range)
                 | Some i \<Rightarrow> set_response i (Some (msg_id m))) (
          bet_tail))))
      | _ \<Rightarrow> send (msg_id m) 403 (Body_Text ''name and amount are required in query''))"

definition place_insurance :: "real \<Rightarrow> player \<Rightarrow> player" where
  "place_insurance a p =
     p\<lparr>balance := balance p - a, hand := (hand p)\<lparr>insurance := insurance (hand p) + a\<rparr>\<rparr>"

definition Insure :: "http_message \<Rightarrow> unit table_act" where
  "Insure m =
     (case (msg_query m AMOUNT, msg_query m QUERY_NAME) of
        (Some a, Some name) \<Rightarrow>
          bindA (readA (\<lambda>t. find_player name (players t))) (\<lambda>idx.
            case idx of None \<Rightarrow> send_table (msg_id m) ST_YourTurn
            | Some i \<Rightarrow>
                if i = 0 then send_table (msg_id m) ST_YourTurn
                else bindA (get_player 0) (\<lambda>dealer. bindA (get_player i) (\<lambda>p.
                  if insurance (hand p) > 0 then send (msg_id m) 403 (Body_Text ''Already insured'')
                  else if cards (hand dealer) = [] \<or> revealBoth (hand dealer) \<or>
                          card_value (hd (cards (hand dealer))) \<noteq> CV_Ace
                  then send (msg_id m) 403 (Body_Text ''Dealer is not showing an Ace'')
                  else bindA (amount_of a) (\<lambda>amount.
                       thenA (update_player i (place_insurance amount))
                         (send_table (msg_id m) ST_YourTurn)))))
      | _ \<Rightarrow> send (msg_id m) 403 (Body_Text ''name and amount are required in query''))"

definition AddPlayer :: "player \<Rightarrow> bool table_act" where
  "AddPlayer p =
     bindA (readA (\<lambda>t. find_player (player_name p) (players t))) (\<lambda>idx.
       if idx \<noteq> None \<and> idx \<noteq> Some 0 then retA False
       else thenA (modifyA (\<lambda>t. t\<lparr>players := players t @ [p], m_responses := m_responses t @ [None],
              m_pendingrefresh := m_pendingrefresh t @ [ST_None]\<rparr>)) (retA True))"

text \<open>\<open>v.erase(it)\<close>; the iterators of the three vectors move together.\<close>

definition erase_at :: "nat \<Rightarrow> 'b list \<Rightarrow> 'b list" where
  "erase_at i xs = take i xs @ drop (Suc i) xs"

definition RemovePlayer :: "cstring \<Rightarrow> bool table_act" where
  "RemovePlayer name =
     bindA (readA (\<lambda>t. find_player name (players t))) (\<lambda>idx.
       case idx of None \<Rightarrow> retA False
       | Some i \<Rightarrow>
           bindA (readA m_responses) (\<lambda>rs. bindA (nth_checked rs i) (\<lambda>_.
           bindA (readA m_pendingrefresh) (\<lambda>ps. bindA (nth_checked ps i) (\<lambda>_.
           thenA (modifyA (\<lambda>t. t\<lparr>players := erase_at i (players t), m_responses := erase_at i rs,
                    m_pendingrefresh := erase_at i ps\<rparr>)) (retA True))))))"

end
