(* ===== verification/Game_Play.thy ===== *)
theory Game_Play
  imports Game_Table "HOL-Library.Multiset"
begin

section \<open>The card game: what a table keeps\<close>

text \<open>
  The shoe is a permutation of the decks; the invariant of a table and the operations that keep
  it; the dealer's turn; the pay-out against the rules of the game.
\<close>

subsection \<open>The shoe\<close>

lemma mset_swap_at:
  "i < length xs \<Longrightarrow> j < length xs \<Longrightarrow> mset (swap_at i j xs) = mset xs"
  unfolding swap_at_def by (rule mset_swap)

lemma length_swap_at: "length (swap_at i j xs) = length xs"
  by (simp add: swap_at_def)

lemma mset_swaps:
  assumes "\<And>k. draws k < length xs" and "list_all (\<lambda>i. i < length xs) is"
  shows "mset (fold (\<lambda>i. swap_at i (draws (k + i))) is xs) = mset xs \<and>
    length (fold (\<lambda>i. swap_at i (draws (k + i))) is xs) = length xs"
  using assms by (induction "is" arbitrary: xs) (simp_all add: mset_swap_at length_swap_at)

lemma mset_shuffle_from:
  assumes "\<And>k. draws k < n" and "length xs = n"
  shows "mset (shuffle_from draws n r k xs) = mset xs"
  using assms(2)
proof (induction r arbitrary: k xs)
  case (Suc r)
  with mset_swaps [of draws xs "[0..<n]" k] assms(1) show ?case
    by (simp add: list_all_iff)
qed simp

lemma length_stacked: "length (stacked decks) = decks * 52"
  by (induction decks) (simp_all add: stacked_def deck_def upto.simps)

lemma mset_stacked: "mset (map card_of (stacked decks)) = repeat_mset decks (mset (map card_of deck))"
  by (induction decks) (simp_all add: stacked_def)

definition standard_card :: "card \<Rightarrow> bool" where
  "standard_card c \<longleftrightarrow> 0 \<le> card_suit c \<and> card_suit c \<le> 3 \<and> 1 \<le> card_value c \<and> card_value c \<le> 13"

lemma deck_cards: "map card_of deck =
   concat (map (\<lambda>s. map (\<lambda>v. \<lparr>card_suit = s, card_value = v\<rparr>) [1..13]) [0..3])"
  by (simp add: deck_def card_of_def upto.simps)

lemma count_deck: "count (mset (map card_of deck)) c = (if standard_card c then 1 else 0)"
proof -
  have "distinct (map card_of deck)"
    unfolding deck_cards by (simp add: upto.simps)
  moreover have "c \<in> set (map card_of deck) \<longleftrightarrow> standard_card c"
  proof -
    have "c \<in> set (map card_of deck) \<longleftrightarrow>
      (\<exists>s \<in> {0..3}. \<exists>v \<in> {1..13}. c = \<lparr>card_suit = s, card_value = v\<rparr>)"
      unfolding deck_cards by auto
    then show ?thesis by (cases c) (auto simp: standard_card_def)
  qed
  ultimately show ?thesis by (simp only: distinct_count_atmost_1)
qed

lemma mset_FillShoe:
  assumes "\<And>k. draws k < decks * 52"
  shows "mset (FillShoe draws decks) = repeat_mset decks (mset (map card_of deck))"
proof -
  have "mset (FillShoe draws decks) = image_mset card_of (mset (stacked decks))"
    unfolding FillShoe_def mset_map
    by (subst mset_shuffle_from [OF assms length_stacked]) simp
  then show ?thesis using mset_stacked [of decks] by simp
qed

lemma FillShoe_playing:
  assumes "\<And>k. draws k < decks * 52"
  shows "list_all playing_card (FillShoe draws decks)"
proof -
  have "playing_card c" if "c \<in># mset (FillShoe draws decks)" for c
  proof -
    from that have "count (repeat_mset decks (mset (map card_of deck))) c \<noteq> 0"
      by (simp only: mset_FillShoe [OF assms] count_eq_zero_iff not_not)
    then have "count (mset (map card_of deck)) c \<noteq> 0" by (simp only: count_repeat_mset) simp
    then have "standard_card c" unfolding count_deck by (simp split: if_splits)
    then show ?thesis by (simp add: standard_card_def playing_card_def)
  qed
  then show ?thesis by (simp add: list_all_iff)
qed

text \<open>
  Whatever numbers are drawn, the shoe holds every card of a deck of 52 exactly once per
  deck, and nothing else.
\<close>

lemma FillShoe_cards:
  assumes "\<And>k. draws k < decks * 52"
  shows "count (mset (FillShoe draws decks)) c = (if standard_card c then decks else 0)"
  by (simp only: mset_FillShoe [OF assms] count_repeat_mset count_deck) simp

subsection \<open>Operations that keep an invariant\<close>

text \<open>\<open>pres I m\<close>: run where \<open>I\<close> holds, the action \<open>m\<close> ends where \<open>I\<close> holds, or fails.\<close>

definition pres :: "('w \<Rightarrow> bool) \<Rightarrow> ('w, 'a) act \<Rightarrow> bool" where
  "pres I m \<longleftrightarrow> (\<forall>w. I w \<longrightarrow> wp m (\<lambda>_. I) (\<lambda>_ _. True) w)"

named_theorems pres_intros \<open>introduction rules for pres\<close>

lemma presI: "(\<And>w. I w \<Longrightarrow> wp m (\<lambda>_. I) (\<lambda>_ _. True) w) \<Longrightarrow> pres I m"
  by (simp add: pres_def)

lemma presD: "pres I m \<Longrightarrow> I w \<Longrightarrow> wp m (\<lambda>_. I) (\<lambda>_ _. True) w"
  by (simp add: pres_def)

lemma pres_bindA_from:
  assumes "\<And>w. I w \<Longrightarrow> wp m (\<lambda>a w'. I w' \<and> P a) (\<lambda>_ _. True) w"
    and "\<And>a. P a \<Longrightarrow> pres I (k a)"
  shows "pres I (bindA m k)"
proof (rule presI)
  fix w assume "I w"
  show "wp (bindA m k) (\<lambda>_. I) (\<lambda>_ _. True) w"
    unfolding wp_bindA by (rule wp_mono [OF assms(1) [OF \<open>I w\<close>]]) (auto dest: assms(2) presD)
qed

lemma pres_bindA [pres_intros]: "pres I m \<Longrightarrow> (\<And>a. pres I (k a)) \<Longrightarrow> pres I (bindA m k)"
  by (rule pres_bindA_from [where P = "\<lambda>_. True"]) (simp_all add: pres_def)

lemma pres_thenA [pres_intros]: "pres I m \<Longrightarrow> pres I k \<Longrightarrow> pres I (thenA m k)"
  unfolding thenA_def by (intro pres_intros)

lemma pres_simple [pres_intros]:
  "pres I (retA a)" "pres I (failA f)" "pres I (readA g)" "pres I (liftA r)"
  by (simp_all add: pres_def effect_simps split: sum.split)

lemma pres_modifyA: "(\<And>w. I w \<Longrightarrow> I (g w)) \<Longrightarrow> pres I (modifyA g)"
  by (simp add: pres_def effect_simps)

lemma pres_deref [pres_intros]: "pres I (deref p)"
  by (simp add: pres_def effect_simps split: option.split)

lemma pres_nth_checked [pres_intros]: "pres I (nth_checked xs i)"
  by (simp add: nth_checked_def pres_intros)

lemma pres_if [pres_intros]: "(b \<Longrightarrow> pres I m) \<Longrightarrow> (\<not> b \<Longrightarrow> pres I n) \<Longrightarrow> pres I (if b then m else n)"
  by simp

lemma pres_case_option [pres_intros]:
  "(x = None \<Longrightarrow> pres I m) \<Longrightarrow> (\<And>y. x = Some y \<Longrightarrow> pres I (n y)) \<Longrightarrow>
     pres I (case x of None \<Rightarrow> m | Some y \<Rightarrow> n y)"
  by (cases x) auto

lemma pres_case_prod [pres_intros]: "(\<And>a b. pres I (f a b)) \<Longrightarrow> pres I (case x of (a, b) \<Rightarrow> f a b)"
  by (cases x) simp

lemma pres_for_each [pres_intros]: "(\<And>i. i \<in> set is \<Longrightarrow> pres I (f i)) \<Longrightarrow> pres I (for_each is f)"
  by (induction "is") (simp_all add: pres_intros)

subsection \<open>The invariant of a table\<close>

text \<open>
  A hand is busted when it counts more than 21 with every ace as 1, and a black jack has two
  cards worth 21.
\<close>

definition hand_ok :: "bj_hand \<Rightarrow> bool" where
  "hand_ok h \<longleftrightarrow> list_all playing_card (cards h) \<and>
     (hand_state h = HR_Busted \<longleftrightarrow> 21 < points (cards h)) \<and>
     (hand_state h = HR_BlackJack \<longrightarrow> length (cards h) = 2 \<and> best_total (cards h) = 21)"

definition players_ok :: "player list \<Rightarrow> bool" where
  "players_ok ps \<longleftrightarrow> list_all (\<lambda>p. hand_ok (hand p)) ps"

definition table_ok :: "nat \<Rightarrow> dealer_table \<Rightarrow> bool" where
  "table_ok n t \<longleftrightarrow> length (players t) = n \<and> length (m_responses t) = n \<and> length (m_pendingrefresh t) = n \<and>
     m_currentPlayer t < n \<and> list_all playing_card (m_shoe t) \<and> players_ok (players t)"

lemma best_total_points:
  "list_all playing_card cs \<Longrightarrow> best_total cs = (if has_ace cs \<and> points cs + 10 < 22 then points cs + 10 else points cs)"
  unfolding best_total_def totals_aces
  by (simp only: best_of_totals [OF points_aces] has_ace_aces)

lemma hand_ok_AddCard:
  assumes "playing_card c" and "list_all playing_card (cards h)"
  shows "hand_ok (AddCard c h)"
  using assms by (auto simp: hand_ok_def AddCard_def Let_def numeric_values best_total_points)

lemma hand_ok_AddCard': "playing_card c \<Longrightarrow> hand_ok h \<Longrightarrow> hand_ok (AddCard c h)"
  by (rule hand_ok_AddCard) (simp_all add: hand_ok_def)

lemma hand_ok_Clear: "hand_ok (Clear h)"
  by (simp add: hand_ok_def Clear_def points_def)

lemma hand_ok_simps [simp]:
  "hand_ok (h\<lparr>revealBoth := b\<rparr>) = hand_ok h" "hand_ok (h\<lparr>bet := x\<rparr>) = hand_ok h"
  "hand_ok (h\<lparr>insurance := x\<rparr>) = hand_ok h" "hand_ok (h\<lparr>hand_result := r\<rparr>) = hand_ok h"
  by (simp_all add: hand_ok_def)

lemma hand_ok_Held: "hand_ok h \<Longrightarrow> hand_state h = HR_Active \<Longrightarrow> hand_ok (h\<lparr>hand_state := HR_Held\<rparr>)"
  by (simp add: hand_ok_def)

lemma players_ok_update: "players_ok ps \<Longrightarrow> hand_ok (hand p) \<Longrightarrow> players_ok (ps[i := p])"
  by (auto simp: players_ok_def list_all_iff dest!: set_update_subset_insert [THEN subsetD])

lemma table_ok_update:
  "table_ok n t \<Longrightarrow> hand_ok (hand p) \<Longrightarrow> table_ok n (t\<lparr>players := (players t)[i := p]\<rparr>)"
  by (simp add: table_ok_def players_ok_update)

lemma wp_get_player [effect_simps]:
  "wp (get_player i) Q E t =
     (if i < length (players t) then Q (players t ! i) t else E (Undefined Out_Of_Range) t)"
  by (simp add: get_player_def nth_checked_def effect_simps)

lemma wp_update_player [effect_simps]:
  "wp (update_player i f) Q E t =
     (if i < length (players t) then Q () (t\<lparr>players := (players t)[i := f (players t ! i)]\<rparr>)
      else E (Undefined Out_Of_Range) t)"
  by (simp add: update_player_def effect_simps)

lemma players_ok_nth: "players_ok ps \<Longrightarrow> i < length ps \<Longrightarrow> hand_ok (hand (ps ! i))"
  by (simp add: players_ok_def list_all_length)

lemma pres_update_player [pres_intros]:
  "(\<And>p. hand_ok (hand p) \<Longrightarrow> hand_ok (hand (f p))) \<Longrightarrow> pres (table_ok n) (update_player i f)"
  by (rule presI) (auto simp: effect_simps table_ok_def intro!: players_ok_update players_ok_nth)

lemma pres_update_hand [pres_intros]:
  "(\<And>h. hand_ok h \<Longrightarrow> hand_ok (f h)) \<Longrightarrow> pres (table_ok n) (update_hand i f)"
  by (simp add: update_hand_def pres_intros)

lemma pres_get_player [pres_intros]: "pres I (get_player i)"
  by (simp add: get_player_def pres_intros)

lemma pres_send [pres_intros]: "pres (table_ok n) (send m c b)" "pres (table_ok n) (send_table m s)"
  by (rule presI, simp add: send_def send_table_def effect_simps table_ok_def)+

lemma pres_set_response [pres_intros]: "pres (table_ok n) (set_response i r)"
  by (rule presI) (simp add: set_response_def nth_checked_def effect_simps table_ok_def)

lemma pres_set_pending [pres_intros]: "pres (table_ok n) (set_pending i r)"
  by (rule presI) (simp add: set_pending_def nth_checked_def effect_simps table_ok_def)

lemma pres_answer [pres_intros]: "pres (table_ok n) (answer i s)"
  by (simp add: answer_def pres_intros)

lemma pres_inform_player [pres_intros]: "pres (table_ok n) (inform_player i s)"
  by (simp add: inform_player_def pres_intros)

lemma pres_refresh_others [pres_intros]: "pres (table_ok n) refresh_others"
  by (simp add: refresh_others_def pres_intros)

lemma wp_take_card [effect_simps]:
  "wp take_card Q E t =
     (case m_shoe t of [] \<Rightarrow> E (Undefined Out_Of_Range) t | c # cs \<Rightarrow> Q c (t\<lparr>m_shoe := cs\<rparr>))"
  by (simp add: take_card_def effect_simps split: list.split)

lemma pres_take_card:
  "(\<And>c. playing_card c \<Longrightarrow> pres (table_ok n) (k c)) \<Longrightarrow> pres (table_ok n) (bindA take_card k)"
  by (erule pres_bindA_from [rotated]) (auto simp: effect_simps table_ok_def split: list.split)

lemma pres_readA_from: "(\<And>w. I w \<Longrightarrow> pres I (k (g w))) \<Longrightarrow> pres I (bindA (readA g) k)"
  by (simp add: pres_def effect_simps)

lemma pres_set_current: "i < n \<Longrightarrow> pres (table_ok n) (set_current i)"
  unfolding set_current_def by (rule pres_modifyA) (simp add: table_ok_def)

text \<open>A player who leaves between two rounds leaves the table in order.\<close>

lemma find_player_length: "find_player name ps = Some i \<Longrightarrow> i < length ps"
  by (induction ps arbitrary: i) (auto split: if_splits)

lemma RemovePlayer_ok:
  assumes "table_ok n t" and "find_player name (players t) = Some i" and "0 < i" and "m_currentPlayer t = 0"
  shows "wp (RemovePlayer name) (\<lambda>removed t'. removed \<and> table_ok (n - 1) t') (\<lambda>_ _. False) t"
proof -
  have i: "i < length (players t)" by (rule find_player_length [OF assms(2)])
  have "set (erase_at i ps) \<subseteq> set ps" for ps :: "player list"
    by (auto simp: erase_at_def dest: in_set_takeD in_set_dropD)
  then have "players_ok (erase_at i (players t))"
    using assms(1) unfolding table_ok_def players_ok_def list_all_iff by blast
  with assms i show ?thesis
    by (auto simp: RemovePlayer_def effect_simps nth_checked_def table_ok_def erase_at_def)
qed

subsection \<open>The dealer's turn\<close>

lemma dealer_draws_ok:
  assumes "dealer_draws b shoe h v = Inr (h1, v1, rest)" and "hand_ok h" and "list_all playing_card shoe"
  shows "hand_ok h1 \<and> list_all playing_card rest"
  using assms
proof (induction b shoe h v rule: dealer_draws.induct)
  case (2 b c shoe h v)
  from 2(3,4) have "hand_ok (AddCard c h)"
    by (intro hand_ok_AddCard) (simp_all add: hand_ok_def)
  with 2 show ?case by (auto simp: Let_def split: if_splits)
qed (auto split: if_splits)

lemma pres_PayUp [pres_intros]: "pres (table_ok n) (PayUp i)"
  by (auto simp: PayUp_def settle_def Let_def split: BJHandResult.split intro!: pres_intros)

lemma wp_update_hand [effect_simps]:
  "wp (update_hand i f) Q E t =
     (if i < length (players t)
      then Q () (t\<lparr>players := (players t)[i := (players t ! i)\<lparr>hand := f (hand (players t ! i))\<rparr>]\<rparr>)
      else E (Undefined Out_Of_Range) t)"
  by (simp add: update_hand_def effect_simps)

lemma pres_dealer_turn [pres_intros]: "pres (table_ok n) dealer_turn"
proof (rule presI)
  fix t assume t: "table_ok n t"
  then have "0 < length (players t)" by (auto simp: table_ok_def)
  with t show "wp dealer_turn (\<lambda>_. table_ok n) (\<lambda>_ _. True) t"
    by (auto simp: dealer_turn_def effect_simps table_ok_def dest!: dealer_draws_ok
        split: sum.split intro!: players_ok_update players_ok_nth)
qed

lemma pres_m_simple [pres_intros]:
  "pres (table_ok n) (modifyA (\<lambda>t. t\<lparr>m_betting := b\<rparr>))"
  "pres (table_ok n) (modifyA (\<lambda>t. t\<lparr>m_betsMade := k\<rparr>))"
  "pres (table_ok n) (modifyA (\<lambda>t. t\<lparr>m_betsMade := m_betsMade t + k\<rparr>))"
  by (rule pres_modifyA, simp add: table_ok_def)+

lemma pres_DealerDeal [pres_intros]: "pres (table_ok n) DealerDeal"
  by (auto simp: DealerDeal_def settle_round_def intro!: pres_intros)

subsection \<open>Every request keeps it\<close>

lemma pres_deal_first: "i < n \<Longrightarrow> pres (table_ok n) (deal_first i)"
  by (rule presI)
    (auto simp: deal_first_def effect_simps table_ok_def hand_ok_Clear split: list.split
      intro!: players_ok_update, auto simp: hand_ok_def Clear_def points_def playing_card_def)

lemma pres_deal_second [pres_intros]: "pres (table_ok n) (deal_second i)"
  by (auto simp: deal_second_def hand_ok_AddCard' intro!: pres_intros pres_take_card)

lemma pres_first_turn: "list_all (\<lambda>i. i < n) is \<Longrightarrow> pres (table_ok n) (first_turn is)"
  by (induction "is") (auto intro!: pres_intros pres_set_current)

lemma pres_Deal [pres_intros]: "pres (table_ok n) Deal"
  unfolding Deal_def
  by (intro pres_intros pres_readA_from pres_deal_first pres_first_turn)
    (auto intro!: pres_modifyA simp: table_ok_def list_all_iff)

lemma pres_find_turn_from:
  assumes "n = m \<or> list_all (\<lambda>i. i < n) is" and "list_all (\<lambda>i. i < n) is" and "table_ok n t"
  shows "wp (find_turn m is) (\<lambda>i t'. table_ok n t' \<and> (i < n \<or> i = m)) (\<lambda>_ _. True) t"
  using assms(2,3)
proof (induction "is" arbitrary: t)
  case (Cons i "is")
  have "wp (answer i ST_YourTurn) (\<lambda>_. table_ok n) (\<lambda>_ _. True) t"
    by (rule presD [OF pres_answer Cons.prems(2)])
  with Cons show ?case by (auto simp: effect_simps)
qed (simp add: effect_simps)

lemma pres_NextPlayer [pres_intros]: "pres (table_ok n) NextPlayer"
proof (rule presI)
  fix t assume t: "table_ok n t"
  define c where "c = m_currentPlayer t"
  from t have c: "c < n" and n: "length (players t) = n" by (auto simp: table_ok_def c_def)
  have "wp (find_turn (max n (c + 1)) [c + 1..<n]) (\<lambda>i t'. table_ok n t' \<and> (i < n \<or> i = n)) (\<lambda>_ _. True) t"
    using pres_find_turn_from [of n "max n (c + 1)" "[c + 1..<n]" t] c t
    by (simp add: list_all_iff max_absorb1 Suc_le_eq del: upt_Suc)
  then have "wp (find_turn (max n (c + 1)) [c + 1..<n])
      (\<lambda>i. wp (let current1 = (if i = n then 0 else i)
         in thenA (set_current current1) (if current1 = 0 then DealerDeal else retA ()))
        (\<lambda>_. table_ok n) (\<lambda>_ _. True)) (\<lambda>_ _. True) t"
    by (rule wp_mono)
      (auto simp: Let_def intro!: presD [OF pres_thenA] pres_intros pres_set_current, use c in auto)
  then show "wp NextPlayer (\<lambda>_. table_ok n) (\<lambda>_ _. True) t"
    by (simp add: NextPlayer_def effect_simps n c_def)
qed

lemma pres_Stay [pres_intros]: "pres (table_ok n) (Stay m)"
proof (rule presI)
  fix t assume t: "table_ok n t"
  have *: "pres (table_ok n) (thenA (send_table (msg_id m) ST_Refresh) NextPlayer)"
    by (intro pres_intros)
  define i where "i = m_currentPlayer t"
  from t have i: "i < length (players t)" by (simp add: table_ok_def i_def)
  let ?p = "players t ! i"
  have "hand_ok (hand ?p)" using t by (intro players_ok_nth i) (simp add: table_ok_def)
  then have "hand_state (hand ?p) = HR_Active \<Longrightarrow>
      table_ok n (t\<lparr>players := (players t)[i := ?p\<lparr>hand := (hand ?p)\<lparr>hand_state := HR_Held\<rparr>\<rparr>]\<rparr>)"
    using t by (simp add: table_ok_update hand_ok_Held)
  from presD [OF * this] presD [OF * t] show "wp (Stay m) (\<lambda>_. table_ok n) (\<lambda>_ _. True) t"
    using i t by (auto simp: Stay_def wp_bindA wp_readA wp_retA wp_get_player wp_update_hand thenA_retA
        wp_thenA [where k = "thenA k l" for k l] simp flip: i_def)
qed

lemma pres_Hit [pres_intros]: "pres (table_ok n) (Hit m)"
  by (auto simp: Hit_def hand_ok_AddCard' intro!: pres_intros pres_take_card)

lemma pres_DoubleDown [pres_intros]: "pres (table_ok n) (DoubleDown m)"
  by (auto simp: DoubleDown_def hand_ok_AddCard' intro!: pres_intros pres_take_card)

lemma pres_amount_of [pres_intros]: "pres I (amount_of s)"
  by (auto simp: amount_of_def intro!: pres_intros)

lemma pres_Bet [pres_intros]: "pres (table_ok n) (Bet m)"
proof -
  have "0 < n" if "table_ok n t" for t using that by (auto simp: table_ok_def)
  then show ?thesis
    by (auto simp: Bet_def bet_tail_def place_bet_def split: option.split
        intro!: pres_intros pres_readA_from pres_set_current)
qed

lemma pres_Insure [pres_intros]: "pres (table_ok n) (Insure m)"
  by (auto simp: Insure_def place_insurance_def intro!: pres_intros split: option.split)

lemma pres_Wait [pres_intros]: "pres (table_ok n) (Wait m)"
  by (auto simp: Wait_def intro!: pres_intros split: option.split)

subsection \<open>The round against the rules\<close>

text \<open>
  What the rules pay a player whose stake was taken when it was placed: nothing to a busted hand,
  two and a half times the stake for a black jack, the stake back for a tie, twice the stake for
  more than the dealer has; and three times the insurance when the dealer has a black jack.
\<close>

definition stake_payoff :: "bj_hand \<Rightarrow> bj_hand \<Rightarrow> real" where
  "stake_payoff d h =
     (if hand_state h = HR_Busted then 0
      else if hand_state h = HR_BlackJack then (if hand_state d = HR_BlackJack then 1 else 5 / 2) * bet h
      else if hand_state d = HR_Busted then 2 * bet h
      else if hand_state d = HR_BlackJack then 0
      else if best_total (cards h) < best_total (cards d) then 0
      else if best_total (cards h) = best_total (cards d) then bet h
      else 2 * bet h)"

definition rules_payoff :: "bj_hand \<Rightarrow> bj_hand \<Rightarrow> real" where
  "rules_payoff d h =
     stake_payoff d h + (if hand_state d = HR_BlackJack then 3 * max 0 (insurance h) else 0)"

lemma dealer_black_jack: "state_code s = 1 \<longleftrightarrow> s = HR_BlackJack"
  by (cases s) simp_all

lemma settle_payoff:
  assumes "hand_ok (hand p)" and "hand_ok d" and "hand_state d \<noteq> HR_Busted \<Longrightarrow> v = GetNumericValues d"
  defines "p' \<equiv> settle d (p\<lparr>hand := (hand p)\<lparr>hand_result := round_result d v (hand p)\<rparr>\<rparr>)"
  shows "bet (hand p') = 0 \<and> insurance (hand p') = 0 \<and> balance p' = balance p + rules_payoff d (hand p)"
proof -
  have "list_all playing_card (cards (hand p))" "list_all playing_card (cards d)"
    using assms(1,2) by (simp_all add: hand_ok_def)
  note Best_numeric [OF this(1)] Best_numeric [OF this(2)]
  with assms(3) show ?thesis
    by (auto simp: p'_def settle_def round_result_def rules_payoff_def stake_payoff_def
        dealer_black_jack Let_def max_def)
qed

lemma must_draw_points: "must_draw (GetNumericValues h) \<longleftrightarrow>
    (if has_ace (cards h) then points (cards h) < 7 \<or> 11 < points (cards h) \<and> points (cards h) < 17
     else points (cards h) < 17)"
  by (auto simp: must_draw_def numeric_values)

lemma cards_AddCard: "cards (AddCard c h) = cards h @ [c]"
  by (simp add: AddCard_def Let_def)

lemma points_append: "points (cs @ ds) = points cs + points ds"
  by (simp add: points_def)

lemma stands_best:
  assumes "hand_ok h" and "\<not> must_draw (GetNumericValues h)" and "hand_state h \<noteq> HR_Busted"
  shows "17 \<le> best_total (cards h) \<and> best_total (cards h) \<le> 21"
  using assms by (auto simp: must_draw_points hand_ok_def best_total_points split: if_splits)

lemma dealer_draws_result:
  assumes "dealer_draws (\<lambda>g. hand_state g = HR_Busted) shoe h (GetNumericValues h) = Inr (h1, v1, rest)"
    and "hand_ok h" and "list_all playing_card shoe" and "2 \<le> length (cards h)"
  shows "(hand_state h1 \<noteq> HR_Busted \<longrightarrow>
        v1 = GetNumericValues h1 \<and> 17 \<le> best_total (cards h1) \<and> best_total (cards h1) \<le> 21) \<and>
     (\<exists>drawn. cards h1 = cards h @ drawn \<and> shoe = drawn @ rest)"
  using assms
proof (induction shoe arbitrary: h)
  case Nil
  then show ?case using stands_best [of h] by (auto split: if_splits)
next
  case (Cons c shoe)
  show ?case
  proof (cases "must_draw (GetNumericValues h)")
    case False
    then show ?thesis using Cons.prems stands_best [of h] by auto
  next
    case True
    have ok: "hand_ok (AddCard c h)" using Cons.prems(2,3) by (simp add: hand_ok_AddCard')
    have "hand_state (AddCard c h) \<noteq> HR_BlackJack"
      using Cons.prems(4) by (simp add: AddCard_def Let_def)
    then show ?thesis
      using True Cons.prems ok Cons.IH [of "AddCard c h"]
      by (auto simp: Let_def cards_AddCard split: if_splits)
  qed
qed

lemma dealer_draws_enough:
  assumes "17 \<le> points (cards h) + int (length shoe)" and "list_all playing_card shoe"
  shows "\<exists>r. dealer_draws b shoe h (GetNumericValues h) = Inr r"
  using assms
proof (induction shoe arbitrary: h)
  case Nil
  then show ?case by (simp add: must_draw_points)
next
  case (Cons c shoe)
  from Cons.prems(2) have "1 \<le> points [c]" by (simp add: points_def playing_card_def)
  with Cons.prems(1) have "17 \<le> points (cards (AddCard c h)) + int (length shoe)"
    by (simp add: cards_AddCard points_append)
  with Cons.IH [of "AddCard c h"] Cons.prems(2) show ?case by (simp add: Let_def)
qed

text \<open>The loops over the players.\<close>

definition from_index :: "nat \<Rightarrow> ('b \<Rightarrow> 'b) \<Rightarrow> 'b list \<Rightarrow> 'b list" where
  "from_index k f xs = take k xs @ map f (drop k xs)"

lemma from_index_step:
  "k < length xs \<Longrightarrow> from_index (Suc k) f (xs[k := f (xs ! k)]) = from_index k f xs"
  by (simp add: from_index_def take_Suc_conv_app_nth Cons_nth_drop_Suc [symmetric])

lemma from_index_end: "length xs \<le> k \<Longrightarrow> from_index k f xs = xs"
  by (simp add: from_index_def)

lemma from_index_nth: "i < length xs \<Longrightarrow> from_index k f xs ! i = (if i < k then xs ! i else f (xs ! i))"
  by (simp add: from_index_def nth_append)

lemma wp_for_each_update:
  assumes "k \<le> length (players t)"
  shows "wp (for_each [k..<length (players t)] (\<lambda>i. update_player i f)) Q E t =
    Q () (t\<lparr>players := from_index k f (players t)\<rparr>)"
  using assms
proof (induction "length (players t) - k" arbitrary: k t)
  case 0
  then show ?case by (simp add: effect_simps from_index_end)
next
  case (Suc m)
  let ?t = "t\<lparr>players := (players t)[k := f (players t ! k)]\<rparr>"
  from Suc have k: "k < length (players t)" by simp
  with Suc(1) [of ?t "Suc k"] Suc(2) show ?case
    by (simp add: upt_conv_Cons effect_simps from_index_step)
qed

lemma wp_inform_player [effect_simps]:
  assumes "i < length (m_responses t)" and "i < length (m_pendingrefresh t)"
  shows "wp (inform_player i s) Q E t =
    Q () (case m_responses t ! i of
        None \<Rightarrow> t\<lparr>m_pendingrefresh := (m_pendingrefresh t)[i := s]\<rparr>
      | Some m \<Rightarrow> t\<lparr>replies := replies t @ [(m, 200, Put_Response s (bj_table.truncate t))],
          m_responses := (m_responses t)[i := None]\<rparr>)"
  using assms
  by (auto simp: inform_player_def answer_def set_response_def set_pending_def send_table_def send_def
      nth_checked_def effect_simps split: option.split)

text \<open>What a round is about, besides the messages.\<close>

definition game_view :: "dealer_table \<Rightarrow> card list \<times> bool \<times> nat \<times> int" where
  "game_view t = (m_shoe t, m_betting t, m_currentPlayer t, m_betsMade t)"

lemma wp_for_each_PayUp:
  assumes "length (m_responses t) = length (players t)" "length (m_pendingrefresh t) = length (players t)"
    and "0 < k" "k \<le> length (players t)"
  shows "wp (for_each [k..<length (players t)] PayUp)
    (\<lambda>_ t'. players t' = from_index k (settle (hand (players t ! 0))) (players t) \<and> game_view t' = game_view t)
    (\<lambda>_ _. False) t"
  using assms
proof (induction "length (players t) - k" arbitrary: k t)
  case 0
  then show ?case by (simp add: effect_simps from_index_end)
next
  case (Suc m)
  let ?d = "hand (players t ! 0)"
  let ?t = "t\<lparr>players := (players t)[k := settle ?d (players t ! k)]\<rparr>"
  define u where "u = (case m_responses t ! k of
        None \<Rightarrow> ?t\<lparr>m_pendingrefresh := (m_pendingrefresh t)[k := ST_PlaceBet]\<rparr>
      | Some m \<Rightarrow> ?t\<lparr>replies := replies t @ [(m, 200, Put_Response ST_PlaceBet (bj_table.truncate ?t))],
          m_responses := (m_responses t)[k := None]\<rparr>)"
  from Suc.hyps(2) Suc.prems have k: "k < length (players t)" by simp
  then have ne: "players t \<noteq> []" by auto
  have u: "players u = (players t)[k := settle ?d (players t ! k)]" "length (m_responses u) = length (players t)"
    "length (m_pendingrefresh u) = length (players t)" "game_view u = game_view t"
    using Suc.prems by (auto simp: game_view_def u_def split: option.split)
  have "wp (for_each [Suc k..<length (players u)] PayUp)
    (\<lambda>_ t'. players t' = from_index (Suc k) (settle (hand (players u ! 0))) (players u) \<and>
       game_view t' = game_view u) (\<lambda>_ _. False) u"
    using k Suc.hyps(2) by (intro Suc.hyps(1)) (simp_all add: u)
  then have "wp (for_each [Suc k..<length (players t)] PayUp)
    (\<lambda>_ t'. players t' = from_index k (settle ?d) (players t) \<and> game_view t' = game_view t)
    (\<lambda>_ _. False) u"
    using k Suc.prems(3) by (simp add: u from_index_step)
  then show ?case
    using k ne Suc.prems by (simp add: upt_conv_Cons PayUp_def effect_simps u_def cong: option.case_cong)
qed

lemma from_index_from_index: "from_index k g (from_index k f xs) = from_index k (\<lambda>x. g (f x)) xs"
  by (cases "k \<le> length xs") (simp_all add: from_index_def comp_def)

lemma length_from_index [simp]: "length (from_index k f xs) = length xs"
  by (simp add: from_index_def)

lemma wp_settle_round:
  assumes "length (m_responses t) = length (players t)" "length (m_pendingrefresh t) = length (players t)"
    and "0 < length (players t)"
  shows "wp (settle_round d v)
    (\<lambda>_ t'. players t' = from_index 1 (\<lambda>p. settle (hand (players t ! 0))
          (p\<lparr>hand := (hand p)\<lparr>hand_result := round_result d v (hand p)\<rparr>\<rparr>)) (players t) \<and>
       game_view t' = (m_shoe t, True, m_currentPlayer t, 0))
    (\<lambda>_ _. False) t"
proof -
  let ?f = "\<lambda>p. p\<lparr>hand := (hand p)\<lparr>hand_result := round_result d v (hand p)\<rparr>\<rparr>"
  let ?u = "t\<lparr>players := from_index 1 ?f (players t), m_betting := True\<rparr>"
  have "wp (for_each [1..<length (players ?u)] PayUp)
    (\<lambda>_ t'. players t' = from_index 1 (settle (hand (players ?u ! 0))) (players ?u) \<and> game_view t' = game_view ?u)
    (\<lambda>_ _. False) ?u"
    using assms by (intro wp_for_each_PayUp) (simp_all add: Suc_le_eq)
  then have "wp (for_each [1..<length (players t)] PayUp)
    (\<lambda>_ t'. players t' = from_index 1 (\<lambda>p. settle (hand (players t ! 0)) (?f p)) (players t) \<and>
       game_view t' = (m_shoe t, True, m_currentPlayer t, m_betsMade t)) (\<lambda>_ _. False) ?u"
    using assms(3) by (simp add: from_index_from_index from_index_nth game_view_def)
  then have "wp (for_each [1..<length (players t)] PayUp)
    (\<lambda>_ t'. wp (modifyA (\<lambda>t. t\<lparr>m_betsMade := 0\<rparr>)) (\<lambda>_ t'.
       players t' = from_index 1 (\<lambda>p. settle (hand (players t ! 0)) (?f p)) (players t) \<and>
       game_view t' = (m_shoe t, True, m_currentPlayer t, 0)) (\<lambda>_ _. False) t') (\<lambda>_ _. False) ?u"
    by (rule wp_mono) (simp_all add: effect_simps game_view_def)
  then show ?thesis
    using assms(3) by (simp add: settle_round_def wp_bindA wp_thenA wp_readA wp_modifyA [where f = "m_betting_update g" for g]
        update_hand_def wp_for_each_update Suc_le_eq)
qed

text \<open>What the dealer's turn does: \<open>d\<close> is the dealer's hand after it.\<close>

definition turn_over :: "nat \<Rightarrow> dealer_table \<Rightarrow> bj_hand \<Rightarrow> NumericHandValues \<Rightarrow> dealer_table \<Rightarrow> bool" where
  "turn_over n t d v t' \<longleftrightarrow> hand_ok d \<and>
     (hand_state d \<noteq> HR_Busted \<longrightarrow>
        v = GetNumericValues d \<and> 17 \<le> best_total (cards d) \<and> best_total (cards d) \<le> 21) \<and>
     (\<exists>drawn. cards d = cards (hand (players t ! 0)) @ drawn \<and> m_shoe t = drawn @ m_shoe t') \<and>
     players t' = (players t)[0 := (players t ! 0)\<lparr>hand := d\<rparr>] \<and> m_currentPlayer t' = 0 \<and>
     length (m_responses t') = n \<and> length (m_pendingrefresh t') = n"

lemma wp_dealer_turn:
  assumes "table_ok n t" and "m_currentPlayer t = 0" and "2 \<le> length (cards (hand (players t ! 0)))"
    and "17 \<le> length (m_shoe t)"
  shows "wp dealer_turn (\<lambda>(d, v). turn_over n t d v) (\<lambda>_ _. False) t"
proof -
  let ?p = "players t ! 0"
  let ?h = "(hand ?p)\<lparr>revealBoth := True\<rparr>"
  let ?b = "\<lambda>g. hand_state g = HR_Busted"
  from assms(1,2) have n: "0 < length (players t)" "length (players t) = n" and shoe: "list_all playing_card (m_shoe t)"
    and lens: "length (m_responses t) = n" "length (m_pendingrefresh t) = n"
    by (auto simp: table_ok_def)
  from assms(1) n(1) have ok: "hand_ok ?h" by (simp add: table_ok_def players_ok_nth)
  then have "0 \<le> points (cards ?h)"
    using points_aces [of "cards ?h"] by (simp add: hand_ok_def)
  with assms(4) shoe obtain h1 v1 rest
    where drawn: "dealer_draws ?b (m_shoe t) ?h (GetNumericValues ?h) = Inr (h1, v1, rest)"
    using dealer_draws_enough [of ?h "m_shoe t" ?b] by (auto simp: split_paired_Ex)
  have "players t \<noteq> []" "0 < n" using n by auto
  moreover have "current_busted (t\<lparr>players := ps\<rparr>) = ?b" for ps
    by (simp add: fun_eq_iff current_busted_def assms(2))
  ultimately show ?thesis using dealer_draws_result [OF drawn ok shoe] dealer_draws_ok [OF drawn ok shoe] assms(3) n lens
    by (simp add: dealer_turn_def effect_simps assms(2) drawn turn_over_def cong: if_cong)
qed

definition round_paid :: "nat \<Rightarrow> dealer_table \<Rightarrow> dealer_table \<Rightarrow> bool" where
  "round_paid n t t' \<longleftrightarrow>
     (let d = hand (players t' ! 0) in
      (\<exists>drawn. cards d = cards (hand (players t ! 0)) @ drawn \<and> m_shoe t = drawn @ m_shoe t') \<and>
      (hand_state d = HR_Busted \<or> 17 \<le> best_total (cards d) \<and> best_total (cards d) \<le> 21) \<and>
      (\<forall>i \<in> {1..<n}. bet (hand (players t' ! i)) = 0 \<and> insurance (hand (players t' ! i)) = 0 \<and>
         balance (players t' ! i) = balance (players t ! i) + rules_payoff d (hand (players t ! i))) \<and>
      m_betting t' \<and> m_betsMade t' = 0 \<and> m_currentPlayer t' = 0)"

text \<open>
  C36: when the dealer's turn has come, with two cards at least and 17 in the shoe, the dealer
  draws the front of the shoe until his best total is 17 to 21 or he is busted; then every
  player has been paid what the rules of the game say, all stakes and insurances are cleared and
  bets are open again.
\<close>

theorem DealerDeal_pays:
  assumes "table_ok n t" and "m_currentPlayer t = 0" and "2 \<le> length (cards (hand (players t ! 0)))"
    and "17 \<le> length (m_shoe t)"
  shows "wp DealerDeal (\<lambda>_ t'. round_paid n t t') (\<lambda>_ _. False) t"
  unfolding DealerDeal_def wp_bindA
proof (rule wp_mono [OF wp_dealer_turn [OF assms]])
  fix r t1 assume over: "(case r of (d, v) \<Rightarrow> turn_over n t d v) t1"
  obtain d v where r: "r = (d, v)" by fastforce
  with over have over: "turn_over n t d v t1" by simp
  from assms(1) have n: "length (players t) = n" "0 < length (players t)" and ok: "players_ok (players t)"
    by (auto simp: table_ok_def)
  from over n have lens: "length (m_responses t1) = length (players t1)"
      "length (m_pendingrefresh t1) = length (players t1)" "0 < length (players t1)"
    and d: "hand (players t1 ! 0) = d" and same: "\<And>i. 0 < i \<Longrightarrow> players t1 ! i = players t ! i"
    by (simp_all add: turn_over_def)
  from over have v: "hand_state d \<noteq> HR_Busted \<Longrightarrow> v = GetNumericValues d" and ok_d: "hand_ok d"
    by (simp_all add: turn_over_def)
  note paid = settle_payoff [OF players_ok_nth [OF ok] ok_d v, unfolded n]
  have "wp (settle_round d v) (\<lambda>_ t'. round_paid n t t') (\<lambda>_ _. False) t1"
    by (rule wp_mono [OF wp_settle_round [OF lens]])
      (use over paid n in \<open>auto simp: round_paid_def Let_def from_index_nth d same game_view_def turn_over_def\<close>)
  then show "wp (case r of (h, handValue) \<Rightarrow> settle_round h handValue) (\<lambda>_ t'. round_paid n t t')
      (\<lambda>_ _. False) t1"
    by (simp add: r)
qed simp

text \<open>A round: the dealer with 19, a player with 20 and one with 18.\<close>

definition example_hand :: "real \<Rightarrow> int \<Rightarrow> int \<Rightarrow> bj_hand" where
  "example_hand b v w = \<lparr>revealBoth = False, cards = [\<lparr>card_suit = 0, card_value = v\<rparr>, \<lparr>card_suit = 1, card_value = w\<rparr>],
     bet = b, insurance = 0, hand_state = HR_Active, hand_result = HR_None\<rparr>"

definition example_table :: dealer_table where
  "example_table = bj_table.extend
     \<lparr>table_id = 1, capacity = 8, players =
        [\<lparr>player_name = DEALER, hand = example_hand 0 10 9, balance = 1000\<rparr>,
         \<lparr>player_name = ''A'', hand = example_hand 10 12 13, balance = 990\<rparr>,
         \<lparr>player_name = ''B'', hand = example_hand 20 10 8, balance = 980\<rparr>]\<rparr>
     (dealer_table.fields (replicate 17 \<lparr>card_suit = 2, card_value = 5\<rparr>) False [ST_None, ST_None, ST_None]
        [None, Some 7, None] 0 2 [])"

lemma example_table_ok: "table_ok 3 example_table" "m_currentPlayer example_table = 0"
    "2 \<le> length (cards (hand (players example_table ! 0)))" "17 \<le> length (m_shoe example_table)"
  by (simp_all add: example_table_def example_hand_def bj_table.defs dealer_table.defs table_ok_def players_ok_def
      hand_ok_def points_def playing_card_def list_all_iff DEALER_def)

theorem DealerDeal_pays_witness: "wp DealerDeal (\<lambda>_ t'. round_paid 3 example_table t') (\<lambda>_ _. False) example_table"
  by (rule DealerDeal_pays [OF example_table_ok])

subsection \<open>The last bet deals, and nothing else\<close>

definition round_view :: "dealer_table \<Rightarrow> int \<times> bool" where
  "round_view t = (m_betsMade t, m_betting t)"

lemma keeps_round_simple [frame_intros]:
  "keeps round_view (get_player i)" "keeps f (nth_checked xs j)"
  by (simp_all add: get_player_def nth_checked_def frame_intros)

lemma keeps_round_update [frame_intros]:
  "keeps round_view (update_player i f)" "keeps round_view (update_hand i g)"
  by (auto simp: update_hand_def update_player_def round_view_def intro!: frame_intros keeps_modifyA)

lemma keeps_round_take [frame_intros]: "keeps round_view take_card"
  by (auto simp: keeps_def take_card_def bindA_readA thenA_modifyA failA_def retA_def round_view_def split: list.split)

lemma keeps_round_messages [frame_intros]:
  "keeps round_view (send_table m s)" "keeps round_view (set_response i r)" "keeps round_view (set_pending i s)"
  "keeps round_view (answer i s)" "keeps round_view (inform_player i s)" "keeps round_view (set_current i)"
  by (auto simp: send_table_def send_def set_response_def set_pending_def answer_def inform_player_def set_current_def
      round_view_def intro!: frame_intros keeps_modifyA)

lemma keeps_for_each [frame_intros]: "(\<And>i. keeps f (g i)) \<Longrightarrow> keeps f (for_each is g)"
  by (induction "is") (simp_all add: frame_intros)

lemma keeps_case_prod [frame_intros]: "(\<And>a b. keeps f (g a b)) \<Longrightarrow> keeps f (case x of (a, b) \<Rightarrow> g a b)"
  by (cases x) simp

lemma keeps_first_turn [frame_intros]: "keeps round_view (first_turn is)"
  by (induction "is") (auto intro!: frame_intros)

lemma Deal_view: "wp Deal (\<lambda>_ t'. round_view t' = (m_betsMade t, False)) (\<lambda>_ _. True) t"
proof -
  have "keeps round_view (thenA (for_each [0..<n] deal_first) (
     thenA (for_each [0..<n] deal_second) (thenA (first_turn [1..<n]) refresh_others)))" for n
    by (auto simp: deal_first_def deal_second_def refresh_others_def intro!: frame_intros)
  then have *: "wp (thenA (for_each [0..<n] deal_first) (
     thenA (for_each [0..<n] deal_second) (thenA (first_turn [1..<n]) refresh_others)))
     (\<lambda>_ t'. round_view t' = v) (\<lambda>_ _. True) u" if "round_view u = v" for n u v
    by (rule wp_keeps) (simp_all add: that)
  show ?thesis
    unfolding Deal_def wp_thenA [where m = "update_hand i f" for i f] wp_update_hand
      wp_thenA [where m = "modifyA f" for f] wp_modifyA wp_bindA wp_readA
    using * [of "t\<lparr>players := ps, m_currentPlayer := 0, m_betting := False\<rparr>" "(m_betsMade t, False)" for ps]
    by (simp only: round_view_def dealer_table.simps bj_table.simps if_cancel split: if_split) simp
qed

lemma thenA_assoc: "thenA (thenA m n) k = thenA m (thenA n k)"
  by (simp add: fun_eq_iff thenA_def bindA_def split: prod.split sum.split)

lemma bet_tail_deals:
  assumes "table_ok n t" and "m_betsMade t = int n - 1"
  shows "wp bet_tail (\<lambda>_ t'. m_betsMade t' = int n - 1 \<and> \<not> m_betting t') (\<lambda>_ _. True) t"
proof -
  have "wp Deal (\<lambda>_ t'. table_ok n t' \<and> round_view t' = (m_betsMade t, False)) (\<lambda>_ _. True) t"
    by (rule wp_mono [OF wp_conj [OF presD [OF pres_Deal assms(1)] Deal_view]]) auto
  then have "wp Deal (\<lambda>_ t'. m_currentPlayer t' \<noteq> length (players t') \<and> m_betsMade t' = int n - 1 \<and>
      \<not> m_betting t') (\<lambda>_ _. True) t"
    by (rule wp_mono) (auto simp: table_ok_def round_view_def assms(2))
  then show ?thesis
    using assms by (auto simp: bet_tail_def wp_bindA wp_readA wp_thenA wp_retA table_ok_def elim: wp_mono)
qed

text \<open>
  \<open>Bet\<close> never runs the dealer: in a table in order the branch for a round in which every
  player has a black jack is not taken, so that after the last bet the round is dealt but not
  paid, whatever the cards are.
\<close>

lemma Bet_never_pays:
  assumes "table_ok n t" and "msg_query m AMOUNT = Some a" and "msg_query m QUERY_NAME = Some name"
    and "m_betsMade t + 2 = int n"
  shows "wp (Bet m) (\<lambda>_ t'. m_betsMade t' = int n - 1 \<and> \<not> m_betting t') (\<lambda>_ _. True) t"
proof -
  let ?place = "\<lambda>idx. case idx of None \<Rightarrow> retA ()
    | Some i \<Rightarrow> if i = 0 then retA () else bindA (amount_of a) (\<lambda>amount. update_player i (place_bet amount))"
  let ?keep = "\<lambda>idx. case idx of None \<Rightarrow> failA (Undefined Out_Of_Range)
    | Some i \<Rightarrow> set_response i (Some (msg_id m))"
  let ?I = "\<lambda>b u. table_ok n u \<and> m_betsMade u = b"
  have place: "pres (?I b) (?place idx)" for b idx
    by (rule presI) (auto simp: effect_simps amount_of_def place_bet_def table_ok_def split: option.split
        intro!: players_ok_update players_ok_nth)
  have keep: "pres (?I b) (?keep idx)" for b idx
    by (rule presI) (auto simp: effect_simps set_response_def nth_checked_def table_ok_def split: option.split)
  have counted: "table_ok n (u\<lparr>m_betsMade := k\<rparr>)" if "table_ok n u" for u k
    using that by (simp add: table_ok_def)
  have placed: "wp (thenA (?place idx) (thenA (modifyA (\<lambda>t. t\<lparr>m_betsMade := m_betsMade t + 1\<rparr>)) (?keep idx)))
      (\<lambda>_. ?I (int n - 1)) (\<lambda>_ _. True) t" for idx
    unfolding wp_thenA wp_modifyA
    by (rule wp_mono [OF presD [OF place [of "int n - 2" idx]]])
      (use assms(1,4) in \<open>auto intro!: presD [OF keep] counted\<close>)
  have "wp (thenA (thenA (?place idx) (thenA (modifyA (\<lambda>t. t\<lparr>m_betsMade := m_betsMade t + 1\<rparr>)) (?keep idx))) bet_tail)
      (\<lambda>_ t'. m_betsMade t' = int n - 1 \<and> \<not> m_betting t') (\<lambda>_ _. True) t" for idx
    by (subst wp_thenA) (rule wp_mono [OF placed], auto intro: bet_tail_deals)
  then show ?thesis
    by (simp add: Bet_def assms(2,3) wp_bindA wp_readA thenA_assoc)
qed

text \<open>
  A \<open>hit\<close> while bets are taken is not refused: it answers the players who wait, and when the
  last bet deals, the first of them is told of his turn through a null pointer.
\<close>

definition betting_table :: dealer_table where
  "betting_table = example_table\<lparr>m_betting := True, m_betsMade := 1,
     players := (players example_table)[0 := \<lparr>player_name = DEALER, hand = example_hand 0 2 3, balance = 1000\<rparr>]\<rparr>"

lemma replicate_17: "replicate 17 c = c # c # c # c # c # c # c # c # replicate 9 c"
  by (simp add: eval_nat_numeral)

lemma hit_while_betting:
  "fst (thenA (Hit \<lparr>msg_id = 8, msg_paths = [], msg_query = Map.empty\<rparr>)
      (Bet \<lparr>msg_id = 9, msg_paths = [], msg_query = [AMOUNT \<mapsto> ''5'', QUERY_NAME \<mapsto> ''B'']\<rparr>) betting_table) =
   Inl (Undefined Null_Pointer)"
  unfolding fst_iff_wp
  by (simp add: betting_table_def example_table_def example_hand_def bj_table.defs dealer_table.defs
      Hit_def Bet_def effect_simps AddCard_def Let_def numeric_values points_def has_ace_def CV_Ace_def
      refresh_others_def send_table_def send_def upt_conv_Cons Clear_def
      AMOUNT_def QUERY_NAME_def DEALER_def amount_of_def extract_int_def is_space_def
      place_bet_def set_response_def nth_checked_def bet_tail_def Deal_def deal_first_def deal_second_def
      first_turn.simps set_current_def answer_def inform_player_def set_pending_def replicate_17)

subsection \<open>Answers\<close>

text \<open>The requests answered and those kept for later, as a multiset.\<close>

definition waiting :: "nat option list \<Rightarrow> nat multiset" where
  "waiting rs = image_mset the (filter_mset (\<lambda>r. r \<noteq> None) (mset rs))"

definition known_ids :: "dealer_table \<Rightarrow> nat multiset" where
  "known_ids t = mset (map fst (replies t)) + waiting (m_responses t)"

text \<open>
  \<open>gains I f M m\<close>: however \<open>m\<close> ends, it keeps \<open>I\<close> and the multiset \<open>f\<close> has grown by \<open>M\<close> at
  most.  \<open>spends M m\<close>: it has answered or kept at most the requests \<open>M\<close>.
\<close>

definition gains :: "('w \<Rightarrow> bool) \<Rightarrow> ('w \<Rightarrow> 'b multiset) \<Rightarrow> 'b multiset \<Rightarrow> ('w, 'a) act \<Rightarrow> bool" where
  "gains I f M m \<longleftrightarrow> (\<forall>w. I w \<longrightarrow> I (snd (m w)) \<and> f (snd (m w)) \<subseteq># f w + M)"

abbreviation spends :: "nat multiset \<Rightarrow> 'a table_act \<Rightarrow> bool" where
  "spends \<equiv> gains (\<lambda>_. True) known_ids"

named_theorems spends_intros \<open>introduction rules for gains and spends\<close>

lemma gains_bindA:
  assumes "gains I f M m" and "\<And>a. gains I f N (k a)"
  shows "gains I f (M + N) (bindA m k)"
  unfolding gains_def
proof (intro allI impI)
  fix w assume I: "I w"
  obtain r w1 where m: "m w = (r, w1)" by fastforce
  from assms(1) I have le: "I w1" "f w1 \<subseteq># f w + M" unfolding gains_def by (metis m snd_conv)+
  show "I (snd (bindA m k w)) \<and> f (snd (bindA m k w)) \<subseteq># f w + (M + N)"
  proof (cases r)
    case (Inl e)
    from le show ?thesis
      by (simp add: bindA_def m Inl subseteq_mset_def) (metis add.assoc trans_le_add1)
  next
    case (Inr a)
    from assms(2) [of a] le have k: "I (snd (k a w1))" "f (snd (k a w1)) \<subseteq># f w1 + N" by (simp_all add: gains_def)
    note k(2)
    also from le have "f w1 + N \<subseteq># f w + (M + N)"
      by (simp add: add.assoc [symmetric])
    finally show ?thesis using k by (simp add: bindA_def m Inr)
  qed
qed

lemma spends_bindA_0 [spends_intros]: "gains I f {#} m \<Longrightarrow> (\<And>a. gains I f N (k a)) \<Longrightarrow> gains I f N (bindA m k)"
  using gains_bindA [of I f "{#}" m N k] by simp

lemma spends_thenA_0 [spends_intros]: "gains I f {#} m \<Longrightarrow> gains I f N k \<Longrightarrow> gains I f N (thenA m k)"
  unfolding thenA_def by (intro spends_intros)

lemma spends_thenA_last: "gains I f N m \<Longrightarrow> gains I f {#} k \<Longrightarrow> gains I f N (thenA m k)"
  using gains_bindA [of I f N m "{#}" "\<lambda>_. k"] by (simp add: thenA_def)

lemma gains_thenA: "gains I f M m \<Longrightarrow> gains I f N k \<Longrightarrow> gains I f (M + N) (thenA m k)"
  unfolding thenA_def by (rule gains_bindA)

lemma spends_simple [spends_intros]:
  "gains I f N (retA a)" "gains I f N (failA e)" "gains I f N (readA g)" "gains I f N (liftA r)"
  by (simp_all add: gains_def retA_def failA_def readA_def liftA_def)

lemma spends_deref [spends_intros]: "gains I f N (deref p)"
  by (cases p) (simp_all add: deref_def spends_intros)

lemma spends_modifyA: "(\<And>t. known_ids (g t) = known_ids t) \<Longrightarrow> spends N (modifyA g)"
  by (simp add: gains_def modifyA_def)

lemma spends_if [spends_intros]: "gains I f N m \<Longrightarrow> gains I f N k \<Longrightarrow> gains I f N (if b then m else k)"
  by simp

lemma spends_case_option [spends_intros]:
  "gains I f N m \<Longrightarrow> (\<And>y. gains I f N (k y)) \<Longrightarrow> gains I f N (case x of None \<Rightarrow> m | Some y \<Rightarrow> k y)"
  by (cases x) auto

lemma spends_case_list [spends_intros]:
  "gains I f N m \<Longrightarrow> (\<And>y ys. gains I f N (k y ys)) \<Longrightarrow> gains I f N (case x of [] \<Rightarrow> m | y # ys \<Rightarrow> k y ys)"
  by (cases x) auto

lemma spends_case_prod [spends_intros]: "(\<And>a b. gains I g N (f a b)) \<Longrightarrow> gains I g N (case x of (a, b) \<Rightarrow> f a b)"
  by (cases x) simp

lemma spends_for_each [spends_intros]: "(\<And>i. spends {#} (f i)) \<Longrightarrow> spends {#} (for_each is f)"
  by (induction "is") (simp_all add: spends_intros)

lemma spends_nth_checked [spends_intros]: "gains I f N (nth_checked xs i)"
  by (simp add: nth_checked_def spends_intros)

lemma spends_get_player [spends_intros]: "spends N (get_player i)"
  by (simp add: get_player_def nth_checked_def bindA_readA gains_def readA_def bindA_def retA_def failA_def)

lemma spends_update_player [spends_intros]: "spends {#} (update_player i f)"
  by (simp add: update_player_def spends_intros spends_modifyA known_ids_def)

lemma spends_update_hand [spends_intros]: "spends {#} (update_hand i f)"
  by (simp add: update_hand_def spends_intros)

lemma spends_fields [spends_intros]:
  "spends {#} (modifyA (\<lambda>t. t\<lparr>m_shoe := s\<rparr>))" "spends {#} (modifyA (\<lambda>t. t\<lparr>m_betting := b\<rparr>))"
  "spends {#} (modifyA (\<lambda>t. t\<lparr>m_betsMade := k\<rparr>))" "spends {#} (modifyA (\<lambda>t. t\<lparr>m_betsMade := m_betsMade t + k\<rparr>))"
  "spends {#} (modifyA (\<lambda>t. t\<lparr>m_currentPlayer := c, m_betting := b\<rparr>))" "spends {#} (set_current c)"
  by (rule spends_modifyA, simp add: known_ids_def | simp only: set_current_def)+

lemma spends_take_card [spends_intros]: "spends {#} take_card"
  unfolding take_card_def
  by (rule spends_bindA_0, intro spends_intros) (auto split: list.split intro!: spends_intros)

lemma spends_send: "spends {#m#} (send m c b)"
  by (simp add: gains_def send_def modifyA_def known_ids_def)

lemma spends_send_table: "spends {#m#} (send_table m s)"
  by (simp add: send_table_def spends_intros spends_send)

lemma spends_set_pending [spends_intros]: "spends {#} (set_pending i s)"
  by (simp add: set_pending_def spends_intros spends_modifyA known_ids_def)

lemma waiting_update:
  "i < length rs \<Longrightarrow> waiting (rs[i := r]) = waiting rs - waiting [rs ! i] + waiting [r]"
  by (auto simp: waiting_def mset_update image_mset_Diff)

lemma waiting_one: "waiting [r] = (case r of None \<Rightarrow> {#} | Some m \<Rightarrow> {#m#})"
  by (simp add: waiting_def split: option.split)

lemma waiting_nth: "i < length rs \<Longrightarrow> waiting [rs ! i] \<subseteq># waiting rs"
  by (auto simp: waiting_def intro: nth_mem)

lemma spends_set_response_None [spends_intros]: "spends {#} (set_response i None)"
  by (auto simp: gains_def set_response_def nth_checked_def bindA_def readA_def retA_def failA_def modifyA_def
      known_ids_def waiting_update waiting_one)

lemma spends_set_response: "spends {#m#} (set_response i (Some m))"
  by (auto simp: gains_def set_response_def nth_checked_def bindA_def readA_def retA_def failA_def modifyA_def
      known_ids_def waiting_update waiting_one)

lemma spends_answer [spends_intros]: "spends {#} (answer i s)"
proof -
  have "known_ids (snd (answer i s t)) = known_ids t" for t
    by (cases "m_responses t ! i") (auto simp: answer_def set_response_def nth_checked_def thenA_def bindA_def readA_def retA_def
      failA_def modifyA_def deref_def send_table_def send_def known_ids_def waiting_update waiting_one
      dest!: waiting_nth split: option.split)
  then show ?thesis by (simp add: gains_def)
qed

lemma spends_inform_player [spends_intros]: "spends {#} (inform_player i s)"
  by (simp add: inform_player_def spends_intros)

lemma spends_first_turn [spends_intros]: "spends {#} (first_turn is)"
  by (induction "is") (auto intro!: spends_intros)

lemma spends_find_turn [spends_intros]: "spends {#} (find_turn n is)"
  by (induction "is") (auto intro!: spends_intros)

lemma spends_refresh_others [spends_intros]: "spends {#} refresh_others"
  by (auto simp: refresh_others_def intro!: spends_intros)

lemma spends_Deal [spends_intros]: "spends {#} Deal"
  by (auto simp: Deal_def deal_first_def deal_second_def intro!: spends_intros)

lemma spends_PayUp [spends_intros]: "spends {#} (PayUp i)"
  by (auto simp: PayUp_def intro!: spends_intros)

lemma spends_DealerDeal [spends_intros]: "spends {#} DealerDeal"
  by (auto simp: DealerDeal_def dealer_turn_def settle_round_def intro!: spends_intros)

lemma spends_NextPlayer [spends_intros]: "spends {#} NextPlayer"
  by (auto simp: NextPlayer_def Let_def intro!: spends_intros)

lemma spends_Stay: "spends {#msg_id m#} (Stay m)"
  by (auto simp: Stay_def intro!: spends_intros spends_thenA_last [OF spends_send_table])

lemma spends_Hit: "spends {#msg_id m#} (Hit m)"
  by (auto simp: Hit_def intro!: spends_intros spends_Stay spends_thenA_last [OF spends_send_table])

lemma spends_DoubleDown: "spends {#msg_id m#} (DoubleDown m)"
  by (auto simp: DoubleDown_def intro!: spends_intros spends_Stay spends_send)

lemma spends_amount_of [spends_intros]: "spends N (amount_of s)"
  by (auto simp: amount_of_def intro!: spends_intros)

lemma spends_Wait: "spends {#msg_id m#} (Wait m)"
  by (auto simp: Wait_def intro!: spends_intros spends_send spends_set_response
      spends_thenA_last [OF spends_send_table] split: option.split)

lemma spends_keep:
  "spends {#m#} (case idx of None \<Rightarrow> failA f | Some i \<Rightarrow> set_response i (Some m))"
  by (auto intro!: spends_intros spends_set_response split: option.split)

lemma spends_bet_tail [spends_intros]: "spends {#} bet_tail"
  by (auto simp: bet_tail_def intro!: spends_intros)

lemma spends_Bet: "spends {#msg_id m#} (Bet m)"
  unfolding Bet_def
  by (cases "msg_query m AMOUNT"; cases "msg_query m QUERY_NAME")
    (auto intro!: spends_intros spends_send
      spends_thenA_last [OF spends_keep])

lemma spends_Insure: "spends {#msg_id m#} (Insure m)"
  by (auto simp: Insure_def intro!: spends_intros spends_send spends_send_table split: option.split)

lemma spends_AddPlayer: "spends {#} (AddPlayer p)"
  by (auto simp: AddPlayer_def known_ids_def waiting_def intro!: spends_intros spends_modifyA)

lemma waiting_append: "waiting (xs @ ys) = waiting xs + waiting ys"
  by (simp add: waiting_def)

lemma waiting_Cons: "waiting (x # xs) = waiting [x] + waiting xs"
  by (simp add: waiting_def)

lemma waiting_erase: "waiting (erase_at i rs) \<subseteq># waiting rs"
proof (cases "i < length rs")
  case True
  have "waiting rs = waiting (take i rs @ rs ! i # drop (Suc i) rs)"
    using id_take_nth_drop [OF True] by simp
  also have "\<dots> = waiting (take i rs) + (waiting [rs ! i] + waiting (drop (Suc i) rs))"
    unfolding waiting_append by (subst waiting_Cons) (rule refl)
  finally show ?thesis by (simp add: erase_at_def waiting_append)
qed (simp add: erase_at_def)

lemma spends_RemovePlayer: "spends {#} (RemovePlayer name)"
  by (auto simp: gains_def RemovePlayer_def bindA_def readA_def nth_checked_def thenA_def retA_def failA_def
      modifyA_def known_ids_def waiting_erase split: option.split)

end
