(* ===== verification/Game_Dealer.thy ===== *)
theory Game_Dealer
  imports Game_Play
begin

section \<open>The card game: the dealer resource\<close>

text \<open>
  \<open>cpprest/Dealer.cpp\<close>: the tables of the server and the handlers of the four methods.  A request
  the listener delivers is an \<open>http_message\<close>; \<open>draws i\<close> are the random numbers of the table \<open>i\<close>.
\<close>

subsection \<open>The tables\<close>

text \<open>\<open>operator<\<close> of \<open>std::string\<close>, the order of \<open>std::map\<close>.\<close>

fun string_less :: "cstring \<Rightarrow> cstring \<Rightarrow> bool" where
  "string_less xs [] \<longleftrightarrow> False"
| "string_less [] (y # ys) \<longleftrightarrow> True"
| "string_less (x # xs) (y # ys) \<longleftrightarrow>
     (of_char x :: nat) < of_char y \<or> x = y \<and> string_less xs ys"

fun assign_key :: "cstring \<Rightarrow> 'v \<Rightarrow> (cstring \<times> 'v) list \<Rightarrow> (cstring \<times> 'v) list" where
  "assign_key k v [] = [(k, v)]"
| "assign_key k v ((k', v') # r) =
     (if k' = k then (k, v) # r
      else if string_less k k' then (k, v) # (k', v') # r
      else (k', v') # assign_key k v r)"

text \<open>The server: \<open>sent\<close> is what it answered, oldest first.\<close>

record game_server =
  s_tables :: "(cstring \<times> dealer_table) list"
  nextId :: int
  sent :: "(nat \<times> nat \<times> reply_body) list"

type_synonym 'a server_act = "(game_server, 'a) act"

definition add_table :: "(int \<Rightarrow> nat \<Rightarrow> nat) \<Rightarrow> dealer_table server_act" where
  "add_table draws =
     bindA (readA nextId) (\<lambda>i.
       let tbl = new_dealer_table (draws i) i 8 6
       in thenA (modifyA (\<lambda>s. s\<lparr>s_tables := assign_key (show_int i) tbl (s_tables s), nextId := i + 1\<rparr>))
            (retA tbl))"

text \<open>The state the constructor of \<open>http_server\<close> leaves.\<close>

definition new_server :: "(int \<Rightarrow> nat \<Rightarrow> nat) \<Rightarrow> game_server" where
  "new_server draws = snd (add_table draws \<lparr>s_tables = [], nextId = 1, sent = []\<rparr>)"

definition respond :: "http_message \<Rightarrow> nat \<Rightarrow> reply_body \<Rightarrow> unit server_act" where
  "respond m code body = modifyA (\<lambda>s. s\<lparr>sent := sent s @ [(msg_id m, code, body)]\<rparr>)"

text \<open>A call on the table found under a key; what it answers is the server's answer.\<close>

definition on_table :: "cstring \<Rightarrow> 'a table_act \<Rightarrow> 'a server_act" where
  "on_table k act s =
     (case map_of (s_tables s) k of
        None \<Rightarrow> (Inl (Undefined Out_Of_Range), s)
      | Some t \<Rightarrow>
          (case act t of
             (r, t') \<Rightarrow> (r, s\<lparr>s_tables := assign_key k (t'\<lparr>replies := []\<rparr>) (s_tables s),
                            sent := sent s @ replies t'\<rparr>)))"

subsection \<open>The handlers\<close>

definition TablesAsJSON :: "(cstring \<times> dealer_table) list \<Rightarrow> reply_body" where
  "TablesAsJSON ts = Body_Tables (map (\<lambda>(k, t). bj_table.truncate t) ts)"

definition handle_get :: "http_message \<Rightarrow> unit server_act" where
  "handle_get m =
     bindA (readA s_tables) (\<lambda>ts.
       case msg_paths m of
         [] \<Rightarrow> respond m 200 (TablesAsJSON ts)
       | tid # _ \<Rightarrow>
           (case map_of ts tid of
              None \<Rightarrow> respond m 404 No_Body
            | Some t \<Rightarrow> respond m 200 (Body_Table (bj_table.truncate t))))"

definition respond_table :: "http_message \<Rightarrow> cstring \<Rightarrow> BJStatus \<Rightarrow> unit server_act" where
  "respond_table m tid status =
     bindA (on_table tid (readA bj_table.truncate)) (\<lambda>t. respond m 200 (Put_Response status t))"

definition handle_post :: "(int \<Rightarrow> nat \<Rightarrow> nat) \<Rightarrow> http_message \<Rightarrow> unit server_act" where
  "handle_post draws m =
     (case msg_paths m of
        [] \<Rightarrow>
          bindA (add_table draws) (\<lambda>tbl. respond m 200 (Put_Response ST_PlaceBet (bj_table.truncate tbl)))
      | tid # _ \<Rightarrow>
          bindA (readA s_tables) (\<lambda>ts.
            case map_of ts tid of
              None \<Rightarrow> respond m 404 No_Body
            | Some t \<Rightarrow>
                if length (players t) < capacity t
                then (case msg_query m QUERY_NAME of
                        None \<Rightarrow> respond m 403 (Body_Text ''Player name is required in query'')
                      | Some name \<Rightarrow>
                          if name = [] then respond m 403 (Body_Text ''Player name is required in query'')
                          else thenA (on_table tid (AddPlayer (new_player name)))
                                 (respond_table m tid ST_PlaceBet))
                else respond m 403 (Body_Text (''Table '' @ show_int (table_id t) @ '' is full''))))"

definition handle_delete :: "http_message \<Rightarrow> unit server_act" where
  "handle_delete m =
     (case msg_paths m of
        [] \<Rightarrow> respond m 403 (Body_Text ''TableId is required.'')
      | tid # _ \<Rightarrow>
          bindA (readA s_tables) (\<lambda>ts.
            case map_of ts tid of
              None \<Rightarrow> respond m 404 No_Body
            | Some t \<Rightarrow>
                (case msg_query m QUERY_NAME of
                   None \<Rightarrow> respond m 403 (Body_Text ''Player name is required in query'')
                 | Some name \<Rightarrow>
                     bindA (on_table tid (RemovePlayer name)) (\<lambda>removed.
                       respond m (if removed then 200 else 404) No_Body))))"

definition table_request :: "cstring \<Rightarrow> http_message \<Rightarrow> unit table_act" where
  "table_request req m =
     (if req = ''bet'' then Bet m
      else if req = ''double'' then DoubleDown m
      else if req = ''insure'' then Insure m
      else if req = ''hit'' then Hit m
      else if req = ''stay'' then Stay m
      else if req = ''refresh'' then Wait m
      else send (msg_id m) 403 (Body_Text ''Unrecognized request''))"

text \<open>
  \<open>paths[0]\<close> of an empty vector and \<open>->second\<close> of the end iterator are undefined; the replies
  before them do not return.
\<close>

definition handle_put :: "http_message \<Rightarrow> unit server_act" where
  "handle_put m =
     thenA (if msg_paths m = [] \<or> msg_query m ''request'' = None
            then respond m 403 (Body_Text ''TableId and request are required.'') else retA ()) (
     bindA (nth_checked (msg_paths m) 0) (\<lambda>tid.
     case msg_query m ''request'' of
       None \<Rightarrow> failA (Undefined Out_Of_Range)
     | Some req \<Rightarrow>
         bindA (readA s_tables) (\<lambda>ts.
         thenA (if map_of ts tid = None then respond m 404 No_Body else retA ())
           (on_table tid (table_request req m)))))"

datatype http_method = GET | POST | PUT | DEL

fun handle_message :: "(int \<Rightarrow> nat \<Rightarrow> nat) \<Rightarrow> http_method \<times> http_message \<Rightarrow> unit server_act" where
  "handle_message draws (GET, m) = handle_get m"
| "handle_message draws (POST, m) = handle_post draws m"
| "handle_message draws (PUT, m) = handle_put m"
| "handle_message draws (DEL, m) = handle_delete m"

text \<open>Requests one after the other, until one is undefined.\<close>

definition serve_all :: "(int \<Rightarrow> nat \<Rightarrow> nat) \<Rightarrow> (http_method \<times> http_message) list \<Rightarrow> unit server_act" where
  "serve_all draws ms = seqA (map (handle_message draws) ms)"

subsection \<open>The map\<close>

lemma string_less_irrefl: "\<not> string_less k k"
  by (induction k) simp_all

lemma string_less_trans: "string_less a b \<Longrightarrow> string_less b c \<Longrightarrow> string_less a c"
  by (induction a b arbitrary: c rule: string_less.induct) (case_tac c; auto)+

lemma string_less_total: "a \<noteq> b \<Longrightarrow> string_less a b \<or> string_less b a"
proof (induction a b rule: string_less.induct)
  case (3 x xs y ys)
  then show ?case
    by (cases "x = y") (simp_all, metis linorder_neqE_nat of_char_eq_iff)
qed (simp_all add: neq_Nil_conv, auto)

definition keys_sorted :: "(cstring \<times> 'v) list \<Rightarrow> bool" where
  "keys_sorted ts \<longleftrightarrow> sorted_wrt string_less (map fst ts)"

lemma set_assign_key: "x \<in> set (assign_key k v ts) \<Longrightarrow> x = (k, v) \<or> x \<in> set ts"
  by (induction ts) (auto split: if_splits)

lemma keys_sorted_assign_key: "keys_sorted ts \<Longrightarrow> keys_sorted (assign_key k v ts)"
  unfolding keys_sorted_def
proof (induction ts)
  case (Cons p r)
  obtain k' v' where p: "p = (k', v')" by fastforce
  from Cons p have r: "\<forall>x \<in> set r. string_less k' (fst x)" by simp
  have "\<forall>x \<in> set (assign_key k v r). string_less k' (fst x)" if "k' \<noteq> k" "\<not> string_less k k'"
    using string_less_total [OF that(1)] that(2) r by (auto dest!: set_assign_key)
  then show ?case
    using Cons r by (auto simp: p intro: string_less_trans)
qed simp

lemma assign_key_present:
  assumes "keys_sorted ts" and "map_of ts k = Some t"
  shows "\<exists>a b. ts = a @ (k, t) # b \<and> assign_key k v ts = a @ (k, v) # b"
  using assms
proof (induction ts)
  case (Cons p r)
  obtain k' v' where p: "p = (k', v')" by fastforce
  show ?case
  proof (cases "k' = k")
    case True
    with Cons.prems(2) p have "p # r = [] @ (k, t) # r" "assign_key k v (p # r) = [] @ (k, v) # r" by simp_all
    then show ?thesis by blast
  next
    case False
    with Cons.prems p have r: "map_of r k = Some t" "keys_sorted r"
      by (simp_all add: keys_sorted_def)
    from map_of_SomeD [OF r(1)] Cons.prems(1) have "string_less k' k"
      by (auto simp: keys_sorted_def p)
    then have less: "\<not> string_less k k'"
      using string_less_trans [of k k' k] string_less_irrefl [of k] by blast
    from Cons.IH [OF r(2,1)] obtain a b where "r = a @ (k, t) # b" "assign_key k v r = a @ (k, v) # b" by blast
    then have "p # r = (p # a) @ (k, t) # b" "assign_key k v (p # r) = (p # a) @ (k, v) # b"
      using False less p by simp_all
    then show ?thesis by blast
  qed
qed simp

lemma assign_key_absent:
  assumes "k \<notin> fst ` set ts"
  shows "\<exists>a b. ts = a @ b \<and> assign_key k v ts = a @ (k, v) # b"
  using assms
proof (induction ts)
  case (Cons p r)
  obtain k' v' where p: "p = (k', v')" by fastforce
  from Cons obtain a b where r: "r = a @ b" "assign_key k v r = a @ (k, v) # b" by auto
  show ?case
  proof (cases "string_less k k'")
    case True
    with Cons.prems p have "p # r = [] @ p # r" "assign_key k v (p # r) = [] @ (k, v) # p # r" by auto
    then show ?thesis by blast
  next
    case False
    with Cons.prems p r have "p # r = (p # a) @ b" "assign_key k v (p # r) = (p # a) @ (k, v) # b" by auto
    then show ?thesis by blast
  qed
qed simp

subsection \<open>Every table is in order\<close>

definition in_order :: "dealer_table \<Rightarrow> bool" where
  "in_order t \<longleftrightarrow> table_ok (length (players t)) t"

definition tables_ok :: "game_server \<Rightarrow> bool" where
  "tables_ok s \<longleftrightarrow> (\<forall>(k, t) \<in> set (s_tables s). in_order t \<and> replies t = [])"

lemma pres_in_order: "(\<And>n. pres (table_ok n) act) \<Longrightarrow> pres in_order act"
proof (rule presI)
  assume act: "\<And>n. pres (table_ok n) act"
  fix t assume "in_order t"
  then have "table_ok (length (players t)) t" by (simp add: in_order_def)
  from presD [OF act this] show "wp act (\<lambda>_. in_order) (\<lambda>_ _. True) t"
    by (rule wp_mono) (auto simp: in_order_def table_ok_def)
qed

lemma pres_on_table [pres_intros]:
  assumes "pres in_order act" shows "pres tables_ok (on_table k act)"
proof (rule presI)
  fix s assume s: "tables_ok s"
  show "wp (on_table k act) (\<lambda>_. tables_ok) (\<lambda>_ _. True) s"
  proof (cases "map_of (s_tables s) k")
    case (Some t)
    obtain r t' where run: "act t = (r, t')" by fastforce
    from Some s have "in_order t" by (auto simp: tables_ok_def dest!: map_of_SomeD)
    from presD [OF assms this] run have "r = Inr a \<Longrightarrow> in_order t'" for a by (simp add: wp_def)
    with s show ?thesis
      by (cases r) (auto simp: wp_def on_table_def Some run tables_ok_def in_order_def table_ok_def dest!: set_assign_key)
  qed (simp add: wp_def on_table_def)
qed

lemma new_table_in_order:
  assumes "\<And>k. draws k < 312" shows "in_order (new_dealer_table draws i c 6)"
proof -
  have "list_all playing_card (FillShoe draws 6)" using assms by (intro FillShoe_playing) simp
  then show ?thesis
    by (simp add: in_order_def table_ok_def new_dealer_table_def new_bj_table_def bj_table.defs dealer_table.defs
        players_ok_def hand_ok_def new_player_def new_hand_def points_def)
qed

lemma pres_respond [pres_intros]: "pres tables_ok (respond m c b)"
  unfolding respond_def by (rule pres_modifyA) (simp add: tables_ok_def)

lemma pres_add_table:
  assumes "\<And>i k. draws i k < 312" shows "pres tables_ok (add_table draws)"
proof (rule presI)
  fix s assume s: "tables_ok s"
  have "in_order (new_dealer_table (draws i) i 8 6)" for i
    by (rule new_table_in_order [OF assms])
  moreover have "replies (new_dealer_table (draws i) i 8 6) = []" for i
    by (simp add: new_dealer_table_def bj_table.defs dealer_table.defs new_bj_table_def)
  ultimately show "wp (add_table draws) (\<lambda>_. tables_ok) (\<lambda>_ _. True) s"
    using s by (auto simp: add_table_def Let_def effect_simps tables_ok_def dest!: set_assign_key)
qed

lemma pres_table_request: "pres in_order (table_request req m)"
  by (rule pres_in_order) (simp add: table_request_def pres_intros)

lemma pres_AddPlayer: "pres in_order (AddPlayer (new_player name))"
  by (rule presI)
    (auto simp: AddPlayer_def effect_simps in_order_def table_ok_def players_ok_def hand_ok_def
      new_player_def new_hand_def points_def)

lemma pres_case_list [pres_intros]:
  "pres I m \<Longrightarrow> (\<And>y ys. pres I (k y ys)) \<Longrightarrow> pres I (case x of [] \<Rightarrow> m | y # ys \<Rightarrow> k y ys)"
  by (cases x) auto

lemma pres_handle_message:
  assumes "\<And>i k. draws i k < 312" and "meth \<noteq> DEL"
  shows "pres tables_ok (handle_message draws (meth, m))"
proof (cases meth)
  case GET
  then show ?thesis by (auto simp: handle_get_def intro!: pres_intros)
next
  case POST
  have "pres in_order (readA g)" for g :: "dealer_table \<Rightarrow> 'z" by (rule pres_simple)
  with POST show ?thesis
    by (auto simp: handle_post_def respond_table_def intro!: pres_intros pres_add_table assms pres_AddPlayer)
next
  case PUT
  then show ?thesis by (auto simp: handle_put_def intro!: pres_intros pres_table_request)
qed (use assms in simp)

lemma pres_seqA: "(\<And>act. act \<in> set acts \<Longrightarrow> pres I act) \<Longrightarrow> pres I (seqA acts)"
  by (induction acts) (simp_all add: pres_intros)

lemma tables_ok_new_server:
  assumes "\<And>i k. draws i k < 312" shows "tables_ok (new_server draws)"
  using new_table_in_order [where draws = "draws 1" and i = 1 and c = 8, OF assms]
  by (simp add: new_server_def add_table_def Let_def tables_ok_def bindA_readA thenA_modifyA retA_def
      new_dealer_table_def bj_table.defs dealer_table.defs new_bj_table_def)

text \<open>
  C37: as long as no player leaves, whatever is asked of the server, every table stays in order:
  its three vectors have one entry per player, the player whose turn it is exists, every card is
  a playing card and every hand is worth what its state says.
\<close>

theorem dealer_tables_in_order:
  assumes "\<And>i k. draws i k < 312" and "\<forall>(meth, m) \<in> set ms. meth \<noteq> DEL"
  shows "wp (serve_all draws ms) (\<lambda>_ s. \<forall>(k, t) \<in> set (s_tables s). in_order t) (\<lambda>_ _. True) (new_server draws)"
proof -
  have "pres tables_ok (serve_all draws ms)"
    unfolding serve_all_def using assms(2) by (auto intro!: pres_seqA pres_handle_message assms(1))
  from presD [OF this tables_ok_new_server [OF assms(1)]] show ?thesis
    by (rule wp_mono) (auto simp: tables_ok_def)
qed

theorem dealer_tables_in_order_witness:
  "wp (serve_all (\<lambda>i k. k mod 312) [(POST, \<lparr>msg_id = 1, msg_paths = [''1''], msg_query = [''name'' \<mapsto> ''A'']\<rparr>),
       (PUT, \<lparr>msg_id = 2, msg_paths = [''1''], msg_query = [''request'' \<mapsto> ''bet'', ''name'' \<mapsto> ''A'', ''amount'' \<mapsto> ''10'']\<rparr>)])
     (\<lambda>_ s. \<forall>(k, t) \<in> set (s_tables s). in_order t) (\<lambda>_ _. True) (new_server (\<lambda>i k. k mod 312))"
  using dealer_tables_in_order [of "\<lambda>i k. k mod 312"
      "[(POST, \<lparr>msg_id = 1, msg_paths = [''1''], msg_query = [''name'' \<mapsto> ''A'']\<rparr>),
       (PUT, \<lparr>msg_id = 2, msg_paths = [''1''], msg_query = [''request'' \<mapsto> ''bet'', ''name'' \<mapsto> ''A'', ''amount'' \<mapsto> ''10'']\<rparr>)]"]
  by simp

subsection \<open>Every request is answered at most once\<close>

lemma handle_put_refused:
  "msg_paths m = [] \<or> msg_query m ''request'' = None \<Longrightarrow>
     handle_put m = thenA (respond m 403 (Body_Text ''TableId and request are required.''))
       (failA (Undefined Out_Of_Range))"
  by (cases "msg_paths m"; cases "msg_query m ''request''")
    (auto simp: fun_eq_iff handle_put_def nth_checked_def thenA_def bindA_def respond_def modifyA_def failA_def retA_def)

lemma handle_put_served:
  "msg_paths m = tid # r \<Longrightarrow> msg_query m ''request'' = Some req \<Longrightarrow>
     handle_put m = bindA (readA s_tables) (\<lambda>ts.
       if map_of ts tid = None then thenA (respond m 404 No_Body) (failA (Undefined Out_Of_Range))
       else on_table tid (table_request req m))"
  by (auto simp: fun_eq_iff handle_put_def nth_checked_def thenA_def bindA_def respond_def modifyA_def failA_def
      retA_def readA_def on_table_def)

definition all_ids :: "game_server \<Rightarrow> nat multiset" where
  "all_ids s = mset (map fst (sent s)) + sum_list (map (\<lambda>(k, t). known_ids t) (s_tables s))"

abbreviation srv_spends :: "nat multiset \<Rightarrow> 'a server_act \<Rightarrow> bool" where
  "srv_spends \<equiv> gains (\<lambda>s. keys_sorted (s_tables s)) all_ids"

lemma spends_respond: "srv_spends {#msg_id m#} (respond m c b)"
  by (simp add: gains_def respond_def modifyA_def all_ids_def)

lemma spends_on_table:
  assumes "spends M act" shows "srv_spends M (on_table k act)"
  unfolding gains_def
proof (intro allI impI)
  fix s :: game_server assume s: "keys_sorted (s_tables s)"
  show "keys_sorted (s_tables (snd (on_table k act s))) \<and> all_ids (snd (on_table k act s)) \<subseteq># all_ids s + M"
  proof (cases "map_of (s_tables s) k")
    case (Some t)
    obtain r t' where run: "act t = (r, t')" by fastforce
    from assms run have le: "known_ids t' \<subseteq># known_ids t + M"
      unfolding gains_def by (metis snd_conv)
    let ?s = "s\<lparr>s_tables := assign_key k (t'\<lparr>replies := []\<rparr>) (s_tables s), sent := sent s @ replies t'\<rparr>"
    have out: "on_table k act s = (r, ?s)" by (simp add: on_table_def Some run)
    obtain a b where ab: "s_tables s = a @ (k, t) # b"
      "assign_key k (t'\<lparr>replies := []\<rparr>) (s_tables s) = a @ (k, t'\<lparr>replies := []\<rparr>) # b"
      using assign_key_present [OF s Some] by blast
    let ?ids = "\<lambda>ts. sum_list (map (\<lambda>(k, t). known_ids t) ts)"
    have old: "all_ids s = mset (map fst (sent s)) + ?ids a + ?ids b + known_ids t"
      by (simp add: all_ids_def ab(1))
    have new: "all_ids ?s = mset (map fst (sent s)) + ?ids a + ?ids b + known_ids t'"
      by (simp add: all_ids_def ab(2) known_ids_def)
    from le have "all_ids ?s \<subseteq># all_ids s + M"
      unfolding old new by (simp add: add.assoc)
    with s show ?thesis by (simp add: out keys_sorted_assign_key)
  qed (simp add: on_table_def s)
qed

lemma spends_add_table [spends_intros]: "srv_spends {#} (add_table draws)"
  unfolding gains_def
proof (intro allI impI)
  fix s :: game_server assume s: "keys_sorted (s_tables s)"
  let ?k = "show_int (nextId s)" and ?t = "new_dealer_table (draws (nextId s)) (nextId s) 8 6"
  have t: "known_ids ?t = {#}"
    by (simp add: known_ids_def waiting_def new_dealer_table_def bj_table.defs dealer_table.defs new_bj_table_def)
  have "sum_list (map (\<lambda>(k, t). known_ids t) (assign_key ?k ?t (s_tables s))) \<subseteq>#
      sum_list (map (\<lambda>(k, t). known_ids t) (s_tables s))"
  proof (cases "map_of (s_tables s) ?k")
    case None
    then have "?k \<notin> fst ` set (s_tables s)" by (simp add: map_of_eq_None_iff)
    from assign_key_absent [OF this, of ?t] show ?thesis by (auto simp: t)
  next
    case (Some t')
    from assign_key_present [OF s Some, of ?t] show ?thesis by (auto simp: t)
  qed
  with s show "keys_sorted (s_tables (snd (add_table draws s))) \<and> all_ids (snd (add_table draws s)) \<subseteq># all_ids s + {#}"
    by (simp add: add_table_def Let_def bindA_readA thenA_modifyA retA_def keys_sorted_assign_key all_ids_def)
qed

lemma spends_table_request: "spends {#msg_id m#} (table_request req m)"
  by (simp add: table_request_def spends_intros spends_Bet spends_DoubleDown spends_Insure spends_Hit
      spends_Stay spends_Wait spends_send)

lemma spends_handle_put: "srv_spends {#msg_id m#} (handle_put m)"
proof (cases "msg_paths m = [] \<or> msg_query m ''request'' = None")
  case True
  then show ?thesis
    by (simp only: handle_put_refused) (rule spends_thenA_last [OF spends_respond], rule spends_intros)
next
  case False
  then obtain tid r req where "msg_paths m = tid # r" "msg_query m ''request'' = Some req"
    by (auto simp: neq_Nil_conv)
  from handle_put_served [OF this] show ?thesis
    by (auto intro!: spends_intros spends_on_table spends_table_request spends_thenA_last [OF spends_respond])
qed

lemma spends_handle_message: "srv_spends {#msg_id m#} (handle_message draws (meth, m))"
proof (cases meth)
  case GET
  then show ?thesis by (auto simp: handle_get_def intro!: spends_intros spends_respond)
next
  case POST
  then show ?thesis
    by (auto simp: handle_post_def respond_table_def
      intro!: spends_intros spends_respond spends_on_table spends_AddPlayer)
next
  case DEL
  then show ?thesis
    by (auto simp: handle_delete_def intro!: spends_intros spends_respond spends_on_table spends_RemovePlayer)
qed (simp add: spends_handle_put)

lemma spends_serve_all: "srv_spends (mset (map (msg_id \<circ> snd) ms)) (serve_all draws ms)"
proof (induction ms)
  case (Cons mm ms)
  obtain meth m where mm: "mm = (meth, m)" by fastforce
  have "srv_spends ({#msg_id m#} + mset (map (msg_id \<circ> snd) ms))
      (thenA (handle_message draws (meth, m)) (serve_all draws ms))"
    by (rule gains_thenA [OF spends_handle_message Cons.IH])
  then show ?case by (simp add: serve_all_def mm comp_def)
qed (simp add: serve_all_def spends_intros)

text \<open>
  C38: whatever requests come, and wherever serving them ends, no request is answered more often
  than it came, and nothing else is answered: two replies to a request, which the listener would
  refuse by an exception, never happen.
\<close>

theorem dealer_answers_once:
  "mset (map fst (sent (snd (serve_all draws ms (new_server draws))))) \<subseteq># mset (map (msg_id \<circ> snd) ms)"
proof -
  have "all_ids (new_server draws) \<subseteq># {#}" "keys_sorted (s_tables (new_server draws))"
    using spends_add_table [of draws, unfolded gains_def, rule_format, of "\<lparr>s_tables = [], nextId = 1, sent = []\<rparr>"]
    by (simp_all add: new_server_def all_ids_def keys_sorted_def)
  then have "all_ids (snd (serve_all draws ms (new_server draws))) \<subseteq># mset (map (msg_id \<circ> snd) ms)"
    using spends_serve_all [of ms draws] by (auto simp: gains_def)
  then show ?thesis
    unfolding all_ids_def by (rule subset_mset.order_trans [rotated]) simp
qed

subsection \<open>Requests the handlers do not survive\<close>

text \<open>The reply is sent, then \<open>paths[0]\<close> or the end of the map is read.\<close>

lemma handle_put_undefined:
  "msg_paths m = [] \<or> msg_query m ''request'' = None \<Longrightarrow>
     handle_put m s = (Inl (Undefined Out_Of_Range),
       s\<lparr>sent := sent s @ [(msg_id m, 403, Body_Text ''TableId and request are required.'')]\<rparr>)"
  "msg_paths m = tid # r \<Longrightarrow> msg_query m ''request'' = Some req \<Longrightarrow> map_of (s_tables s) tid = None \<Longrightarrow>
     handle_put m s = (Inl (Undefined Out_Of_Range), s\<lparr>sent := sent s @ [(msg_id m, 404, No_Body)]\<rparr>)"
  by (simp only: handle_put_refused, simp add: thenA_def bindA_def respond_def modifyA_def failA_def)
    (simp add: handle_put_served readA_def thenA_def bindA_def respond_def modifyA_def failA_def)

end
