(* ===== verification/Game_Json.thy ===== *)
theory Game_Json
  imports Game_Hand
begin

section \<open>The card game: messages as JSON\<close>

text \<open>
  The \<open>AsJSON\<close> and \<open>FromJSON\<close> members of \<open>cpprest/messagetypes.h\<close>.  The values of the JSON
  library of the C++ REST SDK are a parameter: how they are made and what the accessors give or
  throw.
\<close>

record 'j json_values =
  j_null :: 'j
  j_integer :: "int \<Rightarrow> 'j"
  j_double :: "real \<Rightarrow> 'j"
  j_string :: "cstring \<Rightarrow> 'j"
  j_array :: "'j list \<Rightarrow> 'j"
  j_object :: "(cstring \<times> 'j) list \<Rightarrow> 'j"
  as_integer :: "'j \<Rightarrow> cpp_exn + int"
  as_double :: "'j \<Rightarrow> cpp_exn + real"
  as_string :: "'j \<Rightarrow> cpp_exn + cstring"
  as_array :: "'j \<Rightarrow> cpp_exn + 'j list"
  as_object :: "'j \<Rightarrow> cpp_exn + (cstring \<rightharpoonup> 'j)"
  is_null :: "'j \<Rightarrow> bool"

text \<open>What the library documents: an accessor gives back what the value was made of.\<close>

definition json_documented :: "'j json_values \<Rightarrow> bool" where
  "json_documented J \<longleftrightarrow>
     (\<forall>i. - (2 ^ 31) \<le> i \<and> i < 2 ^ 31 \<longrightarrow> as_integer J (j_integer J i) = Inr i) \<and>
     (\<forall>d. as_double J (j_double J d) = Inr d) \<and>
     (\<forall>s. as_string J (j_string J s) = Inr s) \<and>
     (\<forall>vs. as_array J (j_array J vs) = Inr vs) \<and>
     (\<forall>kvs. as_object J (j_object J kvs) = Inr (map_of kvs)) \<and>
     is_null J (j_null J) \<and> (\<forall>kvs. \<not> is_null J (j_object J kvs))"

subsection \<open>AsJSON\<close>

definition Card_AsJSON :: "'j json_values \<Rightarrow> card \<Rightarrow> 'j" where
  "Card_AsJSON J c =
     j_object J [(''suit'', j_integer J (card_suit c)), (''value'', j_integer J (card_value c))]"

text \<open>An array of the size of the hand; when only one card is shown the others stay null.\<close>

definition cards_AsJSON :: "'j json_values \<Rightarrow> bj_hand \<Rightarrow> 'j list" where
  "cards_AsJSON J h =
     (if revealBoth h then map (Card_AsJSON J) (cards h)
      else case cards h of [] \<Rightarrow> [] | c # cs \<Rightarrow> Card_AsJSON J c # map (\<lambda>_. j_null J) cs)"

definition BJHand_AsJSON :: "'j json_values \<Rightarrow> bj_hand \<Rightarrow> 'j" where
  "BJHand_AsJSON J h =
     j_object J [(''state'', j_integer J (state_code (hand_state h))),
       (''result'', j_integer J (result_code (hand_result h))),
       (''bet'', j_double J (bet h)), (''insurance'', j_double J (insurance h)),
       (''cards'', j_array J (cards_AsJSON J h))]"

definition Player_AsJSON :: "'j json_values \<Rightarrow> player \<Rightarrow> 'j" where
  "Player_AsJSON J p =
     j_object J [(''Name'', j_string J (player_name p)), (''Balance'', j_double J (balance p)),
       (''Hand'', BJHand_AsJSON J (hand p))]"

definition BJTable_AsJSON :: "'j json_values \<Rightarrow> bj_table \<Rightarrow> 'j" where
  "BJTable_AsJSON J t =
     j_object J [(''Id'', j_double J (real_of_int (table_id t))), (''Capacity'', j_double J (real (capacity t))),
       (''Players'', j_array J (map (Player_AsJSON J) (players t)))]"

definition BJPutResponse_AsJSON :: "'j json_values \<Rightarrow> BJStatus \<Rightarrow> 'j \<Rightarrow> 'j" where
  "BJPutResponse_AsJSON J status body =
     j_object J [(''Status'', j_double J (real_of_int (status_code_of status))), (''Data'', body)]"

subsection \<open>FromJSON\<close>

definition member_of :: "(cstring \<rightharpoonup> 'j) \<Rightarrow> cstring \<Rightarrow> cstring \<Rightarrow> ('w, 'j) act" where
  "member_of ob key message =
     (case ob key of None \<Rightarrow> throwA (Json_Exception message) | Some v \<Rightarrow> retA v)"

definition read_member ::
    "(cstring \<rightharpoonup> 'j) \<Rightarrow> cstring \<Rightarrow> cstring \<Rightarrow> ('j \<Rightarrow> cpp_exn + 'b) \<Rightarrow> ('w, 'b) act" where
  "read_member ob key message get = bindA (member_of ob key message) (\<lambda>v. tryA (get v))"

text \<open>A number that is no enumerator has no value of the enumeration here.\<close>

definition state_of_code :: "int \<Rightarrow> BJHandState option" where
  "state_of_code i =
     (if i = 0 then Some HR_Empty else if i = 1 then Some HR_BlackJack else if i = 2 then Some HR_Active
      else if i = 3 then Some HR_Held else if i = 4 then Some HR_Busted else None)"

definition result_of_code :: "int \<Rightarrow> BJHandResult option" where
  "result_of_code i =
     (if i = 0 then Some HR_None else if i = 1 then Some HR_PlayerBlackJack else if i = 2 then Some HR_PlayerWin
      else if i = 3 then Some HR_ComputerWin else if i = 4 then Some HR_Push else None)"

definition status_of_code :: "int \<Rightarrow> BJStatus option" where
  "status_of_code i =
     (if i = 0 then Some ST_PlaceBet else if i = 1 then Some ST_Refresh else if i = 2 then Some ST_YourTurn
      else if i = 3 then Some ST_None else None)"

definition cast_enum :: "(int \<Rightarrow> 'e option) \<Rightarrow> int \<Rightarrow> ('w, 'e) act" where
  "cast_enum f i = (case f i of None \<Rightarrow> failA (Undefined Out_Of_Range) | Some e \<Rightarrow> retA e)"

text \<open>\<open>(int)d\<close> and \<open>(size_t)d\<close> cut towards zero; a value the type cannot hold is undefined.\<close>

definition cut :: "real \<Rightarrow> int" where
  "cut d = (if d \<ge> 0 then \<lfloor>d\<rfloor> else \<lceil>d\<rceil>)"

definition double_to :: "int \<Rightarrow> int \<Rightarrow> real \<Rightarrow> ('w, int) act" where
  "double_to lo hi d = (if lo \<le> cut d \<and> cut d < hi then retA (cut d) else failA (Undefined Integer_Overflow))"

definition Card_FromJSON :: "'j json_values \<Rightarrow> (cstring \<rightharpoonup> 'j) \<Rightarrow> ('w, card) act" where
  "Card_FromJSON J ob =
     bindA (read_member ob ''suit'' ''Key not found'' (as_integer J)) (\<lambda>s.
     bindA (read_member ob ''value'' ''Key not found'' (as_integer J)) (\<lambda>v.
       retA \<lparr>card_suit = s, card_value = v\<rparr>))"

fun cards_FromJSON :: "'j json_values \<Rightarrow> 'j list \<Rightarrow> ('w, card list) act" where
  "cards_FromJSON J [] = retA []"
| "cards_FromJSON J (v # vs) =
     (if is_null J v then cards_FromJSON J vs
      else bindA (tryA (as_object J v)) (\<lambda>ob.
           bindA (Card_FromJSON J ob) (\<lambda>c. bindA (cards_FromJSON J vs) (\<lambda>cs. retA (c # cs)))))"

definition BJHand_FromJSON :: "'j json_values \<Rightarrow> (cstring \<rightharpoonup> 'j) \<Rightarrow> ('w, bj_hand) act" where
  "BJHand_FromJSON J ob =
     bindA (read_member ob ''cards'' ''Key not found'' (as_array J)) (\<lambda>vs.
     bindA (cards_FromJSON J vs) (\<lambda>cs.
     bindA (read_member ob ''state'' ''STATE key not found'' (as_integer J)) (\<lambda>i.
     bindA (cast_enum state_of_code i) (\<lambda>state.
     bindA (read_member ob ''bet'' ''BET key not found'' (as_double J)) (\<lambda>b.
     bindA (read_member ob ''insurance'' ''INSURANCE key not found'' (as_double J)) (\<lambda>ins.
     bindA (read_member ob ''result'' ''RESULT key not found'' (as_integer J)) (\<lambda>k.
     bindA (cast_enum result_of_code k) (\<lambda>res.
       retA (new_hand\<lparr>cards := cs, hand_state := state, bet := b, insurance := ins,
         hand_result := res\<rparr>)))))))))"

definition Player_FromJSON :: "'j json_values \<Rightarrow> (cstring \<rightharpoonup> 'j) \<Rightarrow> ('w, player) act" where
  "Player_FromJSON J ob =
     bindA (member_of ob ''Name'' ''NAME key not found'') (\<lambda>name.
     bindA (member_of ob ''Balance'' ''BALANCE key not found'') (\<lambda>bal.
     bindA (member_of ob ''Hand'' ''HAND key not found'') (\<lambda>hv.
     bindA (tryA (as_string J name)) (\<lambda>n.
     bindA (tryA (as_double J bal)) (\<lambda>b.
     bindA (tryA (as_object J hv)) (\<lambda>ho.
     bindA (BJHand_FromJSON J ho) (\<lambda>h.
       retA \<lparr>player_name = n, hand = h, balance = b\<rparr>)))))))"

fun players_FromJSON :: "'j json_values \<Rightarrow> 'j list \<Rightarrow> ('w, player list) act" where
  "players_FromJSON J [] = retA []"
| "players_FromJSON J (v # vs) =
     bindA (tryA (as_object J v)) (\<lambda>ob.
     bindA (Player_FromJSON J ob) (\<lambda>p. bindA (players_FromJSON J vs) (\<lambda>ps. retA (p # ps))))"

definition BJTable_FromJSON :: "'j json_values \<Rightarrow> (cstring \<rightharpoonup> 'j) \<Rightarrow> ('w, bj_table) act" where
  "BJTable_FromJSON J ob =
     bindA (read_member ob ''Id'' ''ID key not found'' (as_double J)) (\<lambda>i.
     bindA (double_to (- (2 ^ 31)) (2 ^ 31) i) (\<lambda>tid.
     bindA (read_member ob ''Capacity'' ''CAPACITY key not found'' (as_double J)) (\<lambda>c.
     bindA (double_to 0 (2 ^ 64) c) (\<lambda>cap.
     bindA (read_member ob ''Players'' ''PLAYTERS key not found'' (as_array J)) (\<lambda>vs.
     bindA (players_FromJSON J vs) (\<lambda>ps.
       retA \<lparr>table_id = tid, capacity = nat cap, players = ps\<rparr>))))))"

text \<open>The members are taken with \<open>operator[]\<close>: a missing one is null, and null is no number.\<close>

definition BJPutResponse_FromJSON :: "'j json_values \<Rightarrow> (cstring \<rightharpoonup> 'j) \<Rightarrow> ('w, BJStatus \<times> 'j) act" where
  "BJPutResponse_FromJSON J ob =
     bindA (tryA (as_double J (case ob ''Status'' of None \<Rightarrow> j_null J | Some v \<Rightarrow> v))) (\<lambda>d.
     bindA (double_to (- (2 ^ 31)) (2 ^ 31) d) (\<lambda>i.
     bindA (cast_enum status_of_code i) (\<lambda>status.
       retA (status, case ob ''Data'' of None \<Rightarrow> j_null J | Some v \<Rightarrow> v))))"

subsection \<open>What a client reads\<close>

text \<open>Of a hand that does not show both cards a client sees the first.\<close>

definition shown_hand :: "bj_hand \<Rightarrow> bj_hand" where
  "shown_hand h = h\<lparr>revealBoth := True, cards := (if revealBoth h then cards h else take 1 (cards h))\<rparr>"

definition shown_player :: "player \<Rightarrow> player" where
  "shown_player p = p\<lparr>hand := shown_hand (hand p)\<rparr>"

definition shown_table :: "bj_table \<Rightarrow> bj_table" where
  "shown_table t = t\<lparr>players := map shown_player (players t)\<rparr>"

definition int_card :: "card \<Rightarrow> bool" where
  "int_card c \<longleftrightarrow> card_suit c \<in> {- (2 ^ 31)..<2 ^ 31} \<and> card_value c \<in> {- (2 ^ 31)..<2 ^ 31}"

lemma tryA_Inr: "tryA (Inr a) = retA a"
  by (simp add: tryA_def)

lemma read_member_Some: "ob k = Some v \<Longrightarrow> read_member ob k msg get = tryA (get v)"
  by (simp add: read_member_def member_of_def bindA_retA)

lemma member_of_Some: "ob k = Some v \<Longrightarrow> member_of ob k msg = retA v"
  by (simp add: member_of_def)

lemma bindA_bindA: "bindA (bindA m k) l = bindA m (\<lambda>a. bindA (k a) l)"
  by (simp add: fun_eq_iff bindA_def split: prod.split sum.split)

lemma cut_of_int [simp]: "cut (real_of_int i) = i" "cut (real n) = int n"
  by (simp_all add: cut_def)

lemmas from_json = tryA_Inr bindA_retA read_member_Some member_of_Some

lemma enum_codes [simp]:
  "state_of_code (state_code st) = Some st" "result_of_code (result_code r) = Some r"
  "status_of_code (status_code_of u) = Some u"
  by (cases st; cases r; cases u; simp add: state_of_code_def result_of_code_def status_of_code_def)+

lemma enum_range:
  "- 2147483648 \<le> state_code st" "state_code st < 2147483648"
  "- 2147483648 \<le> result_code r" "result_code r < 2147483648"
  "- 2147483648 \<le> status_code_of u" "status_code_of u < 2147483648"
  by (cases st; cases r; cases u; simp)+

lemma Card_roundtrip:
  assumes "json_documented J" and "int_card c"
  shows "bindA (tryA (as_object J (Card_AsJSON J c))) (Card_FromJSON J) = retA c"
  using assms by (cases c) (simp add: json_documented_def int_card_def Card_AsJSON_def Card_FromJSON_def from_json)

lemma cards_nulls: "json_documented J \<Longrightarrow> cards_FromJSON J (map (\<lambda>_. j_null J) cs) = retA []"
  by (induction cs) (simp_all add: json_documented_def)

lemma cards_roundtrip:
  assumes "json_documented J" and "list_all int_card cs"
  shows "(cards_FromJSON J (map (Card_AsJSON J) cs @ vs) :: ('w, card list) act) =
    bindA (cards_FromJSON J vs) (\<lambda>ds. retA (cs @ ds))"
  using assms(2)
proof (induction cs)
  case Nil
  show ?case by (simp add: fun_eq_iff bindA_def retA_def split: prod.split sum.split)
next
  case (Cons c cs)
  have "\<not> is_null J (Card_AsJSON J c)"
    using assms(1) by (simp add: json_documented_def Card_AsJSON_def)
  moreover obtain ob where ob: "as_object J (Card_AsJSON J c) = Inr ob"
    using assms(1) by (simp add: json_documented_def Card_AsJSON_def)
  moreover have "(Card_FromJSON J ob :: ('w, card) act) = retA c"
    using Card_roundtrip [OF assms(1), of c] Cons.prems by (simp add: ob from_json)
  ultimately show ?case using Cons by (simp add: from_json bindA_bindA)
qed

lemma BJHand_roundtrip:
  assumes J: "json_documented J" and "list_all int_card (cards h)"
  shows "bindA (tryA (as_object J (BJHand_AsJSON J h))) (BJHand_FromJSON J) = (retA (shown_hand h) :: ('w, bj_hand) act)"
proof -
  have "(cards_FromJSON J (cards_AsJSON J h) :: ('w, card list) act) = retA (cards (shown_hand h))"
  proof (cases "revealBoth h")
    case True
    with cards_roundtrip [OF assms, of "[]"] show ?thesis
      by (simp add: cards_AsJSON_def shown_hand_def bindA_retA)
  next
    case False
    show ?thesis
    proof (cases "cards h")
      case (Cons c cs)
      with cards_roundtrip [OF J, of "[c]" "map (\<lambda>_. j_null J) cs"] assms(2) False show ?thesis
        by (simp add: cards_AsJSON_def shown_hand_def cards_nulls [OF J] bindA_retA)
    qed (simp add: cards_AsJSON_def shown_hand_def False)
  qed
  then show ?thesis
    using J by (simp add: json_documented_def BJHand_AsJSON_def BJHand_FromJSON_def from_json enum_range
        cast_enum_def) (cases h, simp add: shown_hand_def new_hand_def)
qed

lemma Player_roundtrip:
  assumes J: "json_documented J" and "list_all int_card (cards (hand p))"
  shows "bindA (tryA (as_object J (Player_AsJSON J p))) (Player_FromJSON J) = (retA (shown_player p) :: ('w, player) act)"
proof -
  obtain ho where ho: "as_object J (BJHand_AsJSON J (hand p)) = Inr ho"
    using J by (simp add: json_documented_def BJHand_AsJSON_def)
  with BJHand_roundtrip [OF assms] have "(BJHand_FromJSON J ho :: ('w, bj_hand) act) = retA (shown_hand (hand p))"
    by (simp add: from_json)
  then show ?thesis
    using J ho by (simp add: json_documented_def Player_AsJSON_def Player_FromJSON_def from_json)
      (cases p, simp add: shown_player_def)
qed

lemma players_roundtrip:
  assumes J: "json_documented J" and "list_all (\<lambda>p. list_all int_card (cards (hand p))) ps"
  shows "players_FromJSON J (map (Player_AsJSON J) ps) = (retA (map shown_player ps) :: ('w, player list) act)"
  using assms(2)
proof (induction ps)
  case (Cons p ps)
  obtain ob where ob: "as_object J (Player_AsJSON J p) = Inr ob"
    using J by (simp add: json_documented_def Player_AsJSON_def)
  moreover have "(Player_FromJSON J ob :: ('w, player) act) = retA (shown_player p)"
    using Player_roundtrip [OF J, of p] Cons.prems by (simp add: ob from_json)
  ultimately show ?case using Cons by (simp add: from_json)
qed simp


lemma BJPutResponse_roundtrip:
  assumes "json_documented J"
  shows "bindA (tryA (as_object J (BJPutResponse_AsJSON J st body))) (BJPutResponse_FromJSON J) = retA (st, body)"
  using assms enum_range(5,6) [of st]
  by (simp add: json_documented_def BJPutResponse_AsJSON_def BJPutResponse_FromJSON_def from_json double_to_def cast_enum_def)

subsection \<open>A JSON library\<close>

datatype jval = J_Null | J_Int int | J_Double real | J_String cstring | J_Array "jval list"
  | J_Object "(cstring \<times> jval) list"

definition other_kind :: "cpp_exn + 'b" where
  "other_kind = Inl (Json_Exception ''not this kind'')"

definition some_json :: "jval json_values" where
  "some_json =
     \<lparr>j_null = J_Null, j_integer = J_Int, j_double = J_Double, j_string = J_String, j_array = J_Array,
      j_object = J_Object,
      as_integer = (\<lambda>v. case v of J_Int i \<Rightarrow> Inr i | _ \<Rightarrow> other_kind),
      as_double = (\<lambda>v. case v of J_Int i \<Rightarrow> Inr (real_of_int i) | J_Double d \<Rightarrow> Inr d | _ \<Rightarrow> other_kind),
      as_string = (\<lambda>v. case v of J_String s \<Rightarrow> Inr s | _ \<Rightarrow> other_kind),
      as_array = (\<lambda>v. case v of J_Array vs \<Rightarrow> Inr vs | _ \<Rightarrow> other_kind),
      as_object = (\<lambda>v. case v of J_Object kvs \<Rightarrow> Inr (map_of kvs) | _ \<Rightarrow> other_kind),
      is_null = (\<lambda>v. v = J_Null)\<rparr>"

lemma some_json_documented: "json_documented some_json"
  by (simp add: json_documented_def some_json_def)

definition dealt_table :: bj_table where
  "dealt_table = \<lparr>table_id = 7, capacity = 8, players =
     [\<lparr>player_name = DEALER, hand = new_hand\<lparr>revealBoth := False,
         cards := [\<lparr>card_suit = 0, card_value = 1\<rparr>, \<lparr>card_suit = 1, card_value = 13\<rparr>]\<rparr>, balance = 1000\<rparr>]\<rparr>"


end
