(* ===== verification/Json_Value.thy ===== *)
theory Json_Value
  imports Agent_Effects
begin

unbundle bit_operations_syntax

section \<open>JSON values and their memory\<close>

text \<open>
  \<open>tools/gason.h\<close> and the allocator of \<open>tools/gason.cpp\<close>: a value in the 64 bits of a double, whose
  tag and payload stand in the bits of a NaN, and the zones the nodes of lists are taken from.
\<close>

subsection \<open>JsonTag and JsonValue\<close>

datatype JsonTag = JSON_NUMBER | JSON_STRING | JSON_ARRAY | JSON_OBJECT | JSON_TRUE | JSON_FALSE | JSON_NULL

fun tag_code :: "JsonTag \<Rightarrow> nat" where
  "tag_code JSON_NUMBER = 0"
| "tag_code JSON_STRING = 1"
| "tag_code JSON_ARRAY = 2"
| "tag_code JSON_OBJECT = 3"
| "tag_code JSON_TRUE = 4"
| "tag_code JSON_FALSE = 5"
| "tag_code JSON_NULL = 15"

lemma tag_code_inj: "tag_code a = tag_code b \<longleftrightarrow> a = b"
  by (cases a; cases b) simp_all

definition JSON_VALUE_PAYLOAD_MASK :: "64 word" where "JSON_VALUE_PAYLOAD_MASK = 0x00007FFFFFFFFFFF"
definition JSON_VALUE_NAN_MASK :: "64 word" where "JSON_VALUE_NAN_MASK = 0x7FF8000000000000"
definition JSON_VALUE_TAG_MASK :: "64 word" where "JSON_VALUE_TAG_MASK = 0xF"
definition JSON_VALUE_TAG_SHIFT :: nat where "JSON_VALUE_TAG_SHIFT = 47"

text \<open>
  A value is its 64 bits; a double goes in as they are.  A failed \<open>assert\<close> does not return.
\<close>

definition boxed :: "JsonTag \<Rightarrow> 64 word \<Rightarrow> 64 word" where
  "boxed tag payload =
     (JSON_VALUE_NAN_MASK OR push_bit JSON_VALUE_TAG_SHIFT (word_of_nat (tag_code tag))) OR payload"

definition value_of_tag :: "JsonTag \<Rightarrow> 64 word \<Rightarrow> 64 word outcome" where
  "value_of_tag tag payload =
     (if payload \<le> JSON_VALUE_PAYLOAD_MASK then Inr (boxed tag payload) else Inl No_Return)"

definition isDouble :: "64 word \<Rightarrow> bool" where
  "isDouble v \<longleftrightarrow> sint v \<le> sint JSON_VALUE_NAN_MASK"

text \<open>The code of the tag; some codes are no enumerator.\<close>

definition getTag :: "64 word \<Rightarrow> nat" where
  "getTag v = (if isDouble v then tag_code JSON_NUMBER
     else unat (drop_bit JSON_VALUE_TAG_SHIFT v AND JSON_VALUE_TAG_MASK))"

definition getPayload :: "64 word \<Rightarrow> 64 word outcome" where
  "getPayload v = (if isDouble v then Inl No_Return else Inr (v AND JSON_VALUE_PAYLOAD_MASK))"

definition toNumber :: "64 word \<Rightarrow> 64 word outcome" where
  "toNumber v = (if getTag v = tag_code JSON_NUMBER then Inr v else Inl No_Return)"

definition toString :: "64 word \<Rightarrow> 64 word outcome" where
  "toString v = (if getTag v = tag_code JSON_STRING then getPayload v else Inl No_Return)"

definition toNode :: "64 word \<Rightarrow> 64 word outcome" where
  "toNode v = (if getTag v = tag_code JSON_ARRAY \<or> getTag v = tag_code JSON_OBJECT then getPayload v
     else Inl No_Return)"

text \<open>The fields of a boxed value.\<close>

lemma payload_mask: "JSON_VALUE_PAYLOAD_MASK = mask 47"
  by (simp add: JSON_VALUE_PAYLOAD_MASK_def mask_eq_exp_minus_1)

lemma payload_uint: "(p :: 64 word) \<le> JSON_VALUE_PAYLOAD_MASK \<longleftrightarrow> uint p < 2 ^ 47"
proof -
  have "p \<le> JSON_VALUE_PAYLOAD_MASK \<longleftrightarrow> uint p \<le> 140737488355327"
    by (simp add: word_le_def JSON_VALUE_PAYLOAD_MASK_def)
  then show ?thesis
    by simp linarith
qed

lemma payload_and:
  assumes "(p :: 64 word) \<le> JSON_VALUE_PAYLOAD_MASK"
  shows "p AND JSON_VALUE_PAYLOAD_MASK = p"
proof -
  have "p AND mask 47 = word_of_int (uint p mod 2 ^ 47)"
    by (rule and_mask_mod_2p)
  moreover have "uint p mod 2 ^ 47 = uint p"
    using assms by (simp add: payload_uint)
  ultimately show ?thesis
    by (simp add: payload_mask)
qed

lemma drop_boxed_uint:
  assumes "drop_bit 47 v = (w :: 64 word)"
  shows "uint v div 2 ^ 47 = uint w"
proof -
  have "uint v div 2 ^ 47 = uint v div uint (2 ^ 47 :: 64 word)"
    by simp
  then show ?thesis
    unfolding assms [symmetric] by (simp only: drop_bit_eq_div uint_div_distrib)
qed

lemma payload_drop:
  assumes "(p :: 64 word) \<le> JSON_VALUE_PAYLOAD_MASK"
  shows "drop_bit 47 p = 0"
proof -
  have "uint (drop_bit 47 p) = uint p div 2 ^ 47"
    by (rule drop_boxed_uint [symmetric, OF refl])
  also have "\<dots> = 0"
    using assms by (simp add: payload_uint)
  finally show ?thesis
    by (simp add: uint_0_iff)
qed

lemma boxed_drop:
  assumes "p \<le> JSON_VALUE_PAYLOAD_MASK"
  shows "drop_bit 47 (boxed tag p) = 0xFFF0 + word_of_nat (tag_code tag)"
proof -
  have "drop_bit 47 (JSON_VALUE_NAN_MASK OR push_bit JSON_VALUE_TAG_SHIFT (word_of_nat (tag_code tag))) =
      0xFFF0 + word_of_nat (tag_code tag)"
    by (cases tag) (simp_all add: JSON_VALUE_NAN_MASK_def JSON_VALUE_TAG_SHIFT_def)
  then show ?thesis
    using payload_drop [OF assms] by (simp add: boxed_def drop_bit_or)
qed

lemma boxed_and:
  assumes "p \<le> JSON_VALUE_PAYLOAD_MASK"
  shows "boxed tag p AND JSON_VALUE_PAYLOAD_MASK = p"
proof -
  let ?t = "JSON_VALUE_NAN_MASK OR push_bit JSON_VALUE_TAG_SHIFT (word_of_nat (tag_code tag))"
  have "?t AND JSON_VALUE_PAYLOAD_MASK = 0"
    by (cases tag)
      (simp_all add: JSON_VALUE_NAN_MASK_def JSON_VALUE_TAG_SHIFT_def JSON_VALUE_PAYLOAD_MASK_def)
  moreover have "(?t OR p) AND JSON_VALUE_PAYLOAD_MASK =
      (?t AND JSON_VALUE_PAYLOAD_MASK) OR (p AND JSON_VALUE_PAYLOAD_MASK)"
    by (rule bit.conj_disj_distrib2)
  ultimately show ?thesis
    using payload_and [OF assms] by (simp only: boxed_def or.left_neutral)
qed

text \<open>A pattern is a double exactly if its top seventeen bits are not those of a boxed tag.\<close>

lemma isDouble_uint: "isDouble v \<longleftrightarrow> uint v \<le> 0x7FF8000000000000 \<or> 2 ^ 63 \<le> uint v"
proof -
  have s: "sint JSON_VALUE_NAN_MASK = 0x7FF8000000000000"
    by (simp add: JSON_VALUE_NAN_MASK_def)
  have u: "uint v < 2 ^ 64" "0 \<le> uint v"
    using uint_bounded [of v] by simp_all
  have "sint v = (if uint v < 2 ^ 63 then uint v else uint v - 2 ^ 64)"
  proof (cases "uint v < 2 ^ 63")
    case True
    then show ?thesis
      using u by (simp add: sint_uint signed_take_bit_eq_take_bit_shift take_bit_eq_mod)
  next
    case False
    then have "(uint v + 2 ^ 63) mod 2 ^ 64 = uint v - 2 ^ 63"
      using u by (simp add: mod_pos_geq)
    then show ?thesis
      using False u by (simp add: sint_uint signed_take_bit_eq_take_bit_shift take_bit_eq_mod)
  qed
  then show ?thesis
    using u s by (auto simp: isDouble_def)
qed


lemma boxed_is_not_double:
  assumes p: "p \<le> JSON_VALUE_PAYLOAD_MASK" and t: "tag \<noteq> JSON_NUMBER"
  shows "\<not> isDouble (boxed tag p)"
proof -
  have "uint (boxed tag p) div 2 ^ 47 = uint (0xFFF0 + word_of_nat (tag_code tag) :: 64 word)"
    using boxed_drop [OF p] by (rule drop_boxed_uint)
  also have "\<dots> = 0xFFF0 + int (tag_code tag)"
    by (cases tag) simp_all
  finally have d: "uint (boxed tag p) div 140737488355328 = 0xFFF0 + int (tag_code tag)"
    by simp
  moreover have "1 \<le> int (tag_code tag)" "int (tag_code tag) < 16"
    using t by (cases tag; simp)+
  ultimately show ?thesis
    unfolding isDouble_uint by simp linarith
qed

text \<open>
  A value built from a tag other than \<open>JSON_NUMBER\<close> and a payload of 47 bits is no double,
  has that tag, and gives that payload back: no tag and no address is lost in the bits of the NaN.
\<close>

lemma boxed_roundtrip:
  assumes "value_of_tag tag p = Inr v" "tag \<noteq> JSON_NUMBER"
  shows "\<not> isDouble v \<and> getTag v = tag_code tag \<and> getPayload v = Inr p"
proof -
  have p: "p \<le> JSON_VALUE_PAYLOAD_MASK" and v: "v = boxed tag p"
    using assms(1) by (simp_all add: value_of_tag_def split: if_splits)
  have "(0xFFF0 + word_of_nat (tag_code tag)) AND JSON_VALUE_TAG_MASK = word_of_nat (tag_code tag)"
    by (cases tag) (simp_all add: JSON_VALUE_TAG_MASK_def)
  moreover have "unat (word_of_nat (tag_code tag) :: 64 word) = tag_code tag"
    by (cases tag) simp_all
  ultimately have "getTag v = tag_code tag"
    using boxed_drop [OF p, of tag] boxed_is_not_double [OF p assms(2)]
    by (simp add: getTag_def v JSON_VALUE_TAG_SHIFT_def)
  then show ?thesis
    using boxed_is_not_double [OF p assms(2)] boxed_and [OF p] by (simp add: v getPayload_def)
qed

lemma boxed_roundtrip_witness:
  "getTag (boxed JSON_OBJECT 0x7F0012345678) = 3 \<and>
   getPayload (boxed JSON_OBJECT 0x7F0012345678) = Inr 0x7F0012345678"
  using boxed_roundtrip [where v = "boxed JSON_OBJECT 0x7F0012345678" and p = "0x7F0012345678" and tag = JSON_OBJECT]
  by (simp add: value_of_tag_def JSON_VALUE_PAYLOAD_MASK_def)

subsection \<open>JsonErrno\<close>

datatype JsonErrno = JSON_OK | JSON_BAD_NUMBER | JSON_BAD_STRING | JSON_BAD_IDENTIFIER
  | JSON_STACK_OVERFLOW | JSON_STACK_UNDERFLOW | JSON_MISMATCH_BRACKET | JSON_UNEXPECTED_CHARACTER
  | JSON_UNQUOTED_KEY | JSON_BREAKING_BAD | JSON_ALLOCATION_FAILURE

definition JSON_ERRNO_MAP :: "(JsonErrno \<times> cstring) list" where
  "JSON_ERRNO_MAP =
     [(JSON_OK, ''ok''), (JSON_BAD_NUMBER, ''bad number''), (JSON_BAD_STRING, ''bad string''),
      (JSON_BAD_IDENTIFIER, ''bad identifier''), (JSON_STACK_OVERFLOW, ''stack overflow''),
      (JSON_STACK_UNDERFLOW, ''stack underflow''), (JSON_MISMATCH_BRACKET, ''mismatch bracket''),
      (JSON_UNEXPECTED_CHARACTER, ''unexpected character''), (JSON_UNQUOTED_KEY, ''unquoted key''),
      (JSON_BREAKING_BAD, ''breaking bad''), (JSON_ALLOCATION_FAILURE, ''allocation failure'')]"

text \<open>The enumerators count from 0 in the order of the map; any \<open>int\<close> may be asked for.\<close>

definition jsonStrError :: "int \<Rightarrow> cstring" where
  "jsonStrError err =
     (if 0 \<le> err \<and> err < int (length JSON_ERRNO_MAP) then snd (JSON_ERRNO_MAP ! nat err) else ''unknown'')"

lemma jsonStrError_code:
  assumes "i < length JSON_ERRNO_MAP"
  shows "map_of JSON_ERRNO_MAP (fst (JSON_ERRNO_MAP ! i)) = Some (jsonStrError (int i))"
proof -
  have "\<forall>i < length JSON_ERRNO_MAP.
      map_of JSON_ERRNO_MAP (fst (JSON_ERRNO_MAP ! i)) = Some (snd (JSON_ERRNO_MAP ! i))"
    unfolding JSON_ERRNO_MAP_def by (simp add: All_less_Suc)
  with assms show ?thesis
    by (simp add: jsonStrError_def)
qed

subsection \<open>JsonAllocator\<close>

text \<open>
  The zones in the order of their links, from \<open>head\<close>.  \<open>zone_size\<close> is what \<open>malloc\<close> was asked for;
  the program does not keep it.  Sizes and addresses are 64-bit words.
\<close>

record Zone =
  zone_base :: "64 word"
  zone_used :: "64 word"
  zone_size :: "64 word"

definition JSON_ZONE_SIZE :: "64 word" where "JSON_ZONE_SIZE = 4096"
definition sizeof_Zone :: "64 word" where "sizeof_Zone = 16"

definition round_up :: "64 word \<Rightarrow> 64 word" where
  "round_up sz = (sz + 7) AND NOT 7"

text \<open>A new zone becomes the head unless it is made for one large block, which goes behind the head.\<close>

definition link_zone :: "64 word \<Rightarrow> Zone \<Rightarrow> Zone list \<Rightarrow> Zone list" where
  "link_zone allocSize zone zones =
     (case zones of [] \<Rightarrow> [zone]
      | head # rest \<Rightarrow> if allocSize \<le> JSON_ZONE_SIZE then zone # head # rest else head # zone # rest)"

definition new_zone :: "(64 word \<Rightarrow> 64 word option) \<Rightarrow> 64 word \<Rightarrow> Zone list \<Rightarrow> 64 word option \<times> Zone list" where
  "new_zone malloc sz zones =
     (let allocSize = sizeof_Zone + sz;
          asked = (if allocSize \<le> JSON_ZONE_SIZE then JSON_ZONE_SIZE else allocSize)
      in case malloc asked of None \<Rightarrow> (None, zones)
         | Some p \<Rightarrow> (Some (p + sizeof_Zone),
             link_zone allocSize \<lparr>zone_base = p, zone_used = allocSize, zone_size = asked\<rparr> zones))"

text \<open>\<open>malloc\<close> is a parameter: what it answers in the present state of the heap.\<close>

definition allocate :: "(64 word \<Rightarrow> 64 word option) \<Rightarrow> 64 word \<Rightarrow> Zone list \<Rightarrow> 64 word option \<times> Zone list" where
  "allocate malloc size0 zones =
     (let sz = round_up size0
      in case zones of
           [] \<Rightarrow> new_zone malloc sz zones
         | head # rest \<Rightarrow>
             if zone_used head + sz \<le> JSON_ZONE_SIZE
             then (Some (zone_base head + zone_used head),
                   head\<lparr>zone_used := zone_used head + sz\<rparr> # rest)
             else new_zone malloc sz zones)"

text \<open>The addresses given to \<open>free\<close>, in order, and the zones left.\<close>

fun deallocate :: "Zone list \<Rightarrow> 64 word list \<times> Zone list" where
  "deallocate [] = ([], [])"
| "deallocate (head # rest) = (case deallocate rest of (freed, left) \<Rightarrow> (zone_base head # freed, left))"

text \<open>The two move operations give the zones of both sides; the assignment forgets what it had.\<close>

definition move_construct :: "Zone list \<Rightarrow> Zone list \<times> Zone list" where
  "move_construct x = (x, [])"

definition move_assign :: "Zone list \<Rightarrow> Zone list \<Rightarrow> Zone list \<times> Zone list" where
  "move_assign this x = (x, [])"

lemma deallocate_all: "deallocate zones = (map zone_base zones, [])"
  by (induction zones) simp_all

text \<open>The zones an allocator had before an assignment are held by neither side, and never freed.\<close>

lemma move_assign_leaks: "move_assign [z] [] = ([], [])"
  by (simp add: move_assign_def)

text \<open>A request near the end of the address space is rounded up to nothing.\<close>

lemma allocate_wraps:
  "allocate (\<lambda>_. Some p) (- 1) [] = (Some (p + 16), [\<lparr>zone_base = p, zone_used = 16, zone_size = 4096\<rparr>])"
  by (simp add: allocate_def new_zone_def round_up_def link_zone_def sizeof_Zone_def JSON_ZONE_SIZE_def Let_def)

text \<open>
  Memory in order: the zones lie apart in the address space, and every block handed out is inside
  the used part of a zone, behind its header, at a multiple of 8, and apart from every other.
\<close>

definition zone_range :: "Zone \<Rightarrow> nat set" where
  "zone_range z = {unat (zone_base z)..<unat (zone_base z) + unat (zone_size z)}"

definition block_range :: "64 word \<times> nat \<Rightarrow> nat set" where
  "block_range b = {unat (fst b)..<unat (fst b) + snd b}"

definition zone_ok :: "Zone \<Rightarrow> bool" where
  "zone_ok z \<longleftrightarrow> 16 \<le> unat (zone_used z) \<and> unat (zone_used z) \<le> unat (zone_size z) \<and>
     unat (zone_used z) \<le> 2 ^ 63 \<and> 4096 \<le> unat (zone_size z) \<and> 8 dvd unat (zone_used z) \<and> 8 dvd unat (zone_base z) \<and>
     unat (zone_base z) + unat (zone_size z) < 2 ^ 64"

definition block_ok :: "Zone list \<Rightarrow> 64 word \<times> nat \<Rightarrow> bool" where
  "block_ok zones b \<longleftrightarrow> 8 dvd unat (fst b) \<and> 
     (\<exists>z \<in> set zones. unat (zone_base z) + 16 \<le> unat (fst b) \<and>
        unat (fst b) + snd b \<le> unat (zone_base z) + unat (zone_used z))"

definition memory_ok :: "Zone list \<Rightarrow> (64 word \<times> nat) list \<Rightarrow> bool" where
  "memory_ok zones blocks \<longleftrightarrow>
     (\<forall>z \<in> set zones. zone_ok z) \<and>
     sorted_wrt (\<lambda>y z. disjnt (zone_range y) (zone_range z)) zones \<and>
     (\<forall>b \<in> set blocks. block_ok zones b) \<and>
     sorted_wrt (\<lambda>b c. disjnt (block_range b) (block_range c)) blocks"

text \<open>What is documented of \<open>malloc\<close>: an aligned block, apart from the zones still held.\<close>

definition malloc_documented :: "(64 word \<Rightarrow> 64 word option) \<Rightarrow> Zone list \<Rightarrow> bool" where
  "malloc_documented malloc zones \<longleftrightarrow>
     (\<forall>n p. malloc n = Some p \<longrightarrow> 16 dvd unat p \<and> unat p + unat n < 2 ^ 64 \<and>
        (\<forall>z \<in> set zones. disjnt {unat p..<unat p + unat n} (zone_range z)))"

lemma and_not_7: "unat ((x :: 64 word) AND NOT 7) = unat x div 8 * 8"
proof -
  have "x AND NOT (mask 3) = push_bit 3 (drop_bit 3 x)"
    by (rule bit_word_eqI) (auto simp: bit_simps)
  then have "unat (x AND NOT 7) = unat (push_bit 3 (drop_bit 3 x))"
    by (simp only: mask_numeral) (simp add: mask_eq_exp_minus_1)
  also have "\<dots> = unat (x div 8 * 8)"
    by (simp add: push_bit_eq_mult drop_bit_eq_div)
  also have "\<dots> = unat x div 8 * 8 mod 2 ^ 64"
    by (simp add: unat_word_ariths unat_div_distrib mod_mult_left_eq)
  also have "\<dots> = unat x div 8 * 8"
  proof -
    have "unat x div 8 * 8 < 2 ^ 64"
      using unsigned_less [of x, where 'a = nat] by (simp add: order.strict_trans1 [OF div_times_less_eq_dividend])
    then show ?thesis
      by (rule mod_less)
  qed
  finally show ?thesis .
qed

lemma round_up_unat:
  assumes "unat sz \<le> 2 ^ 62"
  shows "unat (round_up sz) = (unat sz + 7) div 8 * 8"
proof -
  have "unat (sz + 7) = unat sz + 7"
    using assms by (subst unat_plus_simple [THEN iffD1]) (simp_all add: word_le_nat_alt unat_word_ariths)
  then show ?thesis
    by (simp only: round_up_def and_not_7)
qed

lemma round_up_bounds:
  assumes "unat sz \<le> 2 ^ 62"
  shows "unat sz \<le> unat (round_up sz)" "unat (round_up sz) \<le> 2 ^ 62 + 7" "8 dvd unat (round_up sz)"
  using assms by (simp_all add: round_up_unat)

lemma unat_add_small: "unat a + unat b < 2 ^ 64 \<Longrightarrow> unat (a + b :: 64 word) = unat a + unat b"
  by (simp add: unat_word_ariths)

lemma block_ok_mono:
  assumes "block_ok zones b"
    and more: "\<And>z. z \<in> set zones \<Longrightarrow> \<exists>y \<in> set zones'. zone_base y = zone_base z \<and> unat (zone_used z) \<le> unat (zone_used y)"
  shows "block_ok zones' b"
proof -
  obtain z where z: "z \<in> set zones" "unat (zone_base z) + 16 \<le> unat (fst b)"
    "unat (fst b) + snd b \<le> unat (zone_base z) + unat (zone_used z)" and b: "8 dvd unat (fst b)"
    using assms(1) unfolding block_ok_def by blast
  obtain y where "y \<in> set zones'" "zone_base y = zone_base z" "unat (zone_used z) \<le> unat (zone_used y)"
    using more [OF z(1)] by blast
  then show ?thesis
    using z b unfolding block_ok_def by (intro conjI bexI [of _ y]) simp_all
qed

lemma block_in_zone:
  assumes "block_ok zones b" "\<And>z. z \<in> set zones \<Longrightarrow> zone_ok z"
  obtains z where "z \<in> set zones" "block_range b \<subseteq> zone_range z"
    "block_range b \<subseteq> {..<unat (zone_base z) + unat (zone_used z)}"
proof -
  obtain z where z: "z \<in> set zones" "unat (zone_base z) + 16 \<le> unat (fst b)"
    "unat (fst b) + snd b \<le> unat (zone_base z) + unat (zone_used z)"
    using assms(1) unfolding block_ok_def by blast
  have "unat (zone_used z) \<le> unat (zone_size z)"
    using assms(2) [OF z(1)] by (simp add: zone_ok_def)
  with z show thesis
    by (intro that [of z]) (auto simp: block_range_def zone_range_def)
qed

lemma memory_ok_Cons:
  "memory_ok zones (b # blocks) \<longleftrightarrow> memory_ok zones blocks \<and> block_ok zones b \<and>
     (\<forall>c \<in> set blocks. disjnt (block_range b) (block_range c))"
  by (auto simp: memory_ok_def)

text \<open>A block taken from the head, behind all that is used of it.\<close>

lemma head_block:
  assumes ok: "memory_ok (head # rest) blocks"
    and fits: "unat (zone_used head) + unat n \<le> 4096" "8 dvd unat n" "k \<le> unat n"
  shows "memory_ok (head\<lparr>zone_used := zone_used head + n\<rparr> # rest)
     ((zone_base head + zone_used head, k) # blocks)"
proof -
  let ?h = "head\<lparr>zone_used := zone_used head + n\<rparr>"
  let ?p = "zone_base head + zone_used head"
  have h: "zone_ok head"
    using ok by (simp add: memory_ok_def)
  have used: "unat (zone_used head + n) = unat (zone_used head) + unat n"
    using fits by (intro unat_add_small) simp
  have p: "unat ?p = unat (zone_base head) + unat (zone_used head)"
    using h by (intro unat_add_small) (simp add: zone_ok_def)
  have zones: "\<And>z. z \<in> set (head # rest) \<Longrightarrow> zone_ok z" "zone_ok ?h" "zone_range ?h = zone_range head"
    using ok h fits by (auto simp: memory_ok_def zone_ok_def zone_range_def used)
  have old: "block_ok (?h # rest) b" if "b \<in> set blocks" for b
  proof (rule block_ok_mono)
    show "block_ok (head # rest) b"
      using ok that by (simp add: memory_ok_def)
    show "\<exists>y \<in> set (?h # rest). zone_base y = zone_base z \<and> unat (zone_used z) \<le> unat (zone_used y)"
      if "z \<in> set (head # rest)" for z
      using that by (auto simp: used)
  qed
  have apart: "disjnt (block_range (?p, k)) (block_range b)" if b: "b \<in> set blocks" for b
  proof -
    have "block_ok (head # rest) b"
      using ok b by (simp add: memory_ok_def)
    then obtain z where z: "z \<in> set (head # rest)" "block_range b \<subseteq> zone_range z"
      "block_range b \<subseteq> {..<unat (zone_base z) + unat (zone_used z)}"
      using zones(1) by (rule block_in_zone)
    have new: "block_range (?p, k) \<subseteq> zone_range head" "block_range (?p, k) \<subseteq> {unat ?p..}"
      using h fits by (auto simp: block_range_def zone_range_def zone_ok_def p)
    show ?thesis
    proof (cases "z = head")
      case True
      then show ?thesis
        using z(3) new(2) unfolding disjnt_iff p by (meson atLeast_iff lessThan_iff not_le subsetD)
    next
      case False
      then have "disjnt (zone_range head) (zone_range z)"
        using z(1) ok by (auto simp: memory_ok_def)
      then show ?thesis
        using z(2) new(1) by (auto simp: disjnt_def)
    qed
  qed
  have "block_ok (?h # rest) (?p, k)"
    using h fits by (auto simp: block_ok_def zone_ok_def used p)
  then show ?thesis
    using ok zones old apart by (auto simp: memory_ok_def)
qed

text \<open>A block that opens a zone of its own.\<close>

lemma link_zone_set: "set (link_zone n z zones) = insert z (set zones)"
  by (auto simp: link_zone_def split: list.split)

lemma link_zone_apart:
  assumes "sorted_wrt (\<lambda>y z. disjnt (zone_range y) (zone_range z)) zones"
    "\<And>y. y \<in> set zones \<Longrightarrow> disjnt (zone_range z) (zone_range y)"
  shows "sorted_wrt (\<lambda>y z. disjnt (zone_range y) (zone_range z)) (link_zone n z zones)"
  using assms by (auto simp: link_zone_def disjnt_sym split: list.split)

lemma zone_block:
  assumes ok: "memory_ok zones blocks"
    and z: "zone_ok z" "\<And>y. y \<in> set zones \<Longrightarrow> disjnt (zone_range z) (zone_range y)"
    and b: "unat p = unat (zone_base z) + 16" "k + 16 \<le> unat (zone_used z)"
  shows "memory_ok (link_zone n z zones) ((p, k) # blocks)"
proof -
  have old: "block_ok (link_zone n z zones) b" if "b \<in> set blocks" for b
  proof (rule block_ok_mono)
    show "block_ok zones b"
      using ok that by (simp add: memory_ok_def)
  qed (auto simp: link_zone_set)
  have new: "block_ok (link_zone n z zones) (p, k)"
    using z(1) b by (auto simp: block_ok_def zone_ok_def link_zone_set)
  have "block_range (p, k) \<subseteq> zone_range z"
    using z(1) b by (auto simp: block_range_def zone_range_def zone_ok_def)
  moreover have "\<exists>y \<in> set zones. block_range b \<subseteq> zone_range y" if "b \<in> set blocks" for b
  proof -
    have "block_ok zones b" "\<And>y. y \<in> set zones \<Longrightarrow> zone_ok y"
      using ok that by (simp_all add: memory_ok_def)
    then show ?thesis
      by (elim block_in_zone) auto
  qed
  ultimately have "disjnt (block_range (p, k)) (block_range b)" if "b \<in> set blocks" for b
    using z(2) that by (meson disjnt_subset1 disjnt_subset2)
  with old new ok z(1) link_zone_apart [OF _ z(2)] show ?thesis
    by (auto simp: memory_ok_def link_zone_set)
qed

text \<open>
  C30: The allocator keeps memory in order: whatever was handed out before, a block it returns is
  aligned to 8, holds the bytes asked for inside a zone and behind its header, and overlaps no
  other block; requests above a quarter of the address space are not considered.
\<close>

theorem allocate_keeps:
  assumes ok: "memory_ok zones blocks" and doc: "malloc_documented malloc zones"
    and k: "unat k \<le> 2 ^ 62" and got: "allocate malloc k zones = (Some p, zones')"
  shows "memory_ok zones' ((p, unat k) # blocks)"
proof -
  note r = round_up_bounds [OF k]
  have new: "memory_ok zones' ((p, unat k) # blocks)"
    if got: "new_zone malloc (round_up k) zones = (Some p, zones')"
  proof -
    define n where "n = sizeof_Zone + round_up k"
    define asked where "asked = (if n \<le> JSON_ZONE_SIZE then JSON_ZONE_SIZE else n)"
    have n: "unat n = 16 + unat (round_up k)"
      using r(2) unfolding n_def sizeof_Zone_def by (subst unat_add_small) simp_all
    have asked: "unat n \<le> unat asked" "4096 \<le> unat asked"
      by (simp_all add: asked_def JSON_ZONE_SIZE_def word_le_nat_alt)
    obtain q where q: "malloc asked = Some q" "p = q + sizeof_Zone"
      and zs: "zones' = link_zone n \<lparr>zone_base = q, zone_used = n, zone_size = asked\<rparr> zones"
      using got unfolding new_zone_def Let_def n_def [symmetric] asked_def [symmetric]
      by (auto split: option.splits)
    have d: "16 dvd unat q" "unat q + unat asked < 2 ^ 64"
      "\<And>z. z \<in> set zones \<Longrightarrow> disjnt {unat q..<unat q + unat asked} (zone_range z)"
      using doc q(1) by (auto simp: malloc_documented_def)
    show ?thesis
      unfolding zs
    proof (rule zone_block [OF ok])
      show "zone_ok \<lparr>zone_base = q, zone_used = n, zone_size = asked\<rparr>"
        using d(1,2) asked n r(2,3) dvd_trans [of 8 16 "unat q"] by (simp add: zone_ok_def)
      show "disjnt (zone_range \<lparr>zone_base = q, zone_used = n, zone_size = asked\<rparr>) (zone_range y)"
        if "y \<in> set zones" for y
        using d(3) [OF that] by (simp add: zone_range_def)
      show "unat p = unat (zone_base \<lparr>zone_base = q, zone_used = n, zone_size = asked\<rparr>) + 16"
        using d(2) asked by (simp add: q(2) sizeof_Zone_def unat_add_small)
      show "unat k + 16 \<le> unat (zone_used \<lparr>zone_base = q, zone_used = n, zone_size = asked\<rparr>)"
        using n r(1) by simp
    qed
  qed
  show ?thesis
  proof (cases zones)
    case Nil
    then show ?thesis
      using got new by (simp add: allocate_def)
  next
    case (Cons head rest)
    have h: "zone_ok head"
      using ok Cons by (simp add: memory_ok_def)
    have "unat (zone_used head + round_up k) = unat (zone_used head) + unat (round_up k)"
      using h r(2) by (intro unat_add_small) (simp add: zone_ok_def)
    then have "zone_used head + round_up k \<le> JSON_ZONE_SIZE \<Longrightarrow>
        unat (zone_used head) + unat (round_up k) \<le> 4096"
      by (simp add: word_le_nat_alt JSON_ZONE_SIZE_def)
    then show ?thesis
      using got new head_block [OF ok [unfolded Cons] _ r(3,1)]
      by (auto simp: allocate_def Let_def Cons split: if_splits)
  qed
qed

definition malloc_at :: "64 word \<Rightarrow> 64 word \<Rightarrow> 64 word option" where
  "malloc_at p n = (if n \<le> 65536 then Some p else None)"

lemma allocate_keeps_witness:
  "memory_ok [\<lparr>zone_base = 0x1000, zone_used = 40, zone_size = 4096\<rparr>] [(0x1010, 24)] \<and>
   memory_ok [\<lparr>zone_base = 0x1000, zone_used = 56, zone_size = 4096\<rparr>] [(0x1028, 16), (0x1010, 24)]"
proof -
  have 1: "memory_ok [\<lparr>zone_base = 0x1000, zone_used = 40, zone_size = 4096\<rparr>] [(0x1010, 24)]"
    by (simp add: memory_ok_def zone_ok_def block_ok_def)
  have "allocate (malloc_at 0x8000) 16 [\<lparr>zone_base = 0x1000, zone_used = 40, zone_size = 4096\<rparr>] =
      (Some 0x1028, [\<lparr>zone_base = 0x1000, zone_used = 56, zone_size = 4096\<rparr>])"
    by (simp add: allocate_def round_up_def JSON_ZONE_SIZE_def Let_def)
  moreover have "malloc_documented (malloc_at 0x8000) [\<lparr>zone_base = 0x1000, zone_used = 40, zone_size = 4096\<rparr>]"
    by (auto simp: malloc_documented_def malloc_at_def zone_range_def disjnt_def word_le_nat_alt split: if_splits)
  ultimately have "memory_ok [\<lparr>zone_base = 0x1000, zone_used = 56, zone_size = 4096\<rparr>]
      [(0x1028, unat (16 :: 64 word)), (0x1010, 24)]"
    by (intro allocate_keeps [OF 1]) simp_all
  with 1 show ?thesis
    by simp
qed

end
