(* ===== verification/Json_Lex.thy ===== *)
theory Json_Lex
  imports Json_Value Complex_Main
begin

section \<open>Reading JSON text: characters and numbers\<close>

text \<open>
  The static functions of \<open>tools/gason.cpp\<close> that read text.  A \<open>char *\<close> into text that is only
  read is the text from there on, to the end of the memory; reading the end is undefined
  behaviour.  \<open>char\<close> is signed, as on the platforms of the program.
\<close>

definition bindO :: "'a outcome \<Rightarrow> ('a \<Rightarrow> 'b outcome) \<Rightarrow> 'b outcome" where
  "bindO m k = (case m of Inl u \<Rightarrow> Inl u | Inr a \<Rightarrow> k a)"

lemma bindO_simps [simp]: "bindO (Inl u) k = Inl u" "bindO (Inr a) k = k a"
  by (simp_all add: bindO_def)

lemma bindO_cong [fundef_cong]:
  "m = m' \<Longrightarrow> (\<And>a. m' = Inr a \<Longrightarrow> k a = k' a) \<Longrightarrow> bindO m k = bindO m' k'"
  by (cases m') simp_all

lemma bindO_Inr: "bindO m k = Inr r \<longleftrightarrow> (\<exists>a. m = Inr a \<and> k a = Inr r)"
  by (cases m) simp_all

fun read_char :: "cstring \<Rightarrow> char outcome" where
  "read_char [] = Inl (Undefined Out_Of_Range)"
| "read_char (c # s) = Inr c"

definition schar :: "char \<Rightarrow> int" where
  "schar c = (let n = int (of_char c) in if n < 128 then n else n - 256)"

definition isspace :: "char \<Rightarrow> bool" where
  "isspace c \<longleftrightarrow> c = CHR '' '' \<or> (9 \<le> schar c \<and> schar c \<le> 13)"

definition isdelim :: "char \<Rightarrow> bool" where
  "isdelim c \<longleftrightarrow> c = CHR '','' \<or> c = CHR '':'' \<or> c = CHR '']'' \<or> c = CHR ''}'' \<or> isspace c \<or> c = NUL"

definition isdigit :: "char \<Rightarrow> bool" where
  "isdigit c \<longleftrightarrow> 48 \<le> schar c \<and> schar c \<le> 57"

text \<open>\<open>c & ~' '\<close> on the promoted \<open>int\<close>.\<close>

definition isxdigit :: "char \<Rightarrow> bool" where
  "isxdigit c \<longleftrightarrow> (48 \<le> schar c \<and> schar c \<le> 57) \<or>
     (65 \<le> schar c AND NOT 32 \<and> schar c AND NOT 32 \<le> 70)"

definition char2int :: "char \<Rightarrow> int" where
  "char2int c = (if schar c \<le> 57 then schar c - 48 else (schar c AND NOT 32) - 65 + 10)"

lemma isdigit_is_digit: "isdigit c \<longleftrightarrow> is_digit c"
proof -
  define n :: nat where "n = of_char c"
  have "n < 256"
    by (simp add: n_def)
  then show ?thesis
    by (auto simp: isdigit_def is_digit_def schar_def Let_def simp flip: n_def)
qed

lemma isspace_is_space: "isspace c \<longleftrightarrow> is_space c"
proof -
  have "9 \<le> schar c \<and> schar c \<le> 13 \<longleftrightarrow> of_char c \<in> {9::nat, 10, 11, 12, 13}"
  proof -
    define n :: nat where "n = of_char c"
    have "n < 256"
      by (simp add: n_def)
    then show ?thesis
      by (auto simp: schar_def Let_def simp flip: n_def)
  qed
  also have "\<dots> \<longleftrightarrow> c \<in> char_of ` {9::nat, 10, 11, 12, 13}"
    by (auto simp: image_iff dest!: arg_cong [where f = "char_of :: nat \<Rightarrow> char"])
  also have "char_of ` {9::nat, 10, 11, 12, 13} = {CHR 0x09, LF, CHR 0x0B, CHR 0x0C, CR}"
    by code_simp
  finally show ?thesis
    by (auto simp: isspace_def is_space_def)
qed

subsection \<open>string2double\<close>

text \<open>
  The arithmetic of \<open>double\<close> is a parameter: the number of a small natural number, 0.1, sum,
  product and negation.
\<close>

record 'd fp =
  fp_nat :: "nat \<Rightarrow> 'd"
  fp_tenth :: 'd
  fp_add :: "'d \<Rightarrow> 'd \<Rightarrow> 'd"
  fp_mul :: "'d \<Rightarrow> 'd \<Rightarrow> 'd"
  fp_neg :: "'d \<Rightarrow> 'd"

fun integer_part :: "'d fp \<Rightarrow> 'd \<Rightarrow> cstring \<Rightarrow> ('d \<times> cstring) outcome" where
  "integer_part F result [] = Inl (Undefined Out_Of_Range)"
| "integer_part F result (c # s) =
     (if isdigit c
      then integer_part F (fp_add F (fp_mul F result (fp_nat F 10)) (fp_nat F (digit_value c))) s
      else Inr (result, c # s))"

fun fraction_part :: "'d fp \<Rightarrow> 'd \<Rightarrow> 'd \<Rightarrow> cstring \<Rightarrow> ('d \<times> cstring) outcome" where
  "fraction_part F fraction result [] = Inl (Undefined Out_Of_Range)"
| "fraction_part F fraction result (c # s) =
     (if isdigit c
      then let fraction = fp_mul F fraction (fp_tenth F)
           in fraction_part F fraction (fp_add F result (fp_mul F (fp_nat F (digit_value c)) fraction)) s
      else Inr (result, c # s))"

text \<open>\<open>unsigned int\<close> wraps around.\<close>

fun exponent_part :: "32 word \<Rightarrow> cstring \<Rightarrow> (32 word \<times> cstring) outcome" where
  "exponent_part exponent [] = Inl (Undefined Out_Of_Range)"
| "exponent_part exponent (c # s) =
     (if isdigit c then exponent_part (exponent * 10 + word_of_nat (digit_value c)) s
      else Inr (exponent, c # s))"

function power_loop :: "'d fp \<Rightarrow> 32 word \<Rightarrow> 'd \<Rightarrow> 'd \<Rightarrow> 'd" where
  "power_loop F exponent base pow =
     (if exponent = 0 then pow
      else power_loop F (drop_bit 1 exponent) (fp_mul F base base)
             (if exponent AND 1 \<noteq> 0 then fp_mul F pow base else pow))"
  by auto

lemma drop_1_less: "exponent \<noteq> 0 \<Longrightarrow> unat (drop_bit 1 exponent) < unat (exponent :: 32 word)"
  by (simp add: drop_bit_Suc unat_div_distrib unat_gt_0)

termination power_loop
  by (relation "measure (\<lambda>(F, exponent, base, pow). unat exponent)") (simp_all add: drop_1_less [simplified])

declare power_loop.simps [simp del]

definition exponent_of :: "'d fp \<Rightarrow> 'd \<Rightarrow> cstring \<Rightarrow> ('d \<times> cstring) outcome" where
  "exponent_of F result s =
     bindO (read_char s) (\<lambda>c.
       let (base, s) = (if c = CHR ''+'' then (fp_nat F 10, tl s)
                        else if c = CHR ''-'' then (fp_tenth F, tl s) else (fp_nat F 10, s))
       in bindO (exponent_part 0 s) (\<lambda>(exponent, s).
            Inr (fp_mul F result (power_loop F exponent base (fp_nat F 1)), s)))"

definition optional_fraction :: "'d fp \<Rightarrow> 'd \<Rightarrow> cstring \<Rightarrow> ('d \<times> cstring) outcome" where
  "optional_fraction F result s =
     bindO (read_char s) (\<lambda>c.
       if c = CHR ''.'' then fraction_part F (fp_nat F 1) result (tl s) else Inr (result, s))"

definition optional_exponent :: "'d fp \<Rightarrow> 'd \<Rightarrow> cstring \<Rightarrow> ('d \<times> cstring) outcome" where
  "optional_exponent F result s =
     bindO (read_char s) (\<lambda>c.
       if c = CHR ''e'' \<or> c = CHR ''E'' then exponent_of F result (tl s) else Inr (result, s))"

definition string2double :: "'d fp \<Rightarrow> cstring \<Rightarrow> ('d \<times> cstring) outcome" where
  "string2double F s =
     bindO (read_char s) (\<lambda>ch.
     bindO (integer_part F (fp_nat F 0) (if ch = CHR ''-'' then tl s else s)) (\<lambda>(result, s).
     bindO (optional_fraction F result s) (\<lambda>(result, s).
     bindO (optional_exponent F result s) (\<lambda>(result, s).
       Inr (if ch = CHR ''-'' then fp_neg F result else result, s)))))"

subsection \<open>The number a literal denotes\<close>

text \<open>
  A literal: its sign, its digits, the digits of its fraction, and the sign and the digits of its
  exponent.  The digits may be missing; \<open>string2double\<close> does not mind.
\<close>

datatype exp_sign = No_Sign | Plus_Sign | Minus_Sign

record number =
  num_neg :: bool
  num_int :: cstring
  num_frac :: "cstring option"
  num_exp :: "(exp_sign \<times> cstring) option"

fun sign_text :: "exp_sign \<Rightarrow> cstring" where
  "sign_text No_Sign = []"
| "sign_text Plus_Sign = ''+''"
| "sign_text Minus_Sign = ''-''"

definition number_text :: "number \<Rightarrow> cstring" where
  "number_text n = (if num_neg n then ''-'' else []) @ num_int n @
     (case num_frac n of None \<Rightarrow> [] | Some fs \<Rightarrow> CHR ''.'' # fs) @
     (case num_exp n of None \<Rightarrow> [] | Some (sg, es) \<Rightarrow> CHR ''e'' # sign_text sg @ es)"

definition number_ok :: "number \<Rightarrow> bool" where
  "number_ok n \<longleftrightarrow> list_all isdigit (num_int n) \<and>
     (case num_frac n of None \<Rightarrow> True | Some fs \<Rightarrow> list_all isdigit fs) \<and>
     (case num_exp n of None \<Rightarrow> True | Some (sg, es) \<Rightarrow> list_all isdigit es)"

text \<open>What the loops compute, whatever the arithmetic.\<close>

fun int_fold :: "'d fp \<Rightarrow> 'd \<Rightarrow> cstring \<Rightarrow> 'd" where
  "int_fold F r [] = r"
| "int_fold F r (c # s) = int_fold F (fp_add F (fp_mul F r (fp_nat F 10)) (fp_nat F (digit_value c))) s"

fun frac_fold :: "'d fp \<Rightarrow> 'd \<Rightarrow> 'd \<Rightarrow> cstring \<Rightarrow> 'd" where
  "frac_fold F u r [] = r"
| "frac_fold F u r (c # s) =
     frac_fold F (fp_mul F u (fp_tenth F)) (fp_add F r (fp_mul F (fp_nat F (digit_value c)) (fp_mul F u (fp_tenth F)))) s"

definition exp_fold :: "'d fp \<Rightarrow> 'd \<Rightarrow> exp_sign \<Rightarrow> cstring \<Rightarrow> 'd" where
  "exp_fold F r sg es = fp_mul F r
     (power_loop F (word_of_nat (digits_value 0 es)) (if sg = Minus_Sign then fp_tenth F else fp_nat F 10) (fp_nat F 1))"

definition number_double :: "'d fp \<Rightarrow> number \<Rightarrow> 'd" where
  "number_double F n =
     (let r = int_fold F (fp_nat F 0) (num_int n);
          r = (case num_frac n of None \<Rightarrow> r | Some fs \<Rightarrow> frac_fold F (fp_nat F 1) r fs);
          r = (case num_exp n of None \<Rightarrow> r | Some (sg, es) \<Rightarrow> exp_fold F r sg es)
      in if num_neg n then fp_neg F r else r)"

lemma integer_part_fold:
  "list_all isdigit ds \<Longrightarrow> \<not> isdigit c \<Longrightarrow> integer_part F r (ds @ c # t) = Inr (int_fold F r ds, c # t)"
  by (induction ds arbitrary: r) simp_all

lemma fraction_part_fold:
  "list_all isdigit ds \<Longrightarrow> \<not> isdigit c \<Longrightarrow> fraction_part F u r (ds @ c # t) = Inr (frac_fold F u r ds, c # t)"
  by (induction ds arbitrary: u r) (simp_all add: Let_def)

lemma exponent_part_fold:
  "list_all isdigit ds \<Longrightarrow> \<not> isdigit c \<Longrightarrow>
     exponent_part (word_of_nat e) (ds @ c # t) = Inr (word_of_nat (digits_value e ds), c # t)"
proof (induction ds arbitrary: e)
  case (Cons d ds)
  have "word_of_nat e * 10 + word_of_nat (digit_value d) = (word_of_nat (10 * e + digit_value d) :: 32 word)"
    by (simp add: mult.commute)
  then have step: "word_of_nat e * 10 + word_of_nat (digit_value d) = (word_of_nat (10 * e + digit_value d) :: 32 word)" .
  have "exponent_part (word_of_nat e) ((d # ds) @ c # t) =
      exponent_part (word_of_nat (10 * e + digit_value d)) (ds @ c # t)"
    using Cons.prems(1) unfolding append_Cons exponent_part.simps step by simp
  also have "\<dots> = Inr (word_of_nat (digits_value (10 * e + digit_value d) ds), c # t)"
    using Cons.prems by (intro Cons.IH) simp_all
  finally show ?case
    by (simp only: digits_value.simps)
qed simp

lemma isdigit_special: "isdigit c \<Longrightarrow> c \<notin> {CHR ''-'', CHR ''+'', CHR ''.'', CHR ''e'', CHR ''E'', NUL}"
  by (auto simp: isdigit_def schar_def)

lemma not_digit [simp]:
  "\<not> isdigit CHR ''-''" "\<not> isdigit CHR ''+''" "\<not> isdigit CHR ''.''" "\<not> isdigit CHR ''e''" "\<not> isdigit CHR ''E''" "\<not> isdigit NUL"
  by (simp_all add: isdigit_def schar_def)

lemma isdelim_special: "isdelim c \<Longrightarrow> \<not> isdigit c \<and> c \<notin> {CHR ''-'', CHR ''+'', CHR ''.'', CHR ''e'', CHR ''E''}"
  by (auto simp: isdelim_def isdigit_def isspace_def schar_def)

lemma exponent_of_fold:
  assumes "list_all isdigit es" "isdelim c"
  shows "exponent_of F r (sign_text sg @ es @ c # t) = Inr (exp_fold F r sg es, c # t)"
proof -
  note c = isdelim_special [OF assms(2)]
  have e: "exponent_part 0 (es @ c # t) = Inr (word_of_nat (digits_value 0 es), c # t)"
    using exponent_part_fold [of es c 0 t] assms(1) c by simp
  show ?thesis
  proof (cases sg)
    case No_Sign
    then show ?thesis
      using e c assms(1) isdigit_special [of "hd es"]
      by (cases es) (simp_all add: exponent_of_def exp_fold_def Let_def)
  qed (simp_all add: exponent_of_def exp_fold_def e)
qed

text \<open>The parts of a literal, read one after the other.\<close>

definition frac_text :: "cstring option \<Rightarrow> cstring" where
  "frac_text fr = (case fr of None \<Rightarrow> [] | Some fs \<Rightarrow> CHR ''.'' # fs)"

definition exp_text :: "(exp_sign \<times> cstring) option \<Rightarrow> cstring" where
  "exp_text ex = (case ex of None \<Rightarrow> [] | Some (sg, es) \<Rightarrow> CHR ''e'' # sign_text sg @ es)"

lemma exp_text_first:
  assumes "isdelim c"
  obtains x u where "exp_text ex @ c # t = x # u" "\<not> isdigit x" "x \<noteq> CHR ''.''" "x \<noteq> CHR ''-''"
  using isdelim_special [OF assms] by (cases ex) (auto simp: exp_text_def)

lemma frac_text_first:
  assumes "isdelim c"
  obtains x u where "frac_text fr @ exp_text ex @ c # t = x # u" "\<not> isdigit x" "x \<noteq> CHR ''-''"
proof (cases fr)
  case None
  then show thesis
    using that exp_text_first [OF assms, of ex t] by (metis append_Nil frac_text_def option.simps(4))
next
  case (Some fs)
  then show thesis
    by (intro that [of "CHR ''.''"]) (simp_all add: frac_text_def)
qed

lemma read_exponent:
  assumes "case ex of None \<Rightarrow> True | Some (sg, es) \<Rightarrow> list_all isdigit es" and c: "isdelim c"
  shows "optional_exponent F r (exp_text ex @ c # t) =
    Inr (case ex of None \<Rightarrow> r | Some (sg, es) \<Rightarrow> exp_fold F r sg es, c # t)"
  using assms isdelim_special [OF c] exponent_of_fold [OF _ c]
  by (cases ex) (auto simp: exp_text_def optional_exponent_def)

lemma read_fraction:
  assumes "case fr of None \<Rightarrow> True | Some fs \<Rightarrow> list_all isdigit fs" and c: "isdelim c"
  shows "optional_fraction F r (frac_text fr @ exp_text ex @ c # t) =
    Inr (case fr of None \<Rightarrow> r | Some fs \<Rightarrow> frac_fold F (fp_nat F 1) r fs, exp_text ex @ c # t)"
proof -
  obtain x v where "exp_text ex @ c # t = x # v" "\<not> isdigit x" "x \<noteq> CHR ''.''" "x \<noteq> CHR ''-''"
    by (rule exp_text_first [OF c])
  then show ?thesis
    using assms(1) by (cases fr) (simp_all add: frac_text_def fraction_part_fold optional_fraction_def)
qed

text \<open>\<open>string2double\<close> stops at the delimiter behind the literal.\<close>

lemma string2double_fold:
  assumes ok: "number_ok n" and c: "isdelim c"
  shows "string2double F (number_text n @ c # t) = Inr (number_double F n, c # t)"
proof -
  let ?sg = "if num_neg n then ''-'' else []"
  let ?fr = "frac_text (num_frac n) @ exp_text (num_exp n) @ c # t"
  let ?s = "num_int n @ ?fr"
  obtain x u where fr: "?fr = x # u" "\<not> isdigit x" "x \<noteq> CHR ''-''"
    by (rule frac_text_first [OF c])
  have lit: "number_text n @ c # t = ?sg @ ?s"
    by (simp add: number_text_def frac_text_def exp_text_def)
  have int: "integer_part F (fp_nat F 0) ?s = Inr (int_fold F (fp_nat F 0) (num_int n), ?fr)"
    unfolding fr(1) using ok fr(2) by (intro integer_part_fold) (simp_all add: number_ok_def)
  obtain ch where ch: "read_char (?sg @ ?s) = Inr ch" "ch = CHR ''-'' \<longleftrightarrow> num_neg n"
    "(if ch = CHR ''-'' then tl (?sg @ ?s) else ?sg @ ?s) = ?s"
  proof (cases "num_neg n")
    case False
    have "read_char ?s = Inr (hd ?s) \<and> hd ?s \<noteq> CHR ''-''"
      using ok fr isdigit_special [of "hd (num_int n)"]
      by (cases "num_int n") (simp_all add: number_ok_def)
    with False show thesis
      by (intro that [of "hd ?s"]) simp_all
  qed (simp add: that)
  have "string2double F (number_text n @ c # t) =
      bindO (optional_fraction F (int_fold F (fp_nat F 0) (num_int n)) ?fr) (\<lambda>(r, s).
      bindO (optional_exponent F r s) (\<lambda>(r, s). Inr (if num_neg n then fp_neg F r else r, s)))"
    unfolding string2double_def lit ch(1) bindO_simps(2) ch(3) int by (simp add: ch(2))
  moreover have "case num_frac n of None \<Rightarrow> True | Some fs \<Rightarrow> list_all isdigit fs"
    "case num_exp n of None \<Rightarrow> True | Some (sg, es) \<Rightarrow> list_all isdigit es"
    using ok by (simp_all add: number_ok_def)
  ultimately show ?thesis
    by (simp only: read_fraction [OF _ c] read_exponent [OF _ c] bindO_simps prod.case number_double_def Let_def)
qed

subsection \<open>The arithmetic of string2double\<close>

text \<open>
  With exact numbers in place of doubles, the loops compute the number the literal denotes.
\<close>

definition exact :: "real fp" where
  "exact = \<lparr>fp_nat = real, fp_tenth = 1 / 10, fp_add = (+), fp_mul = (*), fp_neg = uminus\<rparr>"

definition number_value :: "number \<Rightarrow> real" where
  "number_value n =
     (if num_neg n then - 1 else 1) *
     (real (digits_value 0 (num_int n)) +
        (case num_frac n of None \<Rightarrow> 0 | Some fs \<Rightarrow> real (digits_value 0 fs) / 10 ^ length fs)) *
     (case num_exp n of None \<Rightarrow> 1
      | Some (sg, es) \<Rightarrow> if sg = Minus_Sign then 1 / 10 ^ digits_value 0 es else 10 ^ digits_value 0 es)"

lemma exact_simps:
  "fp_nat exact = real" "fp_tenth exact = 1 / 10" "fp_add exact = (+)" "fp_mul exact = (*)" "fp_neg exact = uminus"
  by (simp_all add: exact_def)

lemma exact_int: "int_fold exact (real m) ds = real (digits_value m ds)"
proof (induction ds arbitrary: m)
  case (Cons d ds)
  have "real m * real 10 + real (digit_value d) = real (10 * m + digit_value d)"
    by simp
  then show ?case
    using Cons.IH by (simp only: int_fold.simps exact_simps digits_value.simps)
qed simp

lemma exact_frac: "frac_fold exact (1 / 10 ^ k) (r + real m / 10 ^ k) ds = r + real (digits_value m ds) / 10 ^ (k + length ds)"
proof (induction ds arbitrary: k m)
  case (Cons d ds)
  have 1: "1 / 10 ^ k * (1 / 10) = 1 / (10 :: real) ^ Suc k"
    by simp
  have 2: "r + real m / 10 ^ k + real (digit_value d) * (1 / 10 ^ Suc k) =
      r + real (10 * m + digit_value d) / 10 ^ Suc k"
    by (simp add: field_simps)
  have "frac_fold exact (1 / 10 ^ k) (r + real m / 10 ^ k) (d # ds) =
      frac_fold exact (1 / 10 ^ Suc k) (r + real (10 * m + digit_value d) / 10 ^ Suc k) ds"
    by (simp only: frac_fold.simps exact_simps 1 2)
  also have "\<dots> = r + real (digits_value (10 * m + digit_value d) ds) / 10 ^ (Suc k + length ds)"
    by (rule Cons.IH)
  finally show ?case
    by simp
qed simp

lemma exact_power: "power_loop exact e b p = p * b ^ unat e"
proof (induction exact e b p rule: power_loop.induct)
  case (1 e b p)
  show ?case
  proof (cases "e = 0")
    case False
    have half: "unat (drop_bit 1 e) = unat e div 2"
      by (simp add: drop_bit_Suc unat_div_distrib)
    have "e AND 1 = 0 \<longleftrightarrow> unat (e mod 2) = 0"
      by (simp add: and_one_eq unat_eq_0)
    then have odd: "e AND 1 = 0 \<longleftrightarrow> even (unat e)"
      by (simp add: unat_mod_distrib even_iff_mod_2_eq_zero)
    have "b ^ unat e = (b * b) ^ (unat e div 2) * b ^ (unat e mod 2)"
      by (metis mult_div_mod_eq power_add power_mult power2_eq_square)
    then have pow: "b ^ unat e = (if even (unat e) then 1 else b) * (b * b) ^ (unat e div 2)"
      by (simp add: mod_2_eq_odd)
    have "power_loop exact e b p = (if e AND 1 \<noteq> 0 then p * b else p) * (b * b) ^ unat (drop_bit 1 e)"
      using 1 False by (subst power_loop.simps) (simp only: exact_simps if_False not_False_eq_True)
    then show ?thesis
      using half by (simp add: odd pow)
  qed (simp add: power_loop.simps)
qed

lemma exact_number:
  assumes "case num_exp n of None \<Rightarrow> True | Some (sg, es) \<Rightarrow> digits_value 0 es < 2 ^ 32"
  shows "number_double exact n = number_value n"
proof -
  define r where "r = (case num_frac n of None \<Rightarrow> int_fold exact (fp_nat exact 0) (num_int n)
    | Some fs \<Rightarrow> frac_fold exact (fp_nat exact 1) (int_fold exact (fp_nat exact 0) (num_int n)) fs)"
  have "r = real (digits_value 0 (num_int n)) +
      (case num_frac n of None \<Rightarrow> 0 | Some fs \<Rightarrow> real (digits_value 0 fs) / 10 ^ length fs)"
    using exact_int [of 0 "num_int n"] exact_frac [of 0 "real (digits_value 0 (num_int n))" 0]
    by (cases "num_frac n") (simp_all add: r_def exact_simps)
  moreover have "exp_fold exact r sg es = r * (if sg = Minus_Sign then 1 / 10 ^ digits_value 0 es else 10 ^ digits_value 0 es)"
    if "num_exp n = Some (sg, es)" for sg es
    using assms that by (simp add: exp_fold_def exact_power exact_simps unat_of_nat power_one_over)
  moreover have "number_double exact n =
      (let v = (case num_exp n of None \<Rightarrow> r | Some (sg, es) \<Rightarrow> exp_fold exact r sg es)
       in if num_neg n then - v else v)"
    by (simp only: number_double_def Let_def r_def exact_simps)
  ultimately show ?thesis
    by (cases "num_exp n") (auto simp: number_value_def Let_def algebra_simps minus_divide_left)
qed

text \<open>
  C31: With exact arithmetic \<open>string2double\<close> reads a number literal, whatever delimiter follows, as the
  number it denotes, sign, fraction and exponent included, and stops at the delimiter; an exponent
  of ten digits and more may wrap around.
\<close>

theorem string2double_exact:
  assumes "number_ok n" "isdelim c" "case num_exp n of None \<Rightarrow> True | Some (sg, es) \<Rightarrow> digits_value 0 es < 2 ^ 32"
  shows "string2double exact (number_text n @ c # t) = Inr (number_value n, c # t)"
  by (simp only: string2double_fold [OF assms(1,2)] exact_number [OF assms(3)])

lemma string2double_exact_witness:
  "string2double exact ''-12.50e-1,'' = Inr (- 1.25, '','')"
  using string2double_exact [of "\<lparr>num_neg = True, num_int = ''12'', num_frac = Some ''50'', num_exp = Some (Minus_Sign, ''1'')\<rparr>"
      "CHR '',''" "[]"]
  by (simp add: number_ok_def number_text_def number_value_def isdelim_def isdigit_def schar_def digit_value_def)

text \<open>An exponent of \<open>2 ^ 32\<close> is none.\<close>

lemma exponent_wraps: "exponent_part 0 ''4294967296,'' = Inr (0, '','')"
  by (simp add: isdigit_def schar_def digit_value_def)

end
