(* ===== verification/Json_Unquote.thy ===== *)
theory Json_Unquote
  imports Json_Lex
begin

unbundle bit_operations_syntax

section \<open>JSON strings, decoded in place\<close>

text \<open>
  The string case of \<open>jsonParse\<close>.  The text is memory that the parser changes: strings are decoded
  where they stand.  A pointer into it is an index.  \<open>unquote_lex\<close> says what the decoding does to
  the memory, in terms of a lexer on text that is not changed.
\<close>

type_synonym memory = "char list"

definition peek :: "memory \<Rightarrow> nat \<Rightarrow> char outcome" where
  "peek b i = (if i < length b then Inr (b ! i) else Inl (Undefined Out_Of_Range))"

definition poke :: "memory \<Rightarrow> nat \<Rightarrow> char \<Rightarrow> memory outcome" where
  "poke b i c = (if i < length b then Inr (b[i := c]) else Inl (Undefined Buffer_Overflow))"

subsection \<open>Strings, decoded in place\<close>

text \<open>The digits of \<open>\u\<close>: from \<open>s\<close>, the place of the u, \<open>n\<close> more are read; \<open>Inl\<close> is the place of a wrong one.\<close>

fun read_hex :: "memory \<Rightarrow> nat \<Rightarrow> nat \<Rightarrow> int \<Rightarrow> (nat + nat \<times> int) outcome" where
  "read_hex b s 0 c = Inr (Inr (s, c))"
| "read_hex b s (Suc n) c =
     bindO (peek b (s + 1)) (\<lambda>x.
       if isxdigit x then read_hex b (s + 1) n (c * 16 + char2int x) else Inr (Inl (s + 1)))"

definition to_char :: "int \<Rightarrow> char" where
  "to_char i = char_of (nat (i mod 256))"

definition utf8 :: "int \<Rightarrow> cstring" where
  "utf8 c =
     (if c < 0x80 then [to_char c]
      else if c < 0x800 then [to_char (0xC0 OR drop_bit 6 c), to_char (0x80 OR (c AND 0x3F))]
      else [to_char (0xE0 OR drop_bit 12 c), to_char (0x80 OR (drop_bit 6 c AND 0x3F)),
            to_char (0x80 OR (c AND 0x3F))])"

fun poke_all :: "memory \<Rightarrow> nat \<Rightarrow> cstring \<Rightarrow> memory outcome" where
  "poke_all b i [] = Inr b"
| "poke_all b i (c # cs) = bindO (poke b i c) (\<lambda>b. poke_all b (i + 1) cs)"

fun simple_escape :: "char \<Rightarrow> char option" where
  "simple_escape c =
     (if c \<in> {CHR 0x5C, CHR 0x22, CHR ''/''} then Some c
      else if c = CHR ''b'' then Some (CHR 0x08)
      else if c = CHR ''f'' then Some (CHR 0x0C)
      else if c = CHR ''n'' then Some LF
      else if c = CHR ''r'' then Some CR
      else if c = CHR ''t'' then Some (CHR 0x09)
      else None)"

text \<open>
  One escape: \<open>it\<close> is the place written to and \<open>s\<close> the place of the character behind the
  backslash.  The result is the new memory, \<open>it\<close> and \<open>s\<close>, or the place of an error.
\<close>

definition unicode_escape :: "memory \<Rightarrow> nat \<Rightarrow> nat \<Rightarrow> (memory \<times> (nat + nat \<times> nat)) outcome" where
  "unicode_escape b it s =
     bindO (read_hex b s 4 0) (\<lambda>r.
       case r of
         Inl e \<Rightarrow> Inr (b, Inl e)
       | Inr (s, c) \<Rightarrow> bindO (poke_all b it (utf8 c)) (\<lambda>b. Inr (b, Inr (it + length (utf8 c) - 1, s))))"

definition escape :: "memory \<Rightarrow> nat \<Rightarrow> nat \<Rightarrow> (memory \<times> (nat + nat \<times> nat)) outcome" where
  "escape b it s =
     bindO (peek b s) (\<lambda>c.
       case simple_escape c of
         Some x \<Rightarrow> bindO (poke b it x) (\<lambda>b. Inr (b, Inr (it, s)))
       | None \<Rightarrow> if c = CHR ''u'' then unicode_escape b it s else Inr (b, Inl s))"

lemma peek_Inr [simp]: "peek b i = Inr c \<longleftrightarrow> i < length b \<and> c = b ! i"
  by (auto simp: peek_def)

lemma poke_Inr [simp]: "poke b i c = Inr b' \<longleftrightarrow> i < length b \<and> b' = b[i := c]"
  by (auto simp: poke_def)

lemma read_hex_advances: "read_hex b s n c = Inr (Inr (s', c')) \<Longrightarrow> s \<le> s' \<and> (n = 0 \<or> s' < length b)"
  by (induction b s n c rule: read_hex.induct) (force simp: bindO_Inr split: if_splits)+

lemma poke_all_length: "poke_all b i cs = Inr b' \<Longrightarrow> length b' = length b"
  by (induction b i cs rule: poke_all.induct) (auto simp: bindO_Inr)

lemma unicode_escape_Inr:
  "unicode_escape b it s = Inr (b', Inr (it', s')) \<longleftrightarrow>
     (\<exists>c. read_hex b s 4 0 = Inr (Inr (s', c)) \<and> poke_all b it (utf8 c) = Inr b' \<and> it' = it + length (utf8 c) - 1)"
proof (cases "read_hex b s 4 0")
  case (Inr r)
  then show ?thesis
    by (cases r) (auto simp: unicode_escape_def bindO_Inr)
qed (simp add: unicode_escape_def)

lemma escape_Inr:
  "escape b it s = Inr (b', Inr (it', s')) \<longleftrightarrow> s < length b \<and>
     ((\<exists>x. simple_escape (b ! s) = Some x \<and> it < length b \<and> b' = b[it := x] \<and> it' = it \<and> s' = s) \<or>
      (simple_escape (b ! s) = None \<and> b ! s = CHR ''u'' \<and> unicode_escape b it s = Inr (b', Inr (it', s'))))"
proof (cases "simple_escape (b ! s)")
  case None
  then show ?thesis
    by (auto simp: escape_def bindO_Inr simp del: simple_escape.simps)
next
  case (Some x)
  then show ?thesis
    by (auto simp: escape_def bindO_Inr simp del: simple_escape.simps)
qed

lemma escape_advances:
  assumes "escape b it s = Inr (b', Inr (it', s'))"
  shows "s \<le> s' \<and> s' < length b \<and> length b' = length b"
  using assms read_hex_advances [of b s 4 0 s'] poke_all_length [of b it _ b']
  unfolding escape_Inr unicode_escape_Inr by auto

text \<open>
  The loop over the characters of a string.  It ends behind the closing quote, or at the zero
  that ends the text.  \<open>Inl\<close> is the place of a character that is not allowed.
\<close>

function unquote :: "memory \<Rightarrow> nat \<Rightarrow> nat \<Rightarrow> (memory \<times> (nat + nat)) outcome" where
  "unquote b it s =
     bindO (peek b s) (\<lambda>c.
       if c = NUL then Inr (b, Inr s)
       else bindO (poke b it c) (\<lambda>b1.
         if c = CHR 0x5C
         then bindO (escape b1 it (s + 1)) (\<lambda>r.
                case r of
                  (b2, Inl e) \<Rightarrow> Inr (b2, Inl e)
                | (b2, Inr (it2, s2)) \<Rightarrow> unquote b2 (it2 + 1) (s2 + 1))
         else if (0 \<le> schar c \<and> schar c < 32) \<or> c = CHR 0x7F then Inr (b1, Inl s)
         else if c = CHR 0x22 then bindO (poke b1 it NUL) (\<lambda>b2. Inr (b2, Inr (s + 1)))
         else unquote b1 (it + 1) (s + 1)))"
  by auto

termination unquote
  by (relation "measure (\<lambda>(b, it, s). length b - s)") (force dest!: escape_advances)+

declare unquote.simps [simp del]

subsection \<open>Decoding a string, apart from the memory\<close>

text \<open>
  The same on text that is not changed: the characters a string stands for, whether a quote closes
  it, and the text behind; or the text from a wrong character on.
\<close>

fun lex_hex :: "nat \<Rightarrow> int \<Rightarrow> cstring \<Rightarrow> (cstring + int \<times> cstring) outcome" where
  "lex_hex 0 c s = Inr (Inr (c, s))"
| "lex_hex (Suc n) c [] = Inl (Undefined Out_Of_Range)"
| "lex_hex (Suc n) c (x # s) = (if isxdigit x then lex_hex n (c * 16 + char2int x) s else Inr (Inl (x # s)))"

fun lex_escape :: "cstring \<Rightarrow> (cstring + cstring \<times> cstring) outcome" where
  "lex_escape [] = Inl (Undefined Out_Of_Range)"
| "lex_escape (c # s) =
     (case simple_escape c of
        Some x \<Rightarrow> Inr (Inr ([x], s))
      | None \<Rightarrow>
          if c = CHR ''u''
          then bindO (lex_hex 4 0 s) (\<lambda>r. Inr (case r of Inl e \<Rightarrow> Inl e | Inr (u, s) \<Rightarrow> Inr (utf8 u, s)))
          else Inr (Inl (c # s)))"

lemma lex_hex_length:
  "lex_hex n c s = Inr (Inr (u, s')) \<Longrightarrow> length s = length s' + n"
  by (induction n c s rule: lex_hex.induct) (auto split: if_splits)

lemma utf8_length: "1 \<le> length (utf8 c) \<and> length (utf8 c) \<le> 3"
  by (simp add: utf8_def)

lemma lex_escape_length:
  assumes "lex_escape s = Inr (Inr (ds, s'))"
  shows "length ds + length s' \<le> length s \<and> ds \<noteq> [] \<and> length s' < length s"
proof (cases s)
  case (Cons c t)
  show ?thesis
  proof (cases "simple_escape c")
    case None
    then obtain u where "lex_hex 4 0 t = Inr (Inr (u, s'))" "ds = utf8 u"
      using assms Cons by (auto simp: bindO_Inr split_sum_ex simp del: simple_escape.simps split: if_splits)
    then show ?thesis
      using Cons lex_hex_length utf8_length [of u] by fastforce
  next
    case (Some x)
    then show ?thesis
      using assms Cons by (auto simp del: simple_escape.simps)
  qed
qed (use assms in \<open>simp\<close>)

definition decoded :: "cstring \<Rightarrow> (cstring + cstring \<times> bool \<times> cstring) outcome \<Rightarrow> (cstring + cstring \<times> bool \<times> cstring) outcome" where
  "decoded ds r = bindO r (\<lambda>r. Inr (case r of Inl e \<Rightarrow> Inl e | Inr (es, cl, s) \<Rightarrow> Inr (ds @ es, cl, s)))"

function lex_string :: "cstring \<Rightarrow> (cstring + cstring \<times> bool \<times> cstring) outcome" where
  "lex_string [] = Inl (Undefined Out_Of_Range)"
| "lex_string (c # s) =
     (if c = NUL then Inr (Inr ([], False, c # s))
      else if c = CHR 0x5C
      then bindO (lex_escape s) (\<lambda>r.
             case r of Inl e \<Rightarrow> Inr (Inl e) | Inr (ds, s) \<Rightarrow> decoded ds (lex_string s))
      else if (0 \<le> schar c \<and> schar c < 32) \<or> c = CHR 0x7F then Inr (Inl (c # s))
      else if c = CHR 0x22 then Inr (Inr ([], True, s))
      else decoded [c] (lex_string s))"
  by pat_completeness auto

termination lex_string
  by (relation "measure length") (auto dest!: lex_escape_length)

lemma decoded_Inr:
  "decoded ds r = Inr (Inr (es, cl, s)) \<longleftrightarrow> (\<exists>xs. r = Inr (Inr (xs, cl, s)) \<and> es = ds @ xs)"
  "decoded ds r = Inr (Inl e) \<longleftrightarrow> r = Inr (Inl e)"
  "decoded ds r = Inl u \<longleftrightarrow> r = Inl u"
  by (cases r; auto simp: decoded_def split: sum.split)+

lemma lex_string_length:
  "lex_string s = Inr (Inr (ds, cl, s')) \<Longrightarrow> length ds + (if cl then 1 else 0) + length s' \<le> length s"
proof (induction s arbitrary: ds rule: lex_string.induct)
  case (2 c s)
  consider "c = NUL" | "c = CHR 0x5C" | "(0 \<le> schar c \<and> schar c < 32) \<or> c = CHR 0x7F" "c \<noteq> NUL" "c \<noteq> CHR 0x5C"
    | "c = CHR 0x22" | "c \<noteq> NUL" "c \<noteq> CHR 0x5C" "\<not> ((0 \<le> schar c \<and> schar c < 32) \<or> c = CHR 0x7F)" "c \<noteq> CHR 0x22"
    by blast
  then show ?case
  proof cases
    case 2
    then show ?thesis
      using "2.prems" "2.IH"(1) lex_escape_length
      by (fastforce simp: bindO_Inr split_sum_ex decoded_Inr)
  qed (use "2.prems" "2.IH"(2) in \<open>auto simp: decoded_Inr split: if_splits\<close>)
qed simp

text \<open>Decoding in memory is decoding the text.\<close>

lemma lex_hex_nonempty: "lex_hex n c s = Inr (Inl e) \<Longrightarrow> suffix e s"
  by (induction n c s rule: lex_hex.induct) (auto simp: suffix_Cons split: if_splits)

lemma drop_Cons_nth: "drop i b = c # t \<Longrightarrow> i < length b \<and> b ! i = c \<and> drop (Suc i) b = t"
  by (metis drop_eq_Nil2 drop_Suc_Cons linorder_not_less list.distinct(1) Cons_nth_drop_Suc list.inject)

lemma read_hex_lex:
  "read_hex b s n c = (case lex_hex n c (drop (Suc s) b) of
      Inl u \<Rightarrow> Inl u
    | Inr (Inl e) \<Rightarrow> Inr (Inl (length b - length e))
    | Inr (Inr (u, t)) \<Rightarrow> Inr (Inr (s + n, u)))"
proof (induction n arbitrary: s c)
  case (Suc n)
  show ?case
  proof (cases "drop (Suc s) b")
    case Nil
    then show ?thesis
      by (simp add: peek_def)
  next
    case (Cons x t)
    note d = drop_Cons_nth [OF Cons]
    then have "length b - length (x # t) = Suc s"
      using arg_cong [OF Cons, of length] by simp
    then show ?thesis
      unfolding add_Suc_right using Suc.IH [of "Suc s", unfolded add_Suc] d by (simp add: Cons peek_def)
  qed
qed simp

lemma poke_all_splice:
  "i + length cs \<le> length b \<Longrightarrow> poke_all b i cs = Inr (take i b @ cs @ drop (i + length cs) b)"
proof (induction cs arbitrary: b i)
  case (Cons c cs)
  then have "poke_all b i (c # cs) = poke_all (b[i := c]) (Suc i) cs"
    by (simp add: poke_def)
  also have "\<dots> = Inr (take (Suc i) (b[i := c]) @ cs @ drop (Suc i + length cs) (b[i := c]))"
    using Cons.prems by (intro Cons.IH) simp
  finally show ?case
    using Cons.prems by (simp add: take_Suc_conv_app_nth)
qed simp

lemma escape_lex:
  assumes "it < s"
  shows "escape b it s = (case lex_escape (drop s b) of
      Inl u \<Rightarrow> Inl u
    | Inr (Inl e) \<Rightarrow> Inr (b, Inl (length b - length e))
    | Inr (Inr (ds, t)) \<Rightarrow> Inr (take it b @ ds @ drop (it + length ds) b, Inr (it + length ds - 1, length b - length t - 1)))"
proof (cases "drop s b")
  case Nil
  then show ?thesis
    by (simp add: escape_def peek_def)
next
  case (Cons c t)
  note d = drop_Cons_nth [OF Cons]
  then have l: "length b - length (c # t) = s" "length t = length b - Suc s"
    using arg_cong [OF Cons, of length] by simp_all
  have "peek b s = Inr c"
    using d by simp
  then have p: "escape b it s = (case simple_escape c of
      Some x \<Rightarrow> bindO (poke b it x) (\<lambda>b. Inr (b, Inr (it, s)))
    | None \<Rightarrow> if c = CHR ''u'' then unicode_escape b it s else Inr (b, Inl s))"
    by (simp only: escape_def bindO_simps)
  show ?thesis
  proof (cases "simple_escape c")
    case None
    show ?thesis
    proof (cases "lex_hex 4 0 t")
      case (Inr r)
      show ?thesis
      proof (cases r)
        case (Inr ut)
        then obtain u t' where r: "lex_hex 4 0 t = Inr (Inr (u, t'))"
          using \<open>lex_hex 4 0 t = Inr r\<close> by (cases ut) auto
        have t': "length t = length t' + 4"
          using lex_hex_length [OF r] .
        then have "poke_all b it (utf8 u) = Inr (take it b @ utf8 u @ drop (it + length (utf8 u)) b)"
          using assms l d utf8_length [of u] by (intro poke_all_splice) linarith
        moreover have "s + 4 = length b - length t' - 1"
          using t' l d by simp
        ultimately show ?thesis
          using d None r Cons p l(1) by (simp add: unicode_escape_def read_hex_lex del: simple_escape.simps)
      qed (use p d None \<open>lex_hex 4 0 t = Inr r\<close> Cons in \<open>auto simp: escape_def unicode_escape_def read_hex_lex l simp del: simple_escape.simps\<close>)
    qed (use p d None Cons in \<open>auto simp: escape_def unicode_escape_def read_hex_lex l simp del: simple_escape.simps\<close>)
  next
    case (Some x)
    then show ?thesis
      using d assms Cons l by (simp add: escape_def peek_def poke_def upd_conv_take_nth_drop del: simple_escape.simps)
  qed
qed

lemma lex_hex_suffix: "lex_hex n c s = Inr (Inr (u, s')) \<Longrightarrow> suffix s' s"
  by (induction n c s rule: lex_hex.induct) (auto simp: suffix_Cons split: if_splits)

lemma lex_escape_suffix:
  assumes "lex_escape s = Inr (Inr (ds, s'))"
  shows "suffix s' s"
proof (cases s)
  case (Cons c t)
  then show ?thesis
    using assms by (cases "simple_escape c")
      (auto simp: bindO_Inr split_sum_ex suffix_Cons simp del: simple_escape.simps
        split: if_splits dest: lex_hex_suffix)
qed (use assms in simp)

lemma drop_suffix: "suffix t (drop s b) \<Longrightarrow> drop (length b - length t) b = t"
  by (metis append_eq_conv_conj length_append suffix_def suffix_drop suffix_order.trans diff_add_inverse2)

text \<open>The memory after a string has been decoded at \<open>it\<close>.\<close>

definition splice :: "memory \<Rightarrow> nat \<Rightarrow> cstring \<Rightarrow> bool \<Rightarrow> memory" where
  "splice b it ds cl =
     take it b @ ds @ (if cl then NUL # drop (it + length ds + 1) b else drop (it + length ds) b)"

lemma splice_splice:
  "it + length ds \<le> length b \<Longrightarrow>
     splice (take it b @ ds @ drop (it + length ds) b) (it + length ds) es cl = splice b it (ds @ es) cl"
  by (simp add: splice_def add.commute add.left_commute)

lemma splice_0: "splice b it [] False = b" "it < length b \<Longrightarrow> splice b it [] True = b[it := NUL]"
  by (simp_all add: splice_def upd_conv_take_nth_drop)

definition unquoted :: "memory \<Rightarrow> nat \<Rightarrow> (cstring + cstring \<times> bool \<times> cstring) outcome \<Rightarrow> (memory \<times> (nat + nat)) outcome \<Rightarrow> bool" where
  "unquoted b it r u \<longleftrightarrow>
     (case r of
        Inl x \<Rightarrow> u = Inl x
      | Inr (Inl e) \<Rightarrow> \<exists>b'. u = Inr (b', Inl (length b - length e)) \<and> length b' = length b
      | Inr (Inr (ds, cl, t)) \<Rightarrow> u = Inr (splice b it ds cl, Inr (length b - length t)))"

lemma unquoted_decoded:
  assumes "it + length ds \<le> length b" "unquoted (take it b @ ds @ drop (it + length ds) b) (it + length ds) r u"
  shows "unquoted b it (decoded ds r) u"
proof -
  have "length (take it b @ ds @ drop (it + length ds) b) = length b"
    using assms(1) by simp
  then show ?thesis
    using assms(2) splice_splice [OF assms(1)]
    by (auto simp: unquoted_def decoded_def split: sum.splits)
qed

lemma unquote_lex: "it \<le> s \<Longrightarrow> unquoted b it (lex_string (drop s b)) (unquote b it s)"
proof (induction "length b - s" arbitrary: b it s rule: less_induct)
  case less
  show ?case
  proof (cases "drop s b")
    case Nil
    then show ?thesis
      by (subst unquote.simps) (simp add: peek_def unquoted_def)
  next
    case (Cons c t)
    note d = drop_Cons_nth [OF Cons]
    then have l: "length b - length (c # t) = s" "length t = length b - Suc s"
      using arg_cong [OF Cons, of length] by simp_all
    let ?b1 = "b[it := c]"
    have "peek b s = Inr c" "poke b it c = Inr ?b1"
      using d less.prems by simp_all
    then have u: "unquote b it s =
        (if c = NUL then Inr (b, Inr s)
         else if c = CHR 0x5C
         then bindO (escape ?b1 it (s + 1)) (\<lambda>r.
                case r of
                  (b2, Inl e) \<Rightarrow> Inr (b2, Inl e)
                | (b2, Inr (it2, s2)) \<Rightarrow> unquote b2 (it2 + 1) (s2 + 1))
         else if (0 \<le> schar c \<and> schar c < 32) \<or> c = CHR 0x7F then Inr (?b1, Inl s)
         else if c = CHR 0x22 then bindO (poke ?b1 it NUL) (\<lambda>b2. Inr (b2, Inr (s + 1)))
         else unquote ?b1 (it + 1) (s + 1))"
      by (subst unquote.simps) (simp only: bindO_simps)
    have t: "drop (s + 1) ?b1 = t"
      using d less.prems by simp
    have b1: "?b1 = take it b @ [c] @ drop (it + 1) b"
      using d less.prems by (simp add: upd_conv_take_nth_drop)
    consider (esc) "c = CHR 0x5C" | (plain) "c \<noteq> NUL" "c \<noteq> CHR 0x5C" "\<not> ((0 \<le> schar c \<and> schar c < 32) \<or> c = CHR 0x7F)" "c \<noteq> CHR 0x22"
      | (other) "c \<noteq> CHR 0x5C" "c = NUL \<or> (0 \<le> schar c \<and> schar c < 32) \<or> c = CHR 0x7F \<or> c = CHR 0x22"
      by blast
    then show ?thesis
    proof cases
      case plain
      have "unquoted ?b1 (it + 1) (lex_string (drop (s + 1) ?b1)) (unquote ?b1 (it + 1) (s + 1))"
        using d less.prems by (intro less.hyps) auto
      then have "unquoted b it (decoded [c] (lex_string t)) (unquote ?b1 (it + 1) (s + 1))"
        using d less.prems unfolding t unfolding b1 by (intro unquoted_decoded) simp_all
      with plain show ?thesis
        by (auto simp: Cons u)
    next
      case other
      then show ?thesis
        using d less.prems l by (auto simp: Cons u unquoted_def splice_0 poke_def)
    next
      case esc
      have e: "escape ?b1 it (s + 1) = (case lex_escape t of
          Inl u \<Rightarrow> Inl u
        | Inr (Inl e) \<Rightarrow> Inr (?b1, Inl (length b - length e))
        | Inr (Inr (ds, t')) \<Rightarrow> Inr (take it b @ ds @ drop (it + length ds) ?b1, Inr (it + length ds - 1, length b - length t' - 1)))"
        using escape_lex [of it "s + 1" ?b1] less.prems
        unfolding t length_list_update take_update_cancel [OF order.refl] by simp
      show ?thesis
      proof (cases "lex_escape t")
        case (Inl x)
        then show ?thesis
          using e esc by (simp add: Cons u unquoted_def)
      next
        case (Inr r)
        show ?thesis
        proof (cases r)
          case (Inl x)
          then show ?thesis
            using e esc Inr by (simp add: Cons u unquoted_def)
        next
          case dst: (Inr dt)
          then obtain ds t' where r: "lex_escape t = Inr (Inr (ds, t'))"
            using Inr by (cases dt) auto
          have len: "length ds + length t' \<le> length t" "ds \<noteq> []" "length t' < length t"
            using lex_escape_length [OF r] by simp_all
          let ?b2 = "take it b @ ds @ drop (it + length ds) b"
          let ?s2 = "length b - length t'"
          have it: "it + length ds \<le> ?s2" "?s2 \<le> length b" "s < ?s2"
            using len l d less.prems by linarith+
          have b2: "take it b @ ds @ drop (it + length ds) ?b1 = ?b2"
            using len(2) by (cases ds) simp_all
          have "suffix t' (drop (s + 1) b)"
            using lex_escape_suffix [OF r] d by simp
          then have "drop ?s2 b = t'"
            by (rule drop_suffix)
          then have t2: "drop ?s2 ?b2 = t'"
            using it less.prems d by (simp add: min_def)
          have "unquoted ?b2 (it + length ds) (lex_string (drop ?s2 ?b2)) (unquote ?b2 (it + length ds) ?s2)"
            using it d by (intro less.hyps) auto
          then have "unquoted b it (decoded ds (lex_string t')) (unquote ?b2 (it + length ds) ?s2)"
            using it unfolding t2 by (intro unquoted_decoded) simp_all
          moreover have "it + length ds - 1 + 1 = it + length ds" "?s2 - 1 + 1 = ?s2"
            using len(2) it by simp_all
          ultimately show ?thesis
            using esc r e b2 by (simp add: Cons u)
        qed
      qed
    qed
  qed
qed

end
