(* ===== verification/Json_Parse.thy ===== *)
theory Json_Parse
  imports Json_Unquote
begin

section \<open>The JSON parser\<close>

text \<open>
  \<open>jsonParse\<close> of \<open>tools/gason.cpp\<close>.  The nodes are numbered in the order of their allocation, which
  \<open>JsonAllocator\<close> gives disjoint places; whether memory is left for the \<open>n\<close>-th is a
  parameter.
\<close>

subsection \<open>Values and nodes\<close>

text \<open>
  A value: a double, or a tag with the place of a string or the first node of a list; the
  64 bits it is kept in are those of \<open>Json_Value\<close>.  The node of an array has no key.
\<close>

datatype 'd jvalue = JNumber 'd | JString nat | JArray "nat option" | JObject "nat option" | JTrue | JFalse | JNull

fun value_tag :: "'d jvalue \<Rightarrow> JsonTag" where
  "value_tag (JNumber d) = JSON_NUMBER"
| "value_tag (JString i) = JSON_STRING"
| "value_tag (JArray p) = JSON_ARRAY"
| "value_tag (JObject p) = JSON_OBJECT"
| "value_tag JTrue = JSON_TRUE"
| "value_tag JFalse = JSON_FALSE"
| "value_tag JNull = JSON_NULL"

record 'd jnode =
  n_value :: "'d jvalue"
  n_next :: "nat option"
  n_key :: "nat option"

type_synonym 'd heap = "'d jnode list"

text \<open>New memory; every field is written before it is read.\<close>

definition fresh_node :: "'d jnode" where
  "fresh_node = \<lparr>n_value = JNull, n_next = None, n_key = None\<rparr>"

definition set_next :: "nat \<Rightarrow> nat option \<Rightarrow> 'd heap \<Rightarrow> 'd heap" where
  "set_next p q h = h[p := (h ! p)\<lparr>n_next := q\<rparr>]"

text \<open>A list under construction is a ring; \<open>tail\<close> is its last node, whose \<open>next\<close> is the first.\<close>

definition insertAfter :: "nat option \<Rightarrow> nat \<Rightarrow> 'd heap \<Rightarrow> nat \<times> 'd heap" where
  "insertAfter tail node h =
     (case tail of
        None \<Rightarrow> (node, set_next node (Some node) h)
      | Some t \<Rightarrow> (node, set_next t (Some node) (set_next node (n_next (h ! t)) h)))"

definition listToValue :: "(nat option \<Rightarrow> 'd jvalue) \<Rightarrow> nat option \<Rightarrow> 'd heap \<Rightarrow> 'd jvalue \<times> 'd heap" where
  "listToValue mk tail h =
     (case tail of
        None \<Rightarrow> (mk None, h)
      | Some t \<Rightarrow> (mk (n_next (h ! t)), set_next t None h))"

subsection \<open>jsonParse\<close>

text \<open>
  One entry of \<open>tails\<close>, \<open>tags\<close> and \<open>keys\<close>; the entries in use, from \<open>pos\<close> down.
\<close>

record frame =
  f_tail :: "nat option"
  f_tag :: JsonTag
  f_key :: "nat option"

definition JSON_STACK_SIZE :: nat where "JSON_STACK_SIZE = 32"

record 'd jstate =
  j_mem :: memory
  j_s :: nat
  j_endptr :: nat
  j_heap :: "'d heap"
  j_frames :: "frame list"
  j_separator :: bool

datatype 'd progress = Loop "'d jstate" | Return JsonErrno "'d jvalue option" "'d jstate"

text \<open>The white space before a token.\<close>

fun skip_space :: "cstring \<Rightarrow> cstring outcome" where
  "skip_space [] = Inl (Undefined Out_Of_Range)"
| "skip_space (c # s) =
     (if isspace c then bindO (read_char s) (\<lambda>d. if d = NUL then Inr s else skip_space s) else Inr (c # s))"

text \<open>Reads one character after the other, up to the first that differs.\<close>

fun spells :: "cstring \<Rightarrow> cstring \<Rightarrow> bool outcome" where
  "spells [] s = bindO (read_char s) (\<lambda>c. Inr (isdelim c))"
| "spells (w # ws) s = bindO (read_char s) (\<lambda>c. if c = w then spells ws (tl s) else Inr False)"

definition rest :: "'d jstate \<Rightarrow> cstring" where
  "rest st = drop (j_s st) (j_mem st)"

definition set_top :: "frame \<Rightarrow> 'd jstate \<Rightarrow> 'd jstate" where
  "set_top f st = st\<lparr>j_frames := f # tl (j_frames st)\<rparr>"

text \<open>A new node behind the tail of the top entry.\<close>

definition append_node :: "(nat \<Rightarrow> bool) \<Rightarrow> 'd jvalue \<Rightarrow> frame \<Rightarrow> 'd jstate \<Rightarrow> 'd progress" where
  "append_node avail v f st =
     (let node = length (j_heap st) in
      if \<not> avail node then Return JSON_ALLOCATION_FAILURE None st
      else case insertAfter (f_tail f) node (j_heap st @ [fresh_node]) of (t, h) \<Rightarrow>
        Loop (set_top (f\<lparr>f_tail := Some t, f_key := None\<rparr>)
          (st\<lparr>j_heap := h[t := (h ! t)\<lparr>n_key := f_key f, n_value := v\<rparr>]\<rparr>)))"

text \<open>What follows the \<open>switch\<close>: the value is the result, a key, or the value of a new node.\<close>

definition deliver :: "(nat \<Rightarrow> bool) \<Rightarrow> 'd jvalue \<Rightarrow> 'd jstate \<Rightarrow> 'd progress" where
  "deliver avail v st0 =
     (let st = st0\<lparr>j_separator := False\<rparr> in
      case j_frames st of
        [] \<Rightarrow> Return JSON_OK (Some v) (st\<lparr>j_endptr := j_s st\<rparr>)
      | f # fs \<Rightarrow>
          if f_tag f = JSON_OBJECT \<and> f_key f = None
          then (case v of JString i \<Rightarrow> Loop (set_top (f\<lparr>f_key := Some i\<rparr>) st)
                | _ \<Rightarrow> Return JSON_UNQUOTED_KEY None st)
          else append_node avail v f st)"

definition fail :: "JsonErrno \<Rightarrow> 'd jstate \<Rightarrow> 'd progress outcome" where
  "fail e st = Inr (Return e None st)"

definition fail_here :: "JsonErrno \<Rightarrow> 'd jstate \<Rightarrow> 'd progress outcome" where
  "fail_here e st = Inr (Return e None (st\<lparr>j_endptr := j_s st\<rparr>))"

definition case_number :: "'d fp \<Rightarrow> (nat \<Rightarrow> bool) \<Rightarrow> char \<Rightarrow> 'd jstate \<Rightarrow> 'd progress outcome" where
  "case_number F avail c st =
     bindO (if c = CHR ''-'' then bindO (read_char (rest st)) (\<lambda>d. Inr (isdigit d \<or> d = CHR ''.'')) else Inr True)
       (\<lambda>ok. if \<not> ok then fail_here JSON_BAD_NUMBER st
        else bindO (string2double F (c # rest st)) (\<lambda>(d, s).
          let st1 = st\<lparr>j_s := length (j_mem st) - length s\<rparr> in
          bindO (read_char s) (\<lambda>x.
            if isdelim x then Inr (deliver avail (JNumber d) st1) else fail_here JSON_BAD_NUMBER st1)))"

definition case_string :: "(nat \<Rightarrow> bool) \<Rightarrow> 'd jstate \<Rightarrow> 'd progress outcome" where
  "case_string avail st =
     bindO (unquote (j_mem st) (j_s st) (j_s st)) (\<lambda>r.
       case r of
         (b, Inl s) \<Rightarrow> fail_here JSON_BAD_STRING (st\<lparr>j_mem := b, j_s := s\<rparr>)
       | (b, Inr s) \<Rightarrow>
           let st1 = st\<lparr>j_mem := b, j_s := s\<rparr> in
           bindO (peek b s) (\<lambda>x.
             if isdelim x then Inr (deliver avail (JString (j_s st)) st1) else fail_here JSON_BAD_STRING st1))"

definition case_word :: "(nat \<Rightarrow> bool) \<Rightarrow> cstring \<Rightarrow> 'd jvalue \<Rightarrow> 'd jstate \<Rightarrow> 'd progress outcome" where
  "case_word avail w v st =
     bindO (spells w (rest st)) (\<lambda>ok.
       if ok then Inr (deliver avail v (st\<lparr>j_s := j_s st + length w\<rparr>)) else fail JSON_BAD_IDENTIFIER st)"

definition close_list :: "(nat \<Rightarrow> bool) \<Rightarrow> (nat option \<Rightarrow> 'd jvalue) \<Rightarrow> frame \<Rightarrow> 'd jstate \<Rightarrow> 'd progress outcome" where
  "close_list avail mk f st =
     (case listToValue mk (f_tail f) (j_heap st) of (v, h) \<Rightarrow>
        Inr (deliver avail v (st\<lparr>j_heap := h, j_frames := tl (j_frames st)\<rparr>)))"

definition case_close_array :: "(nat \<Rightarrow> bool) \<Rightarrow> 'd jstate \<Rightarrow> 'd progress outcome" where
  "case_close_array avail st =
     (case j_frames st of
        [] \<Rightarrow> fail JSON_STACK_UNDERFLOW st
      | f # fs \<Rightarrow> if f_tag f \<noteq> JSON_ARRAY then fail JSON_MISMATCH_BRACKET st else close_list avail JArray f st)"

definition case_close_object :: "(nat \<Rightarrow> bool) \<Rightarrow> 'd jstate \<Rightarrow> 'd progress outcome" where
  "case_close_object avail st =
     (case j_frames st of
        [] \<Rightarrow> fail JSON_STACK_UNDERFLOW st
      | f # fs \<Rightarrow>
          if f_tag f \<noteq> JSON_OBJECT then fail JSON_MISMATCH_BRACKET st
          else if f_key f \<noteq> None then fail JSON_UNEXPECTED_CHARACTER st
          else close_list avail JObject f st)"

definition case_open :: "JsonTag \<Rightarrow> 'd jstate \<Rightarrow> 'd progress outcome" where
  "case_open tag st =
     (if length (j_frames st) = JSON_STACK_SIZE then fail JSON_STACK_OVERFLOW st
      else Inr (Loop (st\<lparr>j_frames := \<lparr>f_tail = None, f_tag = tag, f_key = None\<rparr> # j_frames st, j_separator := True\<rparr>)))"

text \<open>\<open>keys[-1]\<close> is read if there is no entry; \<open>want_key\<close>: an error without a key, or with one.\<close>

definition case_separator :: "bool \<Rightarrow> 'd jstate \<Rightarrow> 'd progress outcome" where
  "case_separator want_key st =
     (if j_separator st then fail JSON_UNEXPECTED_CHARACTER st
      else case j_frames st of
             [] \<Rightarrow> Inl (Undefined Out_Of_Range)
           | f # fs \<Rightarrow>
               if (f_key f \<noteq> None) \<noteq> want_key then fail JSON_UNEXPECTED_CHARACTER st
               else Inr (Loop (st\<lparr>j_separator := True\<rparr>)))"

definition switch :: "'d fp \<Rightarrow> (nat \<Rightarrow> bool) \<Rightarrow> char \<Rightarrow> 'd jstate \<Rightarrow> 'd progress outcome" where
  "switch F avail c st =
     (if c = CHR ''-'' \<or> isdigit c then case_number F avail c st
      else if c = CHR 0x22 then case_string avail st
      else if c = CHR ''t'' then case_word avail ''rue'' JTrue st
      else if c = CHR ''f'' then case_word avail ''alse'' JFalse st
      else if c = CHR ''n'' then case_word avail ''ull'' JNull st
      else if c = CHR '']'' then case_close_array avail st
      else if c = CHR ''}'' then case_close_object avail st
      else if c = CHR ''['' then case_open JSON_ARRAY st
      else if c = CHR ''{'' then case_open JSON_OBJECT st
      else if c = CHR '':'' then case_separator True st
      else if c = CHR '','' then case_separator False st
      else if c = NUL then Inr (Loop st)
      else fail JSON_UNEXPECTED_CHARACTER st)"

text \<open>One round of the outer loop.\<close>

definition parse_round :: "'d fp \<Rightarrow> (nat \<Rightarrow> bool) \<Rightarrow> 'd jstate \<Rightarrow> 'd progress outcome" where
  "parse_round F avail st =
     bindO (read_char (rest st)) (\<lambda>c.
       if c = NUL then fail JSON_BREAKING_BAD st
       else bindO (skip_space (rest st)) (\<lambda>t.
         bindO (read_char t) (\<lambda>c.
           let e = length (j_mem st) - length t
           in switch F avail c (st\<lparr>j_endptr := e, j_s := e + 1\<rparr>))))"

text \<open>Every round moves on, and the memory keeps its size.\<close>

definition ahead :: "'d jstate \<Rightarrow> 'd jstate \<Rightarrow> bool" where
  "ahead st st' \<longleftrightarrow> length (j_mem st') = length (j_mem st) \<and> j_s st \<le> j_s st'"

lemma integer_part_suffix: "integer_part F r s = Inr (r', s') \<Longrightarrow> suffix s' s"
  by (induction F r s rule: integer_part.induct) (auto simp: suffix_Cons split: if_splits)

lemma fraction_part_suffix: "fraction_part F u r s = Inr (r', s') \<Longrightarrow> suffix s' s"
  by (induction F u r s rule: fraction_part.induct) (auto simp: suffix_Cons Let_def split: if_splits)

lemma exponent_part_suffix: "exponent_part e s = Inr (e', s') \<Longrightarrow> suffix s' s"
  by (induction e s rule: exponent_part.induct) (auto simp: suffix_Cons split: if_splits)

lemma suffix_tl: "suffix s' (tl s) \<Longrightarrow> suffix s' s"
  by (metis suffix_order.trans suffix_tl)

lemma exponent_of_suffix: "exponent_of F r s = Inr (r', s') \<Longrightarrow> suffix s' s"
  by (auto simp: exponent_of_def bindO_Inr Let_def split: if_split_asm dest!: exponent_part_suffix intro: suffix_tl)

lemma optional_fraction_suffix: "optional_fraction F r s = Inr (r', s') \<Longrightarrow> suffix s' s"
  by (auto simp: optional_fraction_def bindO_Inr split: if_split_asm dest!: fraction_part_suffix intro: suffix_tl)

lemma optional_exponent_suffix: "optional_exponent F r s = Inr (r', s') \<Longrightarrow> suffix s' s"
  by (auto simp: optional_exponent_def bindO_Inr split: if_split_asm dest!: exponent_of_suffix intro: suffix_tl)

lemma string2double_suffix:
  assumes "string2double F (c # s) = Inr (d, s')" "c = CHR ''-'' \<or> isdigit c"
  shows "suffix s' s"
proof -
  obtain r1 s1 r2 s2 r3 where
    1: "integer_part F (fp_nat F 0) (if c = CHR ''-'' then tl (c # s) else c # s) = Inr (r1, s1)" and
    2: "optional_fraction F r1 s1 = Inr (r2, s2)" "optional_exponent F r2 s2 = Inr (r3, s')"
    using assms(1) unfolding string2double_def by (auto simp: bindO_Inr)
  have "suffix s1 s"
    using 1 assms(2) integer_part_suffix by (fastforce split: if_splits)
  then show ?thesis
    using optional_fraction_suffix [OF 2(1)] optional_exponent_suffix [OF 2(2)]
    by (meson suffix_order.trans)
qed

lemma skip_space_suffix: "skip_space s = Inr t \<Longrightarrow> suffix t s"
  by (induction s rule: skip_space.induct) (auto simp: bindO_Inr suffix_Cons split: if_splits)

text \<open>One round, and how far it goes.\<close>

lemma deliver_ahead:
  assumes "deliver avail v st = Loop st'"
  shows "j_mem st' = j_mem st \<and> j_s st' = j_s st"
  using assms
  by (auto simp: deliver_def append_node_def set_top_def Let_def
      split: list.split_asm jvalue.split_asm if_split_asm prod.split_asm)

lemma case_number_ahead:
  assumes "case_number F avail c st = Inr (Loop st')" "c = CHR ''-'' \<or> isdigit c" "j_s st \<le> length (j_mem st)"
  shows "ahead st st'"
proof -
  obtain d s where s: "string2double F (c # rest st) = Inr (d, s)"
    and st': "deliver avail (JNumber d) (st\<lparr>j_s := length (j_mem st) - length s\<rparr>) = Loop st'"
    using assms(1) by (auto simp: case_number_def bindO_Inr Let_def fail_here_def split: if_split_asm)
  have "length s \<le> length (rest st)"
    using string2double_suffix [OF s assms(2)] by (rule suffix_length_le)
  then show ?thesis
    using deliver_ahead [OF st'] assms(3) by (simp add: ahead_def rest_def)
qed

lemma case_string_ahead:
  assumes "case_string avail st = Inr (Loop st')" "j_s st \<le> length (j_mem st)"
  shows "ahead st st'"
proof -
  obtain b s where u: "unquote (j_mem st) (j_s st) (j_s st) = Inr (b, Inr s)"
    and st': "deliver avail (JString (j_s st)) (st\<lparr>j_mem := b, j_s := s\<rparr>) = Loop st'"
    using assms(1) by (auto simp: case_string_def bindO_Inr Let_def fail_here_def split_sum_ex
        split: if_split_asm)
  obtain ds cl t where l: "lex_string (rest st) = Inr (Inr (ds, cl, t))"
    and b: "b = splice (j_mem st) (j_s st) ds cl" "s = length (j_mem st) - length t"
    using unquote_lex [of "j_s st" "j_s st" "j_mem st"]
    by (auto simp: unquoted_def u rest_def split: sum.split_asm)
  have "length ds + (if cl then 1 else 0) + length t \<le> length (rest st)"
    by (rule lex_string_length [OF l])
  then show ?thesis
    using deliver_ahead [OF st'] assms(2) by (auto simp: ahead_def b splice_def rest_def)
qed

lemma ahead_same: "j_mem st' = j_mem st \<Longrightarrow> j_s st \<le> j_s st' \<Longrightarrow> ahead st st'"
  by (simp add: ahead_def)

lemma switch_ahead:
  assumes "switch F avail c st = Inr (Loop st')" "j_s st \<le> length (j_mem st)"
  shows "ahead st st'"
proof (cases "c = CHR ''-'' \<or> isdigit c \<or> c = CHR 0x22")
  case True
  then show ?thesis
    using assms by (auto simp: switch_def split: if_split_asm intro: case_number_ahead case_string_ahead)
next
  case False
  show ?thesis
    by (rule ahead_same)
      (use assms False in \<open>auto simp: switch_def case_word_def close_list_def case_close_array_def case_close_object_def
        case_open_def case_separator_def fail_def bindO_Inr dest!: deliver_ahead
        split: if_split_asm list.split_asm prod.split_asm\<close>)
qed

lemma parse_round_ahead:
  assumes "parse_round F avail st = Inr (Loop st')"
  shows "length (j_mem st') = length (j_mem st) \<and> j_s st < j_s st' \<and> j_s st < length (j_mem st)"
proof -
  obtain c u where c: "rest st = c # u"
    using assms by (cases "rest st") (simp_all add: parse_round_def)
  obtain t d where t: "skip_space (rest st) = Inr t" "read_char t = Inr d"
    and w: "switch F avail d (st\<lparr>j_endptr := length (j_mem st) - length t, j_s := length (j_mem st) - length t + 1\<rparr>) = Inr (Loop st')"
    using assms by (auto simp: parse_round_def bindO_Inr fail_def Let_def split: if_split_asm)
  let ?e = "length (j_mem st) - length t"
  have t': "length t \<le> length (j_mem st) - j_s st" "1 \<le> length t"
    using suffix_length_le [OF skip_space_suffix [OF t(1)]] t(2) by (simp add: rest_def, cases t) simp_all
  have s: "j_s st < length (j_mem st)"
    using c drop_Cons_nth [of "j_s st" "j_mem st"] by (simp add: rest_def)
  have "?e + 1 \<le> length (j_mem st)"
    using t' s by linarith
  then have "length (j_mem st') = length (j_mem st) \<and> ?e + 1 \<le> j_s st'"
    using switch_ahead [OF w] by (simp add: ahead_def)
  then show ?thesis
    using t' s by linarith
qed

text \<open>
  The outer loop and the function: what it returns, \<open>*endptr\<close>, \<open>*value\<close> when it is set, the memory
  and the nodes.
\<close>

function parse_loop :: "'d fp \<Rightarrow> (nat \<Rightarrow> bool) \<Rightarrow> 'd jstate \<Rightarrow> (JsonErrno \<times> 'd jvalue option \<times> 'd jstate) outcome" where
  "parse_loop F avail st =
     bindO (parse_round F avail st) (\<lambda>r.
       case r of Loop st' \<Rightarrow> parse_loop F avail st' | Return e v st' \<Rightarrow> Inr (e, v, st'))"
  by auto

termination parse_loop
  by (relation "measure (\<lambda>(F, avail, st). length (j_mem st) - j_s st)") (auto dest!: parse_round_ahead)

declare parse_loop.simps [simp del]

definition jsonParse :: "'d fp \<Rightarrow> (nat \<Rightarrow> bool) \<Rightarrow> memory \<Rightarrow> (JsonErrno \<times> 'd jvalue option \<times> 'd jstate) outcome" where
  "jsonParse F avail b =
     parse_loop F avail \<lparr>j_mem = b, j_s = 0, j_endptr = 0, j_heap = [], j_frames = [], j_separator = True\<rparr>"

end
