(* ===== verification/Json_Spec.thy ===== *)
theory Json_Spec
  imports Json_Parse
begin

section \<open>What the JSON parser should do\<close>

text \<open>
  A parser on text that is not changed, with values that are trees instead of nodes and places;
  the lists under construction are lists.
\<close>

subsection \<open>Trees\<close>

datatype 'd json = Num 'd | Str cstring | Coll bool "(cstring option \<times> 'd json) list" | Tru | Fls | Nul

record 'd astate =
  a_rest :: cstring
  a_end :: cstring
  a_count :: nat
  a_stack :: "(bool \<times> cstring option \<times> (cstring option \<times> 'd json) list) list"
  a_separator :: bool

datatype 'd aprogress = ALoop "'d astate" | AReturn JsonErrno "'d json option" "'d astate"

definition a_deliver :: "(nat \<Rightarrow> bool) \<Rightarrow> 'd json \<Rightarrow> 'd astate \<Rightarrow> 'd aprogress" where
  "a_deliver avail v a0 =
     (let a = a0\<lparr>a_separator := False\<rparr> in
      case a_stack a of
        [] \<Rightarrow> AReturn JSON_OK (Some v) (a\<lparr>a_end := a_rest a\<rparr>)
      | (ob, k, xs) # fs \<Rightarrow>
          if ob \<and> k = None
          then (case v of Str t \<Rightarrow> ALoop (a\<lparr>a_stack := (ob, Some t, xs) # fs\<rparr>)
                | _ \<Rightarrow> AReturn JSON_UNQUOTED_KEY None a)
          else if \<not> avail (a_count a) then AReturn JSON_ALLOCATION_FAILURE None a
          else ALoop (a\<lparr>a_stack := (ob, None, xs @ [(k, v)]) # fs, a_count := Suc (a_count a)\<rparr>))"

definition a_fail :: "JsonErrno \<Rightarrow> 'd astate \<Rightarrow> 'd aprogress outcome" where
  "a_fail e a = Inr (AReturn e None a)"

definition a_fail_at :: "JsonErrno \<Rightarrow> cstring \<Rightarrow> 'd astate \<Rightarrow> 'd aprogress outcome" where
  "a_fail_at e t a = Inr (AReturn e None (a\<lparr>a_rest := t, a_end := t\<rparr>))"

definition a_number :: "'d fp \<Rightarrow> (nat \<Rightarrow> bool) \<Rightarrow> char \<Rightarrow> 'd astate \<Rightarrow> 'd aprogress outcome" where
  "a_number F avail c a =
     bindO (if c = CHR ''-'' then bindO (read_char (a_rest a)) (\<lambda>d. Inr (isdigit d \<or> d = CHR ''.'')) else Inr True)
       (\<lambda>ok. if \<not> ok then a_fail_at JSON_BAD_NUMBER (a_rest a) a
        else bindO (string2double F (c # a_rest a)) (\<lambda>(d, s).
          bindO (read_char s) (\<lambda>x.
            if isdelim x then Inr (a_deliver avail (Num d) (a\<lparr>a_rest := s\<rparr>)) else a_fail_at JSON_BAD_NUMBER s a)))"

text \<open>A string ends with the first zero; without a closing quote, what stands in the memory follows.\<close>

definition string_value :: "cstring \<Rightarrow> cstring \<Rightarrow> bool \<Rightarrow> cstring" where
  "string_value u ds cl = c_str (ds @ (if cl then [NUL] else drop (length ds) u))"

definition a_string :: "(nat \<Rightarrow> bool) \<Rightarrow> 'd astate \<Rightarrow> 'd aprogress outcome" where
  "a_string avail a =
     bindO (lex_string (a_rest a)) (\<lambda>r.
       case r of
         Inl e \<Rightarrow> a_fail_at JSON_BAD_STRING e a
       | Inr (ds, cl, s) \<Rightarrow>
           bindO (read_char s) (\<lambda>x.
             if isdelim x then Inr (a_deliver avail (Str (string_value (a_rest a) ds cl)) (a\<lparr>a_rest := s\<rparr>))
             else a_fail_at JSON_BAD_STRING s a))"

definition a_word :: "(nat \<Rightarrow> bool) \<Rightarrow> cstring \<Rightarrow> 'd json \<Rightarrow> 'd astate \<Rightarrow> 'd aprogress outcome" where
  "a_word avail w v a =
     bindO (spells w (a_rest a)) (\<lambda>ok.
       if ok then Inr (a_deliver avail v (a\<lparr>a_rest := drop (length w) (a_rest a)\<rparr>)) else a_fail JSON_BAD_IDENTIFIER a)"

definition a_close :: "(nat \<Rightarrow> bool) \<Rightarrow> bool \<Rightarrow> 'd astate \<Rightarrow> 'd aprogress outcome" where
  "a_close avail ob a =
     (case a_stack a of
        [] \<Rightarrow> a_fail JSON_STACK_UNDERFLOW a
      | (ob', k, xs) # fs \<Rightarrow>
          if ob' \<noteq> ob then a_fail JSON_MISMATCH_BRACKET a
          else if ob \<and> k \<noteq> None then a_fail JSON_UNEXPECTED_CHARACTER a
          else Inr (a_deliver avail (Coll ob xs) (a\<lparr>a_stack := fs\<rparr>)))"

definition a_open :: "bool \<Rightarrow> 'd astate \<Rightarrow> 'd aprogress outcome" where
  "a_open ob a =
     (if length (a_stack a) = JSON_STACK_SIZE then a_fail JSON_STACK_OVERFLOW a
      else Inr (ALoop (a\<lparr>a_stack := (ob, None, []) # a_stack a, a_separator := True\<rparr>)))"

definition a_sep :: "bool \<Rightarrow> 'd astate \<Rightarrow> 'd aprogress outcome" where
  "a_sep want_key a =
     (if a_separator a then a_fail JSON_UNEXPECTED_CHARACTER a
      else case a_stack a of
             [] \<Rightarrow> Inl (Undefined Out_Of_Range)
           | (ob, k, xs) # fs \<Rightarrow>
               if (k \<noteq> None) \<noteq> want_key then a_fail JSON_UNEXPECTED_CHARACTER a
               else Inr (ALoop (a\<lparr>a_separator := True\<rparr>)))"

definition a_switch :: "'d fp \<Rightarrow> (nat \<Rightarrow> bool) \<Rightarrow> char \<Rightarrow> 'd astate \<Rightarrow> 'd aprogress outcome" where
  "a_switch F avail c a =
     (if c = CHR ''-'' \<or> isdigit c then a_number F avail c a
      else if c = CHR 0x22 then a_string avail a
      else if c = CHR ''t'' then a_word avail ''rue'' Tru a
      else if c = CHR ''f'' then a_word avail ''alse'' Fls a
      else if c = CHR ''n'' then a_word avail ''ull'' Nul a
      else if c = CHR '']'' then a_close avail False a
      else if c = CHR ''}'' then a_close avail True a
      else if c = CHR ''['' then a_open False a
      else if c = CHR ''{'' then a_open True a
      else if c = CHR '':'' then a_sep True a
      else if c = CHR '','' then a_sep False a
      else if c = NUL then Inr (ALoop a)
      else a_fail JSON_UNEXPECTED_CHARACTER a)"

definition a_round :: "'d fp \<Rightarrow> (nat \<Rightarrow> bool) \<Rightarrow> 'd astate \<Rightarrow> 'd aprogress outcome" where
  "a_round F avail a =
     bindO (read_char (a_rest a)) (\<lambda>c.
       if c = NUL then a_fail JSON_BREAKING_BAD a
       else bindO (skip_space (a_rest a)) (\<lambda>t.
         bindO (read_char t) (\<lambda>c. a_switch F avail c (a\<lparr>a_end := t, a_rest := tl t\<rparr>))))"

text \<open>Every round takes something of the text.\<close>

lemma a_deliver_rest: "a_deliver avail v a = ALoop a' \<Longrightarrow> a_rest a' = a_rest a"
  by (cases "a_stack a"; cases v) (auto simp: a_deliver_def Let_def split: if_split_asm prod.split_asm)

lemma lex_string_rest: "lex_string s = Inr (Inr (ds, cl, t)) \<Longrightarrow> length t \<le> length s"
  by (drule lex_string_length) simp

lemma a_switch_rest:
  assumes "a_switch F avail c a = Inr (ALoop a')"
  shows "length (a_rest a') \<le> length (a_rest a)"
proof (cases "c = CHR ''-'' \<or> isdigit c")
  case True
  then have n: "a_number F avail c a = Inr (ALoop a')"
    using assms by (simp add: a_switch_def)
  obtain d s where s: "string2double F (c # a_rest a) = Inr (d, s)"
    and d: "a_deliver avail (Num d) (a\<lparr>a_rest := s\<rparr>) = ALoop a'"
    using n by (auto simp: a_number_def bindO_Inr a_fail_at_def split: if_split_asm)
  show ?thesis
    using suffix_length_le [OF string2double_suffix [OF s True]] a_deliver_rest [OF d] by simp
next
  case False
  show ?thesis
  proof (cases "c = CHR 0x22")
    case True
    then show ?thesis
      using assms False by (auto simp: a_switch_def a_string_def a_fail_at_def bindO_Inr split_sum_ex
          split: if_split_asm dest!: a_deliver_rest lex_string_rest)
  next
    case no: False
    then show ?thesis
      using assms False by (auto simp: a_switch_def a_word_def a_close_def a_open_def a_sep_def a_fail_def bindO_Inr
          split: if_split_asm list.split_asm prod.split_asm dest!: a_deliver_rest)
  qed
qed

lemma a_round_rest:
  assumes "a_round F avail a = Inr (ALoop a')"
  shows "length (a_rest a') < length (a_rest a)"
proof -
  obtain t d where t: "skip_space (a_rest a) = Inr t" "read_char t = Inr d"
    and w: "a_switch F avail d (a\<lparr>a_end := t, a_rest := tl t\<rparr>) = Inr (ALoop a')"
    using assms by (auto simp: a_round_def bindO_Inr a_fail_def split: if_split_asm)
  have "length t \<le> length (a_rest a)" "t \<noteq> []"
    using suffix_length_le [OF skip_space_suffix [OF t(1)]] t(2) by auto
  then show ?thesis
    using a_switch_rest [OF w] by (cases t) auto
qed

function a_loop :: "'d fp \<Rightarrow> (nat \<Rightarrow> bool) \<Rightarrow> 'd astate \<Rightarrow> (JsonErrno \<times> 'd json option \<times> cstring) outcome" where
  "a_loop F avail a =
     bindO (a_round F avail a) (\<lambda>r. case r of ALoop a' \<Rightarrow> a_loop F avail a' | AReturn e v a' \<Rightarrow> Inr (e, v, a_end a'))"
  by auto

termination a_loop
  by (relation "measure (\<lambda>(F, avail, a). length (a_rest a))") (auto dest: a_round_rest)

declare a_loop.simps [simp del]

text \<open>What \<open>jsonParse\<close> should return for the text \<open>s\<close>: the code, the value, and the text from \<open>*endptr\<close> on.\<close>

definition parse_spec :: "'d fp \<Rightarrow> (nat \<Rightarrow> bool) \<Rightarrow> cstring \<Rightarrow> (JsonErrno \<times> 'd json option \<times> cstring) outcome" where
  "parse_spec F avail s =
     a_loop F avail \<lparr>a_rest = s, a_end = s, a_count = 0, a_stack = [], a_separator = True\<rparr>"

text \<open>To run it on a given text.\<close>

lemmas run_spec = a_loop.simps a_round_def a_switch_def a_number_def a_string_def a_word_def a_close_def a_open_def a_sep_def
  a_deliver_def a_fail_def a_fail_at_def isspace_def isdigit_def isdelim_def schar_def JSON_STACK_SIZE_def

end
