(* ===== verification/Json_Nodes.thy ===== *)
theory Json_Nodes
  imports Json_Spec
begin

section \<open>Nodes that represent a tree\<close>

text \<open>
  How the nodes and strings that \<open>jsonParse\<close> leaves in memory represent a tree, how a ring of nodes
  grows and is closed, and how a client reads the tree back.
\<close>

subsection \<open>Nodes that represent a tree\<close>

text \<open>
  The nodes of a tree follow each other in the order they were allocated: those of the first
  item, its own node, those of the second item, and so on.  \<open>lo\<close> is where they begin; \<open>n\<close> is how
  much of the memory no longer changes.
\<close>

fun nsize :: "'d json \<Rightarrow> nat" and isize :: "(cstring option \<times> 'd json) list \<Rightarrow> nat" where
  "nsize (Coll ob xs) = isize xs"
| "nsize v = 0"
| "isize [] = 0"
| "isize ((k, v) # xs) = nsize v + 1 + isize xs"

definition string_at :: "memory \<Rightarrow> nat \<Rightarrow> nat \<Rightarrow> cstring \<Rightarrow> bool" where
  "string_at b n i t \<longleftrightarrow> NUL \<in> set (drop i (take n b)) \<and> c_str (drop i (take n b)) = t"

definition key_at :: "memory \<Rightarrow> nat \<Rightarrow> nat option \<Rightarrow> cstring option \<Rightarrow> bool" where
  "key_at b n i k \<longleftrightarrow> (case (i, k) of (None, None) \<Rightarrow> True | (Some i, Some t) \<Rightarrow> string_at b n i t | _ \<Rightarrow> False)"

fun first_node :: "nat \<Rightarrow> (cstring option \<times> 'd json) list \<Rightarrow> nat option" where
  "first_node lo [] = None"
| "first_node lo ((k, v) # xs) = Some (lo + nsize v)"

fun json_rep :: "memory \<Rightarrow> nat \<Rightarrow> 'd heap \<Rightarrow> nat \<Rightarrow> 'd json \<Rightarrow> 'd jvalue \<Rightarrow> bool"
  and items_rep :: "memory \<Rightarrow> nat \<Rightarrow> 'd heap \<Rightarrow> nat \<Rightarrow> (cstring option \<times> 'd json) list \<Rightarrow> nat option \<Rightarrow> bool" where
  "json_rep b n h lo (Num d) p \<longleftrightarrow> p = JNumber d"
| "json_rep b n h lo (Str t) p \<longleftrightarrow> (\<exists>i. p = JString i \<and> string_at b n i t)"
| "json_rep b n h lo (Coll ob xs) p \<longleftrightarrow>
     p = (if ob then JObject (first_node lo xs) else JArray (first_node lo xs)) \<and> items_rep b n h lo xs None"
| "json_rep b n h lo Tru p \<longleftrightarrow> p = JTrue"
| "json_rep b n h lo Fls p \<longleftrightarrow> p = JFalse"
| "json_rep b n h lo Nul p \<longleftrightarrow> p = JNull"
| "items_rep b n h lo [] nx \<longleftrightarrow> True"
| "items_rep b n h lo ((k, v) # xs) nx \<longleftrightarrow>
     json_rep b n h lo v (n_value (h ! (lo + nsize v))) \<and>
     key_at b n (n_key (h ! (lo + nsize v))) k \<and>
     n_next (h ! (lo + nsize v)) = (if xs = [] then nx else first_node (lo + nsize v + 1) xs) \<and>
     items_rep b n h (lo + nsize v + 1) xs nx"

lemma isize_append [simp]: "isize (xs @ ys) = isize xs + isize ys"
  by (induction xs) auto

lemma rep_heap:
  "(\<And>j. lo \<le> j \<Longrightarrow> j < lo + nsize v \<Longrightarrow> h' ! j = h ! j) \<Longrightarrow> json_rep b n h' lo v p = json_rep b n h lo v p"
  "(\<And>j. lo \<le> j \<Longrightarrow> j < lo + isize xs \<Longrightarrow> h' ! j = h ! j) \<Longrightarrow> items_rep b n h' lo xs nx = items_rep b n h lo xs nx"
proof (induction b n h lo v p and b n h lo xs nx rule: json_rep_items_rep.induct)
  case (8 b n h lo k v xs nx)
  have "json_rep b n h' lo v (n_value (h ! (lo + nsize v))) = json_rep b n h lo v (n_value (h ! (lo + nsize v)))"
    using 8(3) by (intro 8(1)) simp
  moreover have "items_rep b n h' (lo + nsize v + 1) xs nx = items_rep b n h (lo + nsize v + 1) xs nx"
    using 8(3) by (intro 8(2)) simp
  moreover have "h' ! (lo + nsize v) = h ! (lo + nsize v)"
    using 8(3) by simp
  ultimately show ?case
    by simp
qed auto

lemma string_at_mono: "string_at b n i t \<Longrightarrow> prefix (take n b) (take n' b') \<Longrightarrow> string_at b' n' i t"
proof -
  assume s: "string_at b n i t" and "prefix (take n b) (take n' b')"
  then obtain x where x: "take n' b' = take n b @ x"
    by (auto simp: prefix_def)
  have "i \<le> length (take n b)"
    using s by (cases "i \<le> length (take n b)") (auto simp: string_at_def)
  then have "drop i (take n' b') = drop i (take n b) @ x"
    unfolding x by simp
  then show "string_at b' n' i t"
    using s by (auto simp: string_at_def c_str_def takeWhile_append)
qed

lemma key_at_mono: "key_at b n i k \<Longrightarrow> prefix (take n b) (take n' b') \<Longrightarrow> key_at b' n' i k"
  by (auto simp: key_at_def string_at_mono split: option.splits)

lemma rep_mem:
  "json_rep b n h lo v p \<Longrightarrow> prefix (take n b) (take n' b') \<Longrightarrow> json_rep b' n' h lo v p"
  "items_rep b n h lo xs nx \<Longrightarrow> prefix (take n b) (take n' b') \<Longrightarrow> items_rep b' n' h lo xs nx"
  by (induction b n h lo v p and b n h lo xs nx rule: json_rep_items_rep.induct)
    (auto intro: string_at_mono key_at_mono)

text \<open>A list grows at its end, and its last node may be linked elsewhere.\<close>

lemma items_rep_snoc:
  "items_rep b n h lo (xs @ [(k, v)]) nx \<longleftrightarrow>
     items_rep b n h lo xs (Some (lo + isize xs + nsize v)) \<and>
     json_rep b n h (lo + isize xs) v (n_value (h ! (lo + isize xs + nsize v))) \<and>
     key_at b n (n_key (h ! (lo + isize xs + nsize v))) k \<and>
     n_next (h ! (lo + isize xs + nsize v)) = nx"
proof (induction xs arbitrary: lo)
  case (Cons x xs)
  obtain k' v' where x: "x = (k', v')"
    by (cases x)
  have e: "lo + nsize v' + 1 + isize xs = lo + isize (x # xs)"
    by (simp add: x)
  have "first_node (lo + nsize v' + 1) (xs @ [(k, v)]) =
      (if xs = [] then Some (lo + isize (x # xs) + nsize v) else first_node (lo + nsize v' + 1) xs)"
    by (cases xs) (auto simp: x)
  then show ?case
    using Cons.IH [of "lo + nsize v' + 1"] unfolding e by (simp add: x)
qed simp

definition ring :: "memory \<Rightarrow> nat \<Rightarrow> 'd heap \<Rightarrow> nat \<Rightarrow> (cstring option \<times> 'd json) list \<Rightarrow> nat option \<Rightarrow> bool" where
  "ring b n h lo xs tail \<longleftrightarrow> items_rep b n h lo xs (first_node lo xs) \<and>
     tail = (if xs = [] then None else Some (lo + isize xs - 1))"

lemma isize_pos: "xs \<noteq> [] \<Longrightarrow> 0 < isize xs"
  by (cases xs rule: isize.cases) auto

lemma last_next:
  assumes "items_rep b n h lo xs nx" "xs \<noteq> []"
  shows "n_next (h ! (lo + isize xs - 1)) = nx"
proof -
  obtain ys k v where xs: "xs = ys @ [(k, v)]"
    using assms(2) by (metis append_butlast_last_id surj_pair)
  then show ?thesis
    using assms(1) by (simp add: items_rep_snoc add.assoc)
qed

lemma items_rep_relink:
  assumes rep: "items_rep b n h lo xs nx" and ne: "xs \<noteq> []"
    and same: "\<And>j. lo \<le> j \<Longrightarrow> j < lo + isize xs - 1 \<Longrightarrow> h' ! j = h ! j"
    and last: "h' ! (lo + isize xs - 1) = (h ! (lo + isize xs - 1))\<lparr>n_next := q\<rparr>"
  shows "items_rep b n h' lo xs q"
proof -
  obtain ys k v where xs: "xs = ys @ [(k, v)]"
    using ne by (metis append_butlast_last_id surj_pair)
  have l: "lo + isize xs - 1 = lo + isize ys + nsize v"
    by (simp add: xs)
  have "items_rep b n h' lo ys (Some (lo + isize ys + nsize v)) = items_rep b n h lo ys (Some (lo + isize ys + nsize v))"
    using same unfolding l by (intro rep_heap) simp
  moreover have "json_rep b n h' (lo + isize ys) v p = json_rep b n h (lo + isize ys) v p" for p
    using same unfolding l by (intro rep_heap) simp
  ultimately show ?thesis
    using rep last unfolding l unfolding xs by (simp add: items_rep_snoc)
qed

lemma first_node_snoc:
  "first_node lo (xs @ [(k, v)]) = (if xs = [] then Some (lo + nsize v) else first_node lo xs)"
  by (cases xs rule: isize.cases) auto

lemma ring_insert:
  assumes ring: "ring b n h lo xs tail" and v: "json_rep b n h (lo + isize xs) v p" "key_at b n i k"
    and len: "lo + isize xs + nsize v = length h"
    and ins: "insertAfter tail (length h) (h @ [fresh_node]) = (t, h1)"
    and h2: "h2 = h1[t := (h1 ! t)\<lparr>n_key := i, n_value := p\<rparr>]"
  shows "t = length h \<and> length h2 = Suc (length h) \<and> ring b n h2 lo (xs @ [(k, v)]) (Some t) \<and> (\<forall>j < lo. h2 ! j = h ! j)"
proof (cases "xs = []")
  case True
  then have "tail = None"
    using ring by (simp add: ring_def)
  then have 1: "t = length h" "h2 = h @ [\<lparr>n_value = p, n_next = Some (length h), n_key = i\<rparr>]"
    using ins h2 by (auto simp: insertAfter_def set_next_def fresh_node_def nth_append list_update_append)
  have "json_rep b n h2 lo v q = json_rep b n h lo v q" for q
    using len True by (intro rep_heap) (simp add: 1 nth_append)
  then show ?thesis
    using True v len by (simp add: 1 ring_def nth_append)
next
  case False
  define T where "T = lo + isize xs - 1"
  have T: "tail = Some T" "T < length h" "lo \<le> T" "Suc T = lo + isize xs"
    using ring False len isize_pos [OF False] by (auto simp: ring_def T_def)
  have T': "lo + isize xs - Suc 0 = T"
    by (simp add: T_def)
  have first: "n_next (h ! T) = first_node lo xs"
    using ring False unfolding T_def by (intro last_next [of b n]) (simp_all add: ring_def)
  have 1: "t = length h"
    "h2 = h[T := (h ! T)\<lparr>n_next := Some (length h)\<rparr>] @ [\<lparr>n_value = p, n_next = first_node lo xs, n_key = i\<rparr>]"
    using ins h2 T(2) first
    by (auto simp: T(1) insertAfter_def set_next_def fresh_node_def nth_append list_update_append)
  have same: "h2 ! j = h ! j" if "j < length h" "j \<noteq> T" for j
    using that by (simp add: 1 nth_append)
  have "items_rep b n h2 lo xs (Some (length h))"
  proof (rule items_rep_relink)
    show "items_rep b n h lo xs (first_node lo xs)"
      using ring by (simp add: ring_def)
  qed (use False T T' same in \<open>auto simp: 1 nth_append simp flip: T_def\<close>)
  moreover have "json_rep b n h2 (lo + isize xs) v q = json_rep b n h (lo + isize xs) v q" for q
    using len T by (intro rep_heap same) auto
  ultimately have "items_rep b n h2 lo (xs @ [(k, v)]) (first_node lo xs)"
    using v len unfolding items_rep_snoc by (simp add: 1 nth_append)
  moreover have "h2 ! j = h ! j" if "j < lo" for j
    using that T by (intro same) simp_all
  ultimately show ?thesis
    using False len by (simp add: 1 ring_def first_node_snoc)
qed

lemma ring_close:
  assumes ring: "ring b n h lo xs tail" and len: "lo + isize xs = length h"
    and cl: "listToValue (if ob then JObject else JArray) tail h = (p, h')"
  shows "length h' = length h \<and> json_rep b n h' lo (Coll ob xs) p \<and> (\<forall>j < lo. h' ! j = h ! j)"
proof (cases "xs = []")
  case True
  then show ?thesis
    using ring cl by (auto simp: ring_def listToValue_def)
next
  case False
  define T where "T = lo + isize xs - 1"
  have T: "tail = Some T" "T < length h" "lo \<le> T" "Suc T = lo + isize xs"
    using ring False len isize_pos [OF False] by (auto simp: ring_def T_def)
  have T': "lo + isize xs - Suc 0 = T"
    by (simp add: T_def)
  have "n_next (h ! T) = first_node lo xs"
    using ring False unfolding T_def by (intro last_next [of b n]) (simp_all add: ring_def)
  then have 1: "h' = h[T := (h ! T)\<lparr>n_next := None\<rparr>]" "p = (if ob then JObject else JArray) (first_node lo xs)"
    using cl by (auto simp: T(1) listToValue_def set_next_def)
  have "items_rep b n h' lo xs None"
  proof (rule items_rep_relink)
    show "items_rep b n h lo xs (first_node lo xs)"
      using ring by (simp add: ring_def)
  qed (use False T T' in \<open>auto simp: 1 simp flip: T_def\<close>)
  then show ?thesis
    using T by (simp add: 1)
qed

subsection \<open>Reading the nodes\<close>

text \<open>
  \<open>JsonIterator\<close> over the nodes of a list, and a tree read with it as a client of the parser
  does.  \<open>m\<close> bounds the steps, \<open>k\<close> the depth of the calls.
\<close>

definition iterator_begin :: "'d jvalue \<Rightarrow> nat option outcome" where
  "iterator_begin v = (case v of JArray p \<Rightarrow> Inr p | JObject p \<Rightarrow> Inr p | _ \<Rightarrow> Inl No_Return)"

definition iterator_end :: "nat option" where
  "iterator_end = None"

definition iterator_next :: "'d heap \<Rightarrow> nat \<Rightarrow> nat option" where
  "iterator_next h n = n_next (h ! n)"

fun walk :: "'d heap \<Rightarrow> nat \<Rightarrow> nat option \<Rightarrow> nat list option" where
  "walk h 0 it = None"
| "walk h (Suc m) it =
     (if it = iterator_end then Some []
      else if the it < length h then map_option (Cons (the it)) (walk h m (iterator_next h (the it)))
      else None)"

definition read_string :: "memory \<Rightarrow> nat \<Rightarrow> cstring" where
  "read_string b i = c_str (drop i b)"

fun read_json :: "nat \<Rightarrow> memory \<Rightarrow> 'd heap \<Rightarrow> 'd jvalue \<Rightarrow> 'd json option" where
  "read_json 0 b h v = None"
| "read_json (Suc k) b h v =
     (case v of
        JNumber d \<Rightarrow> Some (Num d)
      | JString i \<Rightarrow> Some (Str (read_string b i))
      | JTrue \<Rightarrow> Some Tru
      | JFalse \<Rightarrow> Some Fls
      | JNull \<Rightarrow> Some Nul
      | _ \<Rightarrow>
          (case iterator_begin v of
             Inl u \<Rightarrow> None
           | Inr it \<Rightarrow>
               (case walk h (length h + 1) it of
                  None \<Rightarrow> None
                | Some ns \<Rightarrow> map_option (Coll (value_tag v = JSON_OBJECT)) (those (map (\<lambda>n.
                    map_option (Pair (map_option (read_string b) (n_key (h ! n)))) (read_json k b h (n_value (h ! n)))) ns)))))"

fun jdepth :: "'d json \<Rightarrow> nat" and idepth :: "(cstring option \<times> 'd json) list \<Rightarrow> nat" where
  "jdepth (Coll ob xs) = Suc (idepth xs)"
| "jdepth v = 0"
| "idepth [] = 0"
| "idepth ((k, v) # xs) = max (jdepth v) (idepth xs)"

lemma c_str_NUL: "NUL \<in> set x \<Longrightarrow> c_str (x @ y) = c_str x"
  by (induction x) (auto simp: c_str_def)

lemma string_at_read: "string_at b n i t \<Longrightarrow> read_string b i = t"
proof -
  assume s: "string_at b n i t"
  have "drop i b = drop i (take n b) @ drop (i - length (take n b)) (drop n b)"
    by (metis append_take_drop_id drop_append)
  then show ?thesis
    using s c_str_NUL by (metis read_string_def string_at_def)
qed

lemma key_at_read: "key_at b n i k \<Longrightarrow> map_option (read_string b) i = k"
  by (auto simp: key_at_def string_at_read split: option.splits)

definition read_item :: "nat \<Rightarrow> memory \<Rightarrow> 'd heap \<Rightarrow> nat \<Rightarrow> (cstring option \<times> 'd json) option" where
  "read_item k b h n = map_option (Pair (map_option (read_string b) (n_key (h ! n)))) (read_json k b h (n_value (h ! n)))"

lemma length_isize: "length xs \<le> isize xs"
  by (induction xs) auto

lemma read_Coll:
  assumes "walk h (length h + 1) p = Some ns" "those (map (read_item k b h) ns) = Some xs"
  shows "read_json (Suc k) b h (if ob then JObject p else JArray p) = Some (Coll ob xs)"
  using assms by (cases ob) (simp_all add: iterator_begin_def read_item_def [abs_def])

lemma read_rep:
  "json_rep b n h lo v p \<Longrightarrow> lo + nsize v \<le> length h \<Longrightarrow> \<forall>k > jdepth v. read_json k b h p = Some v"
  "items_rep b n h lo xs nx \<Longrightarrow> nx = None \<Longrightarrow> lo + isize xs \<le> length h \<Longrightarrow>
     \<exists>ns. (\<forall>m > length xs. walk h m (first_node lo xs) = Some ns) \<and>
       (\<forall>k > idepth xs. those (map (read_item k b h) ns) = Some xs)"
proof (induction b n h lo v p and b n h lo xs nx rule: json_rep_items_rep.induct)
  case (1 b n h lo d p)
  then show ?case
    using less_imp_Suc_add by fastforce
next
  case (2 b n h lo t p)
  then show ?case
    using less_imp_Suc_add string_at_read by fastforce
next
  case (3 b n h lo ob xs p)
  then obtain ns where ns: "\<forall>m > length xs. walk h m (first_node lo xs) = Some ns"
    "\<forall>k > idepth xs. those (map (read_item k b h) ns) = Some xs"
    by auto
  have p: "p = (if ob then JObject (first_node lo xs) else JArray (first_node lo xs))" "length xs < length h + 1"
    using 3 length_isize [of xs] by simp_all
  show ?case
  proof (intro allI impI)
    fix k
    assume "jdepth (Coll ob xs) < k"
    then obtain k' where "k = Suc k'" "idepth xs < k'"
      by (cases k) auto
    moreover from this have "read_json (Suc k') b h p = Some (Coll ob xs)"
      unfolding p(1) using ns p(2) by (intro read_Coll) blast+
    ultimately show "read_json k b h p = Some (Coll ob xs)"
      by (simp only:)
  qed
next
  case (8 b n h lo k v xs nx)
  let ?n = "lo + nsize v"
  have nx: "n_next (h ! ?n) = first_node (?n + 1) xs"
    using 8 by (cases xs) auto
  obtain ns where ns: "\<forall>m > length xs. walk h m (first_node (?n + 1) xs) = Some ns"
    "\<forall>k > idepth xs. those (map (read_item k b h) ns) = Some xs"
    using 8 by auto
  have "\<forall>k > jdepth v. read_json k b h (n_value (h ! ?n)) = Some v"
    using 8 by auto
  then have "\<forall>k' > idepth ((k, v) # xs). read_item k' b h ?n = Some (k, v)"
    using 8 by (auto simp: read_item_def key_at_read)
  moreover have "walk h m (first_node lo ((k, v) # xs)) = Some (?n # ns)" if m: "m > length ((k, v) # xs)" for m
  proof -
    obtain m' where m': "m = Suc m'" "length xs < m'"
      using m by (cases m) auto
    then show ?thesis
      using ns(1) nx 8 by (simp add: iterator_end_def iterator_next_def)
  qed
  ultimately show ?case
    using ns(2) by (intro exI [of _ "?n # ns"]) simp
qed (auto dest!: less_imp_Suc_add intro: exI [of _ "[]"] simp: iterator_end_def)

end
