(* ===== verification/Json_Refine.thy ===== *)
theory Json_Refine
  imports Json_Nodes
begin

section \<open>The JSON parser refines its specification\<close>

text \<open>
  Every round of \<open>jsonParse\<close> is a round of the parser on trees: the same results, errors and places of
  errors, and the nodes left represent the tree.
\<close>

subsection \<open>The refinement\<close>

fun stack_rep :: "memory \<Rightarrow> nat \<Rightarrow> 'd heap \<Rightarrow> nat \<Rightarrow> frame list \<Rightarrow> (bool \<times> cstring option \<times> (cstring option \<times> 'd json) list) list \<Rightarrow> bool" where
  "stack_rep b n h hi [] [] \<longleftrightarrow> hi = 0"
| "stack_rep b n h hi (f # fs) ((ob, k, xs) # as) \<longleftrightarrow>
     isize xs \<le> hi \<and> f_tag f = (if ob then JSON_OBJECT else JSON_ARRAY) \<and> key_at b n (f_key f) k \<and>
     ring b n h (hi - isize xs) xs (f_tail f) \<and> stack_rep b n h (hi - isize xs) fs as"
| "stack_rep b n h hi fs as \<longleftrightarrow> False"

lemma stack_rep_heap:
  "(\<And>j. j < hi \<Longrightarrow> h' ! j = h ! j) \<Longrightarrow> stack_rep b n h' hi fs as = stack_rep b n h hi fs as"
proof (induction b n h hi fs as rule: stack_rep.induct)
  case (2 b n h hi f fs ob k xs as)
  have "isize xs \<le> hi \<Longrightarrow> items_rep b n h' (hi - isize xs) xs q = items_rep b n h (hi - isize xs) xs q" for q
    using 2(2) by (intro rep_heap) simp
  then show ?case
    using 2 by (auto simp: ring_def)
qed auto

lemma stack_rep_mem:
  "stack_rep b n h hi fs as \<Longrightarrow> prefix (take n b) (take n' b') \<Longrightarrow> stack_rep b' n' h hi fs as"
  by (induction b n h hi fs as rule: stack_rep.induct) (auto simp: ring_def intro: rep_mem key_at_mono)

lemma stack_rep_Nil: "stack_rep b n h hi fs [] \<longleftrightarrow> fs = [] \<and> hi = 0" "stack_rep b n h hi [] as \<longleftrightarrow> as = [] \<and> hi = 0"
  by (cases fs; simp; fail) (cases as; simp)

lemma stack_rep_length: "stack_rep b n h hi fs as \<Longrightarrow> length fs = length as"
  by (induction b n h hi fs as rule: stack_rep.induct) simp_all

lemma stack_rep_cases [consumes 1, case_names Nil Cons]:
  assumes "stack_rep b n h hi fs as"
  obtains "fs = []" "as = []" "hi = 0"
  | f gs ob k xs bs where "fs = f # gs" "as = (ob, k, xs) # bs" "isize xs \<le> hi"
    "f_tag f = (if ob then JSON_OBJECT else JSON_ARRAY)" "key_at b n (f_key f) k"
    "ring b n h (hi - isize xs) xs (f_tail f)" "stack_rep b n h (hi - isize xs) gs bs"
  using assms by (cases "(b, n, h, hi, fs, as)" rule: stack_rep.cases) auto

text \<open>The states of both parsers; \<open>hi\<close> is where the nodes of a finished value begin.\<close>

definition alike :: "nat \<Rightarrow> nat \<Rightarrow> nat \<Rightarrow> 'd jstate \<Rightarrow> 'd astate \<Rightarrow> bool" where
  "alike len n hi st a \<longleftrightarrow>
     length (j_mem st) = len \<and> j_s st \<le> len \<and> a_rest a = rest st \<and> j_endptr st = len - length (a_end a) \<and>
     a_count a = length (j_heap st) \<and> a_separator a = j_separator st \<and>
     stack_rep (j_mem st) n (j_heap st) hi (j_frames st) (a_stack a)"

definition loops :: "nat \<Rightarrow> 'd jstate \<Rightarrow> 'd astate \<Rightarrow> bool" where
  "loops len st a \<longleftrightarrow> alike len (Suc (j_s st)) (length (j_heap st)) st a"

definition returns :: "nat \<Rightarrow> 'd jvalue option \<Rightarrow> 'd jstate \<Rightarrow> 'd json option \<Rightarrow> 'd astate \<Rightarrow> bool" where
  "returns len p st v a \<longleftrightarrow>
     j_endptr st = len - length (a_end a) \<and> length (j_mem st) = len \<and>
     (case (v, p) of (None, None) \<Rightarrow> True
      | (Some v, Some p) \<Rightarrow> json_rep (j_mem st) len (j_heap st) 0 v p \<and> nsize v \<le> length (j_heap st) | _ \<Rightarrow> False)"

definition progress :: "nat \<Rightarrow> 'd progress \<Rightarrow> 'd aprogress \<Rightarrow> bool" where
  "progress len P A \<longleftrightarrow>
     (case (P, A) of
        (Loop st, ALoop a) \<Rightarrow> loops len st a
      | (Return e p st, AReturn e' v a) \<Rightarrow> e = e' \<and> returns len p st v a
      | _ \<Rightarrow> False)"

lemma key_at_None: "key_at b n i None \<longleftrightarrow> i = None" "key_at b n None k \<longleftrightarrow> k = None"
  "key_at b n (Some q) k \<longleftrightarrow> (\<exists>t. k = Some t \<and> string_at b n q t)"
  "key_at b n j (Some t) \<longleftrightarrow> (\<exists>i. j = Some i \<and> string_at b n i t)"
  by (auto simp: key_at_def split: option.splits)

lemma json_rep_Str: "json_rep b n h lo v (JString i) \<longleftrightarrow> (\<exists>t. v = Str t \<and> string_at b n i t)"
  by (cases v) auto

lemma take_prefix: "n \<le> m \<Longrightarrow> prefix (take n b) (take m b)"
  by (metis min.absorb1 take_is_prefix take_take)

lemma deliver_refines:
  assumes st: "alike len (Suc (j_s st)) hi st a" and v: "json_rep (j_mem st) (Suc (j_s st)) (j_heap st) hi v p"
    and hi: "hi + nsize v = length (j_heap st)"
  shows "progress len (deliver avail p st) (a_deliver avail v a)"
proof -
  let ?b = "j_mem st" and ?n = "Suc (j_s st)" and ?h = "j_heap st"
  have stack: "stack_rep ?b ?n ?h hi (j_frames st) (a_stack a)"
    using st by (simp add: alike_def)
  then show ?thesis
  proof (cases rule: stack_rep_cases)
    case Nil
    have "prefix (take ?n ?b) (take len ?b)"
      using st by (simp add: alike_def take_is_prefix)
    then have "json_rep ?b len ?h 0 v p"
      by (rule rep_mem(1) [OF v [unfolded Nil]])
    then show ?thesis
      using Nil st hi by (simp add: deliver_def a_deliver_def progress_def returns_def alike_def rest_def)
  next
    case (Cons f gs ob k xs bs)
    show ?thesis
    proof (cases "ob \<and> k = None")
      case True
      then have f: "f_tag f = JSON_OBJECT" "f_key f = None"
        using Cons by (simp_all add: key_at_None)
      show ?thesis
      proof (cases "\<exists>i. p = JString i")
        case True
        then obtain i t where i: "p = JString i" "v = Str t" "string_at ?b ?n i t"
          using v by (auto simp: json_rep_Str)
        then have "hi = length ?h"
          using hi by simp
        then show ?thesis
          using \<open>ob \<and> k = None\<close> f i Cons st
          by (simp add: deliver_def a_deliver_def progress_def loops_def alike_def set_top_def rest_def key_at_def)
      next
        case False
        moreover have "\<forall>t. v \<noteq> Str t"
          using False v by auto
        ultimately show ?thesis
          using \<open>ob \<and> k = None\<close> f Cons st
          by (cases p; cases v) (simp_all add: deliver_def a_deliver_def progress_def returns_def alike_def Let_def)
      qed
    next
      case False
      then have no_key: "\<not> (f_tag f = JSON_OBJECT \<and> f_key f = None)"
        using Cons by (auto simp: key_at_None)
      obtain t h1 where ins: "insertAfter (f_tail f) (length ?h) (?h @ [fresh_node]) = (t, h1)"
        by (cases "insertAfter (f_tail f) (length ?h) (?h @ [fresh_node])")
      define h2 where "h2 = h1[t := (h1 ! t)\<lparr>n_key := f_key f, n_value := p\<rparr>]"
      have "t = length ?h \<and> length h2 = Suc (length ?h) \<and> ring ?b ?n h2 (hi - isize xs) (xs @ [(k, v)]) (Some t) \<and>
          (\<forall>j < hi - isize xs. h2 ! j = ?h ! j)"
        using Cons hi v by (intro ring_insert [OF Cons(6) _ Cons(5) _ ins h2_def]) simp_all
      then have r: "t = length ?h" "length h2 = Suc (length ?h)" "ring ?b ?n h2 (hi - isize xs) (xs @ [(k, v)]) (Some t)"
          "\<And>j. j < hi - isize xs \<Longrightarrow> h2 ! j = ?h ! j"
        by blast+
      have "stack_rep ?b ?n h2 (hi - isize xs) gs bs"
        using stack_rep_heap [of "hi - isize xs" h2 ?h] r Cons(7) by blast
      moreover have "length ?h - (isize xs + nsize v) = hi - isize xs"
        using hi by linarith
      ultimately have stack2: "stack_rep ?b ?n h2 (length h2) (f\<lparr>f_tail := Some t, f_key := None\<rparr> # gs) ((ob, None, xs @ [(k, v)]) # bs)"
        using r Cons(3,4) hi by (simp add: key_at_None)
      have d: "deliver avail p st =
          (if avail (length ?h)
           then Loop (st\<lparr>j_separator := False, j_heap := h2, j_frames := f\<lparr>f_tail := Some t, f_key := None\<rparr> # gs\<rparr>)
           else Return JSON_ALLOCATION_FAILURE None (st\<lparr>j_separator := False\<rparr>))"
        unfolding h2_def using no_key
        by (auto simp: deliver_def Cons(1) append_node_def ins set_top_def Let_def)
      have e: "a_deliver avail v a =
          (if avail (length ?h)
           then ALoop (a\<lparr>a_separator := False, a_stack := (ob, None, xs @ [(k, v)]) # bs, a_count := Suc (length ?h)\<rparr>)
           else AReturn JSON_ALLOCATION_FAILURE None (a\<lparr>a_separator := False\<rparr>))"
        using False st by (auto simp: a_deliver_def Cons(2) alike_def Let_def)
      show ?thesis
        unfolding d e using st r stack2
        by (simp add: progress_def returns_def loops_def alike_def rest_def del: stack_rep.simps)
    qed
  qed
qed

text \<open>The cases of the \<open>switch\<close>, from states in which the strings end before \<open>s\<close>.\<close>

definition entry :: "nat \<Rightarrow> 'd jstate \<Rightarrow> 'd astate \<Rightarrow> bool" where
  "entry len st a \<longleftrightarrow> alike len (j_s st) (length (j_heap st)) st a"

definition matches :: "nat \<Rightarrow> 'd progress outcome \<Rightarrow> 'd aprogress outcome \<Rightarrow> bool" where
  "matches len P A \<longleftrightarrow>
     (case (P, A) of (Inl u, Inl u') \<Rightarrow> u = u' | (Inr p, Inr q) \<Rightarrow> progress len p q | _ \<Rightarrow> False)"

lemma matches_simps [simp]:
  "matches len (Inl u) (Inl u') \<longleftrightarrow> u = u'"
  "matches len (Inr p) (Inr q) \<longleftrightarrow> progress len p q"
  by (simp_all add: matches_def)

lemma progress_simps [simp]:
  "progress len (Loop st) (ALoop a) \<longleftrightarrow> loops len st a"
  "progress len (Return e p st) (AReturn e' v a) \<longleftrightarrow> e = e' \<and> returns len p st v a"
  by (simp_all add: progress_def)

lemma matches_bind:
  "(\<And>x. m = Inr x \<Longrightarrow> matches len (k x) (k' x)) \<Longrightarrow> matches len (bindO m k) (bindO m k')"
  by (cases m) simp_all

lemma alike_mono:
  assumes "alike len n hi st a" "prefix (take n (j_mem st)) (take n' b')" "length b' = len" "s' \<le> len"
    "t' = drop s' b'" "e' = len - length t2"
  shows "alike len n' hi (st\<lparr>j_mem := b', j_s := s', j_endptr := e'\<rparr>) (a\<lparr>a_rest := t', a_end := t2\<rparr>)"
  using assms stack_rep_mem by (auto simp: alike_def rest_def)

lemma fail_matches: "entry len st a \<Longrightarrow> matches len (fail e st) (a_fail e a)"
  by (simp add: fail_def a_fail_def returns_def entry_def alike_def)

lemma fail_at_matches:
  "length (j_mem st) = len \<Longrightarrow> j_s st = len - length t \<Longrightarrow> matches len (fail_here e st) (a_fail_at e t a)"
  by (simp add: fail_here_def a_fail_at_def returns_def)

text \<open>A value without nodes, found up to \<open>s'\<close>.\<close>

lemma plain_matches:
  assumes en: "entry len st a" and s': "j_s st \<le> s'" "s' < len" and v: "nsize v = 0" "json_rep (j_mem st) (Suc s') (j_heap st) (length (j_heap st)) v p"
    and t: "t = drop s' (j_mem st)"
  shows "matches len (Inr (deliver avail p (st\<lparr>j_s := s'\<rparr>))) (Inr (a_deliver avail v (a\<lparr>a_rest := t\<rparr>)))"
proof -
  have len: "length (j_mem st) = len" "j_endptr st = len - length (a_end a)"
    using en by (simp_all add: entry_def alike_def)
  have "alike len (Suc s') (length (j_heap st)) (st\<lparr>j_mem := j_mem st, j_s := s', j_endptr := j_endptr st\<rparr>) (a\<lparr>a_rest := t, a_end := a_end a\<rparr>)"
    using en s' t len unfolding entry_def by (elim alike_mono) (simp_all add: take_prefix)
  then have "progress len (deliver avail p (st\<lparr>j_s := s'\<rparr>)) (a_deliver avail v (a\<lparr>a_rest := t\<rparr>))"
    using v s' by (intro deliver_refines [of len _ "length (j_heap st)"]) simp_all
  then show ?thesis
    by simp
qed

lemma matches_bind2:
  "(\<And>x y. m = Inr (x, y) \<Longrightarrow> matches len (k x y) (k' x y)) \<Longrightarrow>
     matches len (bindO m (\<lambda>(x, y). k x y)) (bindO m (\<lambda>(x, y). k' x y))"
  by (cases m) auto

lemma matches_if:
  "(b \<Longrightarrow> matches len p q) \<Longrightarrow> (\<not> b \<Longrightarrow> matches len p' q') \<Longrightarrow>
     matches len (if b then p else p') (if b then q else q')"
  by simp

lemma number_matches:
  assumes en: "entry len st a" and c: "c = CHR ''-'' \<or> isdigit c"
  shows "matches len (case_number F avail c st) (a_number F avail c a)"
proof -
  have a: "a_rest a = rest st" "length (j_mem st) = len" "j_s st \<le> len"
    using en by (auto simp: entry_def alike_def)
  show ?thesis
    unfolding case_number_def a_number_def a(1) Let_def
  proof (intro matches_bind2 matches_bind matches_if)
    show "matches len (fail_here JSON_BAD_NUMBER st) (a_fail_at JSON_BAD_NUMBER (rest st) a)"
      using a by (intro fail_at_matches) (simp_all add: rest_def)
  next
    fix d s x
    assume d: "string2double F (c # rest st) = Inr (d, s)" and x: "read_char s = Inr x"
    have suf: "suffix s (rest st)"
      using string2double_suffix [OF d c] .
    have s: "1 \<le> length s" "length s \<le> len - j_s st" "drop (len - length s) (j_mem st) = s"
      using x suffix_length_le [OF suf] drop_suffix [OF suf [unfolded rest_def]] a(2) by (cases s; simp add: rest_def)+
    show "matches len (Inr (deliver avail (JNumber d) (st\<lparr>j_s := length (j_mem st) - length s\<rparr>)))
        (Inr (a_deliver avail (Num d) (a\<lparr>a_rest := s\<rparr>)))"
      using s a by (intro plain_matches [OF en]) auto
    show "matches len (fail_here JSON_BAD_NUMBER (st\<lparr>j_s := length (j_mem st) - length s\<rparr>)) (a_fail_at JSON_BAD_NUMBER s a)"
      using a by (simp add: fail_at_matches)
  qed
qed

lemma spells_length: "spells w s = Inr True \<Longrightarrow> length w < length s"
proof (induction w s rule: spells.induct)
  case (2 w ws s)
  then show ?case
    by (cases s) (auto split: if_splits)
qed (auto simp: bindO_Inr intro: Suc_leI elim: read_char.elims)

lemma word_matches:
  assumes en: "entry len st a" and v: "nsize v = 0" "\<And>b n h lo. json_rep b n h lo v p"
  shows "matches len (case_word avail w p st) (a_word avail w v a)"
proof -
  have a: "a_rest a = rest st" "length (j_mem st) = len" "j_s st \<le> len"
    using en by (auto simp: entry_def alike_def)
  show ?thesis
    unfolding case_word_def a_word_def a(1)
  proof (intro matches_bind matches_if)
    fix ok
    assume "spells w (rest st) = Inr ok" ok
    then have "length w < length (rest st)"
      by (simp add: spells_length)
    then show "matches len (Inr (deliver avail p (st\<lparr>j_s := j_s st + length w\<rparr>)))
        (Inr (a_deliver avail v (a\<lparr>a_rest := drop (length w) (rest st)\<rparr>)))"
      using v a by (intro plain_matches [OF en]) (auto simp: rest_def add.commute)
  qed (rule fail_matches [OF en])
qed

lemma lex_string_suffix: "lex_string s = Inr (Inr (ds, cl, t)) \<Longrightarrow> suffix t s \<and> (\<not> cl \<longrightarrow> t \<noteq> [] \<and> hd t = NUL)"
proof (induction s arbitrary: ds rule: lex_string.induct)
  case (2 c s)
  show ?case
  proof (cases "c = CHR 0x5C")
    case True
    then obtain es s' fs where e: "lex_escape s = Inr (Inr (es, s'))" "lex_string s' = Inr (Inr (fs, cl, t))"
      using "2.prems" by (auto simp: bindO_Inr split_sum_ex decoded_Inr)
    then have "suffix t s' \<and> (\<not> cl \<longrightarrow> t \<noteq> [] \<and> hd t = NUL)"
      using "2.IH"(1) [OF _ True, of "Inr (es, s')" "(es, s')" es s'] True by simp
    then show ?thesis
      using lex_escape_suffix [OF e(1)] by (meson suffix_ConsI suffix_order.trans)
  next
    case False
    then show ?thesis
      using "2.prems" "2.IH"(2) by (auto simp: decoded_Inr suffix_Cons split: if_splits)
  qed
qed simp

lemma peek_read: "peek b i = read_char (drop i b)"
proof (cases "drop i b")
  case Nil
  then show ?thesis
    by (simp add: peek_def)
next
  case (Cons c t)
  then show ?thesis
    using drop_Cons_nth [OF Cons] by (simp add: peek_def)
qed

text \<open>The string found at \<open>i\<close>, closed or not, ends at a zero before or at \<open>s'\<close>.\<close>

lemma string_found:
  assumes lex: "lex_string (drop i b) = Inr (Inr (ds, cl, t))" and i: "i < length b"
  defines "b' \<equiv> splice b i ds cl" and "s' \<equiv> length b - length t"
  shows "length b' = length b" "i \<le> s'" "drop s' b' = t" "take i b' = take i b"
    "s' < length b \<Longrightarrow> string_at b' (Suc s') i (string_value (drop i b) ds cl)"
proof -
  have len: "length ds + (if cl then 1 else 0) + length t \<le> length b - i"
    using lex_string_length [OF lex] by simp
  have suf: "suffix t (drop i b)" "\<not> cl \<longrightarrow> t \<noteq> [] \<and> hd t = NUL"
    using lex_string_suffix [OF lex] by simp_all
  show l: "length b' = length b" and i': "i \<le> s'" and "take i b' = take i b"
    using len i by (auto simp: b'_def s'_def splice_def)
  have d: "drop i b' = ds @ (if cl then NUL # drop (i + length ds + 1) b else drop (i + length ds) b)"
    using i by (simp add: b'_def splice_def)
  have k: "length ds + (if cl then 1 else 0) \<le> s' - i"
    using len i by (auto simp: s'_def)
  have "drop s' b' = drop (s' - i) (drop i b')"
    using i' by simp
  also have "\<dots> = drop s' b"
  proof (cases cl)
    case True
    then have "s' = i + length ds + 1 + (s' - i - length ds - 1)"
      using k i' by simp
    then obtain m where m: "s' = i + length ds + 1 + m" ..
    show ?thesis
      using True by (simp add: d m add.commute)
  qed (use k i' in \<open>auto simp: d\<close>)
  also have "drop s' b = t"
    using drop_suffix [OF suf(1)] by (simp add: s'_def)
  finally show t: "drop s' b' = t" .
  show "string_at b' (Suc s') i (string_value (drop i b) ds cl)" if "s' < length b"
  proof (cases cl)
    case True
    have "drop i (take (Suc s') b') = take (Suc s' - i) (ds @ [NUL] @ drop (i + length ds + 1) b)"
      using True by (simp add: drop_take d)
    also have "\<dots> = ds @ [NUL] @ take (s' - i - length ds) (drop (i + length ds + 1) b)"
      using k i' True by (simp add: Suc_diff_le take_Cons' split: nat.split)
    finally show ?thesis
      using True c_str_NUL [of "ds @ [NUL]"] by (simp add: string_at_def string_value_def)
  next
    case False
    have "b' ! s' = NUL"
      using t suf(2) False by (cases t) (auto dest: drop_Cons_nth)
    then have "take (Suc s') b' = take s' b' @ [NUL]"
      using that l by (simp add: take_Suc_conv_app_nth)
    then have "drop i (take (Suc s') b') = drop i (take s' b') @ [NUL]"
      using i' that l by simp
    then have n: "NUL \<in> set (drop i (take (Suc s') b'))"
      by simp
    have "drop i b' = drop i (take (Suc s') b') @ drop (Suc s') b'"
      using i' that l by (metis append_take_drop_id drop_append length_take min.absorb2 Suc_leI le_Suc_eq diff_is_0_eq drop0)
    then have "c_str (drop i b') = c_str (drop i (take (Suc s') b'))"
      using c_str_NUL [OF n] by simp
    then show ?thesis
      using n False by (simp add: string_at_def string_value_def d add.commute)
  qed
qed

lemma string_matches:
  assumes en: "entry len st a"
  shows "matches len (case_string avail st) (a_string avail a)"
proof -
  let ?b = "j_mem st" and ?i = "j_s st"
  have a: "a_rest a = drop ?i ?b" "length ?b = len" "j_endptr st = len - length (a_end a)"
    using en by (simp_all add: entry_def alike_def rest_def)
  have u: "unquoted ?b ?i (lex_string (drop ?i ?b)) (unquote ?b ?i ?i)"
    by (simp add: unquote_lex)
  consider (ub) x where "lex_string (drop ?i ?b) = Inl x"
    | (bad) e where "lex_string (drop ?i ?b) = Inr (Inl e)"
    | (good) ds cl t where "lex_string (drop ?i ?b) = Inr (Inr (ds, cl, t))"
    by (metis sum.exhaust prod_cases3)
  then show ?thesis
  proof cases
    case ub
    then show ?thesis
      using u by (simp add: case_string_def a_string_def a unquoted_def)
  next
    case bad
    then obtain b' where "unquote ?b ?i ?i = Inr (b', Inl (len - length e))" "length b' = len"
      using u a by (auto simp: unquoted_def)
    then show ?thesis
      using bad by (simp add: case_string_def a_string_def a(1) fail_at_matches)
  next
    case good
    have s: "?i < len"
    proof -
      have "drop ?i ?b \<noteq> []"
        using good by (metis lex_string.simps(1) Inl_Inr_False)
      then show ?thesis
        using a(2) by simp
    qed
    define b' where "b' = splice ?b ?i ds cl"
    define s' where "s' = len - length t"
    have q: "unquote ?b ?i ?i = Inr (b', Inr s')"
      using u good a by (simp add: unquoted_def b'_def s'_def)
    note found = string_found [OF good, unfolded a(2), OF s, folded b'_def s'_def]
    have "matches len
        (bindO (read_char t) (\<lambda>x. if isdelim x then Inr (deliver avail (JString ?i) (st\<lparr>j_mem := b', j_s := s'\<rparr>))
           else fail_here JSON_BAD_STRING (st\<lparr>j_mem := b', j_s := s'\<rparr>)))
        (bindO (read_char t) (\<lambda>x. if isdelim x
           then Inr (a_deliver avail (Str (string_value (drop ?i ?b) ds cl)) (a\<lparr>a_rest := t\<rparr>))
           else a_fail_at JSON_BAD_STRING t a))"
    proof (intro matches_bind matches_if)
      fix x
      assume "read_char t = Inr x"
      then have s': "s' < len"
        using s by (cases t) (simp_all add: s'_def)
      have "prefix (take ?i ?b) (take (Suc s') b')"
        using found(2,4) take_prefix [of ?i "Suc s'" b'] by simp
      then have "alike len (Suc s') (length (j_heap st)) (st\<lparr>j_mem := b', j_s := s', j_endptr := j_endptr st\<rparr>) (a\<lparr>a_rest := t, a_end := a_end a\<rparr>)"
        using en found s' a(3) unfolding entry_def by (elim alike_mono) simp_all
      then have "progress len (deliver avail (JString ?i) (st\<lparr>j_mem := b', j_s := s'\<rparr>))
          (a_deliver avail (Str (string_value (drop ?i ?b) ds cl)) (a\<lparr>a_rest := t\<rparr>))"
        using found(5) s' by (intro deliver_refines [of len _ "length (j_heap st)"]) simp_all
      then show "matches len (Inr (deliver avail (JString ?i) (st\<lparr>j_mem := b', j_s := s'\<rparr>)))
          (Inr (a_deliver avail (Str (string_value (drop ?i ?b) ds cl)) (a\<lparr>a_rest := t\<rparr>)))"
        by simp
    qed (use found in \<open>simp add: fail_at_matches s'_def\<close>)
    then show ?thesis
      unfolding case_string_def a_string_def a(1) by (simp add: good q peek_read found(3) Let_def)
  qed
qed

lemma entry_loops:
  assumes "entry len st a"
  shows "loops len st a"
proof -
  have a: "a_rest a = drop (j_s st) (j_mem st)" "length (j_mem st) = len" "j_s st \<le> len" "j_endptr st = len - length (a_end a)"
    using assms by (simp_all add: entry_def alike_def rest_def)
  have "alike len (Suc (j_s st)) (length (j_heap st)) (st\<lparr>j_mem := j_mem st, j_s := j_s st, j_endptr := j_endptr st\<rparr>)
      (a\<lparr>a_rest := a_rest a, a_end := a_end a\<rparr>)"
    using assms a unfolding entry_def by (elim alike_mono) (simp_all add: take_prefix)
  then show ?thesis
    by (simp add: loops_def)
qed

lemma close_matches:
  assumes en: "entry len st a"
  shows "matches len (case_close_array avail st) (a_close avail False a)"
    "matches len (case_close_object avail st) (a_close avail True a)"
proof -
  have al: "alike len (Suc (j_s st)) (length (j_heap st)) st a"
    using entry_loops [OF en] by (simp add: loops_def)
  have stack: "stack_rep (j_mem st) (Suc (j_s st)) (j_heap st) (length (j_heap st)) (j_frames st) (a_stack a)"
    using al by (simp add: alike_def)
  have close: "matches len (close_list avail (if ob then JObject else JArray) f st) (Inr (a_deliver avail (Coll ob xs) (a\<lparr>a_stack := bs\<rparr>)))"
    if frames: "j_frames st = f # gs" "isize xs \<le> length (j_heap st)"
      "ring (j_mem st) (Suc (j_s st)) (j_heap st) (length (j_heap st) - isize xs) xs (f_tail f)"
      "stack_rep (j_mem st) (Suc (j_s st)) (j_heap st) (length (j_heap st) - isize xs) gs bs"
    for f gs ob xs bs
  proof -
    let ?lo = "length (j_heap st) - isize xs"
    obtain p h' where cl: "listToValue (if ob then JObject else JArray) (f_tail f) (j_heap st) = (p, h')"
      by (cases "listToValue (if ob then JObject else JArray) (f_tail f) (j_heap st)")
    have r: "length h' = length (j_heap st) \<and> json_rep (j_mem st) (Suc (j_s st)) h' ?lo (Coll ob xs) p \<and>
        (\<forall>j < ?lo. h' ! j = j_heap st ! j)"
      using frames by (intro ring_close [OF _ _ cl]) simp_all
    have "stack_rep (j_mem st) (Suc (j_s st)) h' ?lo gs bs"
      using stack_rep_heap [of ?lo h' "j_heap st"] r frames(4) by blast
    then have "progress len (deliver avail p (st\<lparr>j_heap := h', j_frames := gs\<rparr>)) (a_deliver avail (Coll ob xs) (a\<lparr>a_stack := bs\<rparr>))"
      using r al frames(2) by (intro deliver_refines [of len _ ?lo]) (auto simp: alike_def rest_def)
    then show ?thesis
      using frames(1) by (simp add: close_list_def cl)
  qed
  show "matches len (case_close_array avail st) (a_close avail False a)"
    using stack
  proof (cases rule: stack_rep_cases)
    case Nil
    then show ?thesis
      using fail_matches [OF en] by (simp add: case_close_array_def a_close_def)
  next
    case (Cons f gs ob k xs bs)
    then show ?thesis
      using fail_matches [OF en] close [of f gs xs bs False] by (auto simp: case_close_array_def a_close_def)
  qed
  show "matches len (case_close_object avail st) (a_close avail True a)"
    using stack
  proof (cases rule: stack_rep_cases)
    case Nil
    then show ?thesis
      using fail_matches [OF en] by (simp add: case_close_object_def a_close_def)
  next
    case (Cons f gs ob k xs bs)
    then show ?thesis
      using fail_matches [OF en] close [of f gs xs bs True]
      by (auto simp: case_close_object_def a_close_def key_at_None)
  qed
qed

lemma open_matches:
  assumes en: "entry len st a"
  shows "matches len (case_open (if ob then JSON_OBJECT else JSON_ARRAY) st) (a_open ob a)"
proof -
  have al: "alike len (Suc (j_s st)) (length (j_heap st)) st a"
    using entry_loops [OF en] by (simp add: loops_def)
  then have "length (j_frames st) = length (a_stack a)"
    by (auto simp: alike_def dest: stack_rep_length)
  then show ?thesis
    using fail_matches [OF en] al
    by (auto simp: case_open_def a_open_def loops_def alike_def rest_def key_at_None ring_def)
qed

lemma sep_matches:
  assumes en: "entry len st a"
  shows "matches len (case_separator w st) (a_sep w a)"
proof -
  have al: "alike len (Suc (j_s st)) (length (j_heap st)) st a"
    using entry_loops [OF en] by (simp add: loops_def)
  then have stack: "stack_rep (j_mem st) (Suc (j_s st)) (j_heap st) (length (j_heap st)) (j_frames st) (a_stack a)"
    and sep: "a_separator a = j_separator st"
    by (simp_all add: alike_def)
  have loop: "loops len (st\<lparr>j_separator := True\<rparr>) (a\<lparr>a_separator := True\<rparr>)"
    using al by (simp add: loops_def alike_def rest_def)
  from stack show ?thesis
  proof (cases rule: stack_rep_cases)
    case Nil
    then show ?thesis
      using fail_matches [OF en] sep by (simp add: case_separator_def a_sep_def)
  next
    case (Cons f gs ob k xs bs)
    then have "f_key f = None \<longleftrightarrow> k = None"
      by (auto simp: key_at_def split: option.splits)
    then show ?thesis
      using Cons fail_matches [OF en] sep loop by (auto simp: case_separator_def a_sep_def)
  qed
qed

lemma switch_matches:
  assumes en: "entry len st a"
  shows "matches len (switch F avail c st) (a_switch F avail c a)"
proof (cases "c = CHR ''-'' \<or> isdigit c")
  case True
  then show ?thesis
    using number_matches [OF en] by (simp add: switch_def a_switch_def)
next
  case False
  then show ?thesis
    using string_matches [OF en] word_matches [OF en, of Tru JTrue] word_matches [OF en, of Fls JFalse]
      word_matches [OF en, of Nul JNull] close_matches [OF en] open_matches [OF en, of False]
      open_matches [OF en, of True] sep_matches [OF en] fail_matches [OF en] entry_loops [OF en]
    unfolding switch_def a_switch_def by (simp add: matches_if)
qed

lemma round_matches:
  assumes "loops len st a"
  shows "matches len (parse_round F avail st) (a_round F avail a)"
proof -
  have a: "a_rest a = rest st" "length (j_mem st) = len" "j_s st \<le> len"
    using assms by (simp_all add: loops_def alike_def)
  show ?thesis
    unfolding parse_round_def a_round_def a(1)
  proof (intro matches_bind matches_if)
    show "matches len (fail JSON_BREAKING_BAD st) (a_fail JSON_BREAKING_BAD a)"
      using assms by (simp add: fail_def a_fail_def returns_def loops_def alike_def)
  next
    fix c t d
    assume c: "read_char (rest st) = Inr c" and t: "skip_space (rest st) = Inr t" "read_char t = Inr d"
    have suf: "suffix t (drop (j_s st) (j_mem st))"
      using skip_space_suffix [OF t(1)] by (simp add: rest_def)
    let ?e = "len - length t"
    have e: "j_s st \<le> ?e" "?e < len" "drop ?e (j_mem st) = t" "drop (?e + 1) (j_mem st) = tl t" "?e + 1 \<le> len"
      using suffix_length_le [OF suf] t(2) drop_suffix [OF suf] a by (cases t; auto dest: drop_Cons_nth)+
    have "alike len (?e + 1) (length (j_heap st)) (st\<lparr>j_mem := j_mem st, j_s := ?e + 1, j_endptr := ?e\<rparr>)
        (a\<lparr>a_rest := tl t, a_end := t\<rparr>)"
      using assms e a unfolding loops_def by (elim alike_mono) (simp_all add: take_prefix)
    then have "entry len (st\<lparr>j_endptr := ?e, j_s := ?e + 1\<rparr>) (a\<lparr>a_end := t, a_rest := tl t\<rparr>)"
      by (simp add: entry_def alike_def rest_def)
    then show "matches len
        (let e = length (j_mem st) - length t in switch F avail d (st\<lparr>j_endptr := e, j_s := e + 1\<rparr>))
        (a_switch F avail d (a\<lparr>a_end := t, a_rest := tl t\<rparr>))"
      unfolding Let_def a(2) by (rule switch_matches)
  qed
qed

lemma loop_matches:
  assumes "loops len st a"
  shows "case a_loop F avail a of
      Inl u \<Rightarrow> parse_loop F avail st = Inl u
    | Inr (e, v, t) \<Rightarrow> \<exists>p st' a'. parse_loop F avail st = Inr (e, p, st') \<and> returns len p st' v a' \<and> a_end a' = t"
  using assms
proof (induction F avail a arbitrary: st rule: a_loop.induct)
  case (1 F avail a)
  note m = round_matches [OF 1(2), of F avail]
  show ?case
  proof (cases "a_round F avail a")
    case (Inl u)
    then have "parse_round F avail st = Inl u"
      using m by (simp add: matches_def split: sum.splits)
    with Inl show ?thesis
      by (subst a_loop.simps, subst parse_loop.simps) simp
  next
    case (Inr q)
    then obtain r where r: "parse_round F avail st = Inr r" "progress len r q"
      using m by (auto simp: matches_def split: sum.splits)
    show ?thesis
    proof (cases q)
      case (ALoop a')
      then obtain st' where st': "r = Loop st'" "loops len st' a'"
        using r(2) by (auto simp: progress_def split: progress.splits)
      have "a_loop F avail a = a_loop F avail a'"
        by (subst a_loop.simps) (simp add: Inr ALoop)
      moreover have "parse_loop F avail st = parse_loop F avail st'"
        by (subst parse_loop.simps) (simp add: r(1) st'(1))
      ultimately show ?thesis
        using 1(1) [OF Inr ALoop st'(2)] by (simp only:)
    next
      case (AReturn e v a')
      then obtain p st' where "r = Return e p st'" "returns len p st' v a'"
        using r(2) by (auto simp: progress_def split: progress.splits)
      then show ?thesis
        using Inr r(1) AReturn by (subst a_loop.simps, subst parse_loop.simps) auto
    qed
  qed
qed

lemma parse_refines:
  "case parse_spec F avail s of
     Inl u \<Rightarrow> jsonParse F avail s = Inl u
   | Inr (e, v, t) \<Rightarrow> \<exists>p st. jsonParse F avail s = Inr (e, p, st) \<and> j_endptr st = length s - length t \<and>
       (case v of
          None \<Rightarrow> p = None
        | Some v \<Rightarrow> \<exists>q. p = Some q \<and> (\<forall>k > jdepth v. read_json k (j_mem st) (j_heap st) q = Some v))"
proof -
  let ?st = "\<lparr>j_mem = s, j_s = 0, j_endptr = 0, j_heap = [], j_frames = [], j_separator = True\<rparr>"
  have "loops (length s) ?st \<lparr>a_rest = s, a_end = s, a_count = 0, a_stack = [], a_separator = True\<rparr>"
    by (simp add: loops_def alike_def rest_def)
  note m = loop_matches [OF this, of F avail, folded parse_spec_def jsonParse_def]
  show ?thesis
  proof (cases "parse_spec F avail s")
    case (Inl u)
    then show ?thesis
      using m by simp
  next
    case (Inr r)
    then obtain e v t where r: "parse_spec F avail s = Inr (e, v, t)"
      by (cases r) auto
    then obtain p st a where "jsonParse F avail s = Inr (e, p, st)" and ret: "returns (length s) p st v a" "a_end a = t"
      using m by auto
    moreover have "case v of None \<Rightarrow> p = None
        | Some v \<Rightarrow> \<exists>q. p = Some q \<and> (\<forall>k > jdepth v. read_json k (j_mem st) (j_heap st) q = Some v)"
      using ret(1) read_rep(1) by (fastforce simp: returns_def split: option.splits)
    moreover have "j_endptr st = length s - length t"
      using ret by (simp add: returns_def)
    ultimately show ?thesis
      by (auto simp: r)
  qed
qed

text \<open>
  C27: \<open>jsonParse\<close> does to any memory, whether memory for nodes runs out or not, what the parser on
  trees does to its text: it reads outside exactly when that does, returns the same code and
  leaves \<open>*endptr\<close> at the same place, and the value it gives is read back through the iterators,
  from the rings and the strings decoded in place, as the same tree.
\<close>

theorem jsonParse_refines:
  "case parse_spec F avail s of
     Inl u \<Rightarrow> jsonParse F avail s = Inl u
   | Inr (e, v, t) \<Rightarrow> \<exists>p st. jsonParse F avail s = Inr (e, p, st) \<and> j_endptr st = length s - length t \<and>
       (case v of
          None \<Rightarrow> p = None
        | Some v \<Rightarrow> \<exists>q. p = Some q \<and> (\<forall>k > jdepth v. read_json k (j_mem st) (j_heap st) q = Some v))"
  by (rule parse_refines)

lemma jsonParse_refines_witness:
  "\<exists>q st. jsonParse exact (\<lambda>_. True) (''[true]'' @ [NUL]) = Inr (JSON_OK, Some q, st) \<and> j_endptr st = 6 \<and>
     read_json 2 (j_mem st) (j_heap st) q = Some (Coll False [(None, Tru)])"
proof -
  have "parse_spec exact (\<lambda>_. True) (''[true]'' @ [NUL]) = Inr (JSON_OK, Some (Coll False [(None, Tru)]), [NUL])"
    by (simp add: parse_spec_def run_spec)
  then obtain q st where "jsonParse exact (\<lambda>_. True) (''[true]'' @ [NUL]) = Inr (JSON_OK, Some q, st)" "j_endptr st = 6"
    "\<forall>k > 1. read_json k (j_mem st) (j_heap st) q = Some (Coll False [(None, Tru)])"
    using jsonParse_refines [of exact "\<lambda>_. True" "''[true]'' @ [NUL]"] by auto
  then show ?thesis
    by (intro exI [of _ q] exI [of _ st]) (simp del: read_json.simps)
qed

end
