(* ===== verification/Json_Safe.thy ===== *)
theory Json_Safe
  imports Json_Refine
begin

section \<open>Where the JSON parser reads\<close>

text \<open>
  \<open>jsonParse\<close> stays inside its text and returns, unless the text ends in white space; and what it
  accepts that is no JSON.
\<close>

subsection \<open>The readers stop at the zero\<close>

text \<open>What is left of text that ends with a zero, and \<open>r\<close> behind it.\<close>

definition inside :: "cstring \<Rightarrow> cstring \<Rightarrow> cstring \<Rightarrow> bool" where
  "inside r w t \<longleftrightarrow> (\<exists>w'. t = w' @ NUL # r \<and> suffix w' w)"

lemma insideI: "suffix w' w \<Longrightarrow> inside r w (w' @ NUL # r)"
  by (auto simp: inside_def)

lemma inside_trans: "inside r w t \<Longrightarrow> t = w' @ NUL # r \<Longrightarrow> inside r w' t' \<Longrightarrow> inside r w t'"
  by (auto simp: inside_def intro: suffix_order.trans)

lemma inside_Cons: "inside r w t \<Longrightarrow> inside r (c # w) t"
  by (auto simp: inside_def suffix_Cons)

definition stops :: "cstring \<Rightarrow> cstring \<Rightarrow> ('a \<times> cstring) outcome \<Rightarrow> bool" where
  "stops r w m \<longleftrightarrow> (\<exists>x t. m = Inr (x, t) \<and> inside r w t)"

lemma stops_Inr [simp]: "stops r w (Inr (x, t)) \<longleftrightarrow> inside r w t"
  by (simp add: stops_def)

lemma inside_refl [simp]: "inside r w (w @ NUL # r)" "inside r [] (NUL # r)" "inside r (c # w) (c # w @ NUL # r)"
  by (simp add: insideI, simp add: inside_def, simp add: inside_def suffix_def)

lemma stops_Cons: "stops r w m \<Longrightarrow> stops r (c # w) m"
  by (auto simp: stops_def inside_Cons)

lemma stops_bind:
  assumes "stops r w m" "\<And>x w'. suffix w' w \<Longrightarrow> stops r w' (k (x, w' @ NUL # r))"
  shows "stops r w (bindO m k)"
proof -
  obtain x w' where "m = Inr (x, w' @ NUL # r)" "suffix w' w"
    using assms(1) by (auto simp: stops_def inside_def)
  then show ?thesis
    using assms(2) [of w' x] by (auto simp: stops_def inside_def intro: suffix_order.trans)
qed

lemma integer_stops: "stops r w (integer_part F x (w @ NUL # r))"
  by (induction w arbitrary: x) (auto intro: stops_Cons)

lemma fraction_stops: "stops r w (fraction_part F y x (w @ NUL # r))"
  by (induction w arbitrary: y x) (auto intro: stops_Cons simp: Let_def)

lemma exponent_stops: "stops r w (exponent_part e (w @ NUL # r))"
  by (induction w arbitrary: e) (auto intro: stops_Cons)

lemma power_stops: "stops r w (bindO (exponent_part 0 (w @ NUL # r)) (\<lambda>(e, s). Inr (g e, s)))"
  by (rule stops_bind [OF exponent_stops]) simp

lemma exponent_of_stops: "stops r w (exponent_of F x (w @ NUL # r))"
proof (cases w)
  case Nil
  then show ?thesis
    using power_stops [of r "[]"] by (simp add: exponent_of_def)
next
  case (Cons c u)
  then show ?thesis
    using power_stops [of r u] power_stops [of r w] stops_Cons by (fastforce simp: exponent_of_def)
qed

lemma optional_stops:
  "stops r w (optional_fraction F x (w @ NUL # r))" "stops r w (optional_exponent F x (w @ NUL # r))"
proof -
  show "stops r w (optional_fraction F x (w @ NUL # r))"
  proof (cases w)
    case (Cons c u)
    then show ?thesis
      by (simp add: optional_fraction_def stops_Cons [OF fraction_stops])
  qed (simp add: optional_fraction_def)
  show "stops r w (optional_exponent F x (w @ NUL # r))"
  proof (cases w)
    case (Cons c u)
    then show ?thesis
      by (simp add: optional_exponent_def stops_Cons [OF exponent_of_stops])
  qed (simp add: optional_exponent_def)
qed

lemma number_stops: "stops r (c # w) (string2double F (c # w @ NUL # r))"
proof -
  have tail: "stops r w' (bindO (optional_fraction F x (w' @ NUL # r)) (\<lambda>(x, s).
      bindO (optional_exponent F x s) (\<lambda>(x, s). Inr (g x, s))))" for w' x g
    by (rule stops_bind [OF optional_stops(1)]) (simp, rule stops_bind [OF optional_stops(2)], simp)
  have tail': "stops r w' (bindO (optional_fraction F x (w' @ NUL # r)) (\<lambda>(x, s). bindO (optional_exponent F x s) Inr))" for w' x
    using tail [of w' x "\<lambda>x. x"] by simp
  show ?thesis
  proof (cases "c = CHR ''-''")
    case True
    have "stops r (c # w) (integer_part F (fp_nat F 0) (w @ NUL # r))"
      by (rule stops_Cons [OF integer_stops])
    then show ?thesis
      unfolding string2double_def using True by (simp, elim stops_bind) (simp add: tail)
  next
    case False
    have "stops r (c # w) (integer_part F (fp_nat F 0) ((c # w) @ NUL # r))"
      by (rule integer_stops)
    then show ?thesis
      unfolding string2double_def using False
      by (simp del: integer_part.simps, elim stops_bind) (simp add: tail')
  qed
qed

lemma skip_space_stops:
  "\<exists>w'. skip_space (w @ NUL # r) = Inr (w' @ NUL # r) \<and> suffix w' w \<and> (w \<noteq> [] \<and> \<not> isspace (last w) \<longrightarrow> w' \<noteq> [])"
proof (induction w)
  case Nil
  then show ?case
    by (auto simp: isspace_def schar_def)
next
  case (Cons c w)
  show ?case
  proof (cases "isspace c")
    case True
    show ?thesis
    proof (cases w)
      case Nil
      then show ?thesis
        using True by (auto intro!: exI [of _ "[]"])
    next
      case (Cons d v)
      show ?thesis
      proof (cases "d = NUL")
        case True
        then show ?thesis
          using \<open>isspace c\<close> Cons by (intro exI [of _ w]) (simp add: suffix_def)
      next
        case False
        then show ?thesis
          using Cons.IH \<open>isspace c\<close> Cons by (auto simp: suffix_Cons)
      qed
    qed
  next
    case False
    then show ?thesis
      by (intro exI [of _ "c # w"]) simp
  qed
qed

lemma spells_stops: "NUL \<notin> set ws \<Longrightarrow> \<exists>ok. spells ws (w @ NUL # r) = Inr ok"
proof (induction ws arbitrary: w)
  case Nil
  then show ?case
    by (cases w) simp_all
next
  case (Cons x ws)
  then show ?case
    by (cases w) auto
qed

lemma lex_hex_stops:
  "(\<exists>e. lex_hex n c (w @ NUL # r) = Inr (Inl e)) \<or> (\<exists>u w'. lex_hex n c (w @ NUL # r) = Inr (Inr (u, w' @ NUL # r)) \<and> suffix w' w)"
proof (induction n arbitrary: c w)
  case (Suc n)
  have no: "\<not> isxdigit NUL"
    by code_simp
  show ?case
  proof (cases w)
    case Nil
    then show ?thesis
      by (simp add: no)
  next
    case (Cons x v)
    then show ?thesis
      using Suc.IH [of "c * 16 + char2int x" v] by (auto simp: suffix_Cons)
  qed
qed auto

lemma lex_escape_stops:
  "(\<exists>e. lex_escape (w @ NUL # r) = Inr (Inl e)) \<or>
   (\<exists>u w'. lex_escape (w @ NUL # r) = Inr (Inr (u, w' @ NUL # r)) \<and> suffix w' w \<and> length w' < length w)"
proof (cases w)
  case Nil
  then show ?thesis
    by simp
next
  case (Cons x v)
  show ?thesis
  proof (cases "simple_escape x")
    case None
    have "length w' < length w" if "suffix w' v" for w'
      using suffix_length_le [OF that] Cons by simp
    then show ?thesis
      using None Cons lex_hex_stops [of 4 0 v r] by (auto simp: suffix_Cons simp del: simple_escape.simps)
  next
    case (Some y)
    then show ?thesis
      using Cons by (auto simp: suffix_Cons simp del: simple_escape.simps)
  qed
qed

lemma lex_string_stops:
  "(\<exists>e. lex_string (w @ NUL # r) = Inr (Inl e)) \<or>
   (\<exists>ds cl w'. lex_string (w @ NUL # r) = Inr (Inr (ds, cl, w' @ NUL # r)) \<and> suffix w' w)"
proof (induction "length w" arbitrary: w rule: less_induct)
  case less
  show ?case
  proof (cases w)
    case (Cons c v)
    consider "c = CHR 0x5C" | "c \<noteq> CHR 0x5C" "c = NUL \<or> (0 \<le> schar c \<and> schar c < 32) \<or> c = CHR 0x7F \<or> c = CHR 0x22"
      | "c \<noteq> CHR 0x5C" "\<not> (c = NUL \<or> (0 \<le> schar c \<and> schar c < 32) \<or> c = CHR 0x7F \<or> c = CHR 0x22)"
      by blast
    then show ?thesis
    proof cases
      case 1
      show ?thesis
        using lex_escape_stops [of v r]
      proof (elim disjE exE conjE)
        fix u w'
        assume e: "lex_escape (v @ NUL # r) = Inr (Inr (u, w' @ NUL # r))" "suffix w' v" "length w' < length v"
        have "length w' < length w"
          using e(3) Cons by simp
        note less(1) [OF this]
        moreover have "suffix w' w"
          using e(2) Cons by (simp add: suffix_Cons)
        ultimately show ?thesis
          using 1 Cons e(1) by (auto simp: decoded_def intro: suffix_order.trans)
      qed (simp add: 1 Cons)
    next
      case 2
      then show ?thesis
        using Cons by (auto simp: suffix_Cons)
    next
      case 3
      have "length v < length w"
        using Cons by simp
      note less(1) [OF this]
      then show ?thesis
        using 3 Cons by (auto simp: decoded_def suffix_Cons)
    qed
  qed auto
qed

subsection \<open>The loop stays inside\<close>

text \<open>What is left is an end of \<open>u\<close>; outside every list a separator is not read.\<close>

definition inv :: "cstring \<Rightarrow> cstring \<Rightarrow> 'd astate \<Rightarrow> bool" where
  "inv r u a \<longleftrightarrow> inside r u (a_rest a) \<and> (a_separator a \<or> a_stack a \<noteq> [])"

definition good :: "cstring \<Rightarrow> cstring \<Rightarrow> 'd aprogress outcome \<Rightarrow> bool" where
  "good r u m \<longleftrightarrow> (case m of Inl x \<Rightarrow> False | Inr (ALoop a) \<Rightarrow> inv r u a | Inr (AReturn e v a) \<Rightarrow> True)"

lemma good_simps [simp]: "good r u (Inr (ALoop a)) \<longleftrightarrow> inv r u a" "good r u (Inr (AReturn e v a))" "\<not> good r u (Inl x)"
  by (simp_all add: good_def)

lemma good_fail [simp]: "good r u (a_fail e a)" "good r u (a_fail_at e t a)"
  by (simp_all add: a_fail_def a_fail_at_def)

lemma good_deliver: "inside r u (a_rest a) \<Longrightarrow> good r u (Inr (a_deliver avail v a))"
  by (cases "a_stack a"; cases v) (auto simp: a_deliver_def Let_def inv_def split: prod.split)

lemma read_inside: "\<exists>c. read_char (w @ NUL # r) = Inr c"
  by (cases w) simp_all

lemma good_switch:
  assumes a: "a_rest a = w @ NUL # r" "suffix (x # w) u" "a_separator a \<or> a_stack a \<noteq> []"
  shows "good r u (a_switch F avail x a)"
proof -
  have w: "inside r u (w @ NUL # r)" and sub: "suffix w' w \<Longrightarrow> inside r u (w' @ NUL # r)" for w'
    using a(2) by (auto intro!: insideI dest: suffix_ConsD intro: suffix_order.trans)
  obtain c where c: "read_char (w @ NUL # r) = Inr c"
    using read_inside by blast
  have number: "good r u (a_number F avail x a)"
  proof -
    obtain d w' where d: "string2double F (x # w @ NUL # r) = Inr (d, w' @ NUL # r)" "suffix w' (x # w)"
      using number_stops [of r x w F] by (auto simp: stops_def inside_def)
    have "inside r u (w' @ NUL # r)"
      using d(2) a(2) by (meson insideI suffix_order.trans)
    moreover obtain c' where "read_char (w' @ NUL # r) = Inr c'"
      using read_inside by blast
    ultimately show ?thesis
      using c d(1) by (cases "x = CHR ''-''") (auto simp: a_number_def a(1) good_deliver)
  qed
  have string: "good r u (a_string avail a)"
    using lex_string_stops [of w r]
  proof (elim disjE exE conjE)
    fix ds cl w'
    assume "lex_string (w @ NUL # r) = Inr (Inr (ds, cl, w' @ NUL # r))" "suffix w' w"
    moreover obtain c' where "read_char (w' @ NUL # r) = Inr c'"
      using read_inside by blast
    ultimately show ?thesis
      using sub by (simp add: a_string_def a(1) good_deliver)
  qed (simp add: a_string_def a(1))
  have word: "good r u (a_word avail ws v a)" if ws: "NUL \<notin> set ws" for ws v
  proof -
    obtain ok where ok: "spells ws (w @ NUL # r) = Inr ok"
      using spells_stops [OF ws] by blast
    show ?thesis
    proof (cases ok)
      case True
      have "\<exists>w'. drop (length ws) (w @ NUL # r) = w' @ NUL # r \<and> suffix w' w"
        using ok True ws
      proof (induction ws arbitrary: w)
        case (Cons y ws)
        then obtain v where "w = y # v"
          by (cases w) (auto split: if_splits)
        then show ?case
          using Cons by (auto simp: suffix_Cons)
      qed auto
      then show ?thesis
        using ok True sub by (auto simp: a_word_def a(1) good_deliver)
    qed (use ok in \<open>simp add: a_word_def a(1)\<close>)
  qed
  have close: "good r u (a_close avail ob a)" for ob
    using w by (auto simp: a_close_def a(1) good_deliver split: list.split)
  have open_sep: "good r u (a_open ob a)" "good r u (a_sep k a)" for ob k
    using w a(3) by (auto simp: a_open_def a_sep_def inv_def a(1) split: list.split)
  show ?thesis
    unfolding a_switch_def using number string word [of "''rue''"] word [of "''alse''"] word [of "''ull''"] close open_sep w a
    by (simp add: inv_def)
qed

lemma good_round:
  assumes u: "NUL \<notin> set u" "u = [] \<or> \<not> isspace (last u)" and a: "inv r u a"
  shows "good r u (a_round F avail a)"
proof -
  obtain w where w: "a_rest a = w @ NUL # r" "suffix w u"
    using a by (auto simp: inv_def inside_def)
  show ?thesis
  proof (cases w)
    case Nil
    then show ?thesis
      by (simp add: a_round_def w(1))
  next
    case (Cons c v)
    have "\<not> isspace (last w)"
      using u(2) w(2) Cons by (auto simp: suffix_def)
    then obtain w' where w': "skip_space (w @ NUL # r) = Inr (w' @ NUL # r)" "suffix w' w" "w' \<noteq> []"
      using skip_space_stops [of w r] Cons by auto
    then obtain x y where x: "w' = x # y"
      by (cases w') auto
    have "c \<noteq> NUL"
      using u(1) w(2) Cons by (auto simp: suffix_def)
    moreover have "good r u (a_switch F avail x (a\<lparr>a_end := w' @ NUL # r, a_rest := y @ NUL # r\<rparr>))"
      using a w'(2) w(2) x by (intro good_switch [of _ y]) (auto simp: inv_def intro: suffix_order.trans)
    ultimately show ?thesis
      using w'(1) Cons x by (simp add: a_round_def w(1))
  qed
qed

lemma good_loop:
  assumes u: "NUL \<notin> set u" "u = [] \<or> \<not> isspace (last u)"
  shows "inv r u a \<Longrightarrow> \<exists>x. a_loop F avail a = Inr x"
proof (induction F avail a rule: a_loop.induct)
  case (1 F avail a)
  note g = good_round [OF u 1(2), of F avail]
  then obtain p where p: "a_round F avail a = Inr p"
    by (cases "a_round F avail a") auto
  show ?case
  proof (cases p)
    case (ALoop a')
    then have "\<exists>x. a_loop F avail a' = Inr x"
      using 1(1) [OF p ALoop] g p by simp
    then show ?thesis
      by (subst a_loop.simps) (simp add: p ALoop)
  next
    case (AReturn e v a')
    then show ?thesis
      by (subst a_loop.simps) (simp add: p)
  qed
qed

text \<open>
  C29: A zero-terminated text that does not end in white space is parsed without reading or writing
  outside of it, and without reading \<open>keys[-1]\<close>: \<open>jsonParse\<close> returns, whatever stands behind the zero.
\<close>

theorem jsonParse_stays_inside:
  assumes "NUL \<notin> set u" "u = [] \<or> \<not> isspace (last u)"
  shows "\<exists>e p st. jsonParse F avail (u @ NUL # r) = Inr (e, p, st)"
proof -
  let ?s = "u @ NUL # r"
  have "inv r u \<lparr>a_rest = ?s, a_end = ?s, a_count = 0, a_stack = [], a_separator = True\<rparr>"
    by (simp add: inv_def)
  then obtain x where "parse_spec F avail ?s = Inr x"
    using good_loop [OF assms] unfolding parse_spec_def by blast
  then show ?thesis
    using parse_refines [of F avail ?s] by (cases x) auto
qed

lemma jsonParse_stays_inside_witness:
  "\<exists>e p st. jsonParse exact (\<lambda>n. n < 1) (''[1,2'' @ NUL # ''x'') = Inr (e, p, st)"
  by (rule jsonParse_stays_inside) (simp_all add: isspace_def schar_def)

subsection \<open>What the parser makes of text that is no JSON\<close>

lemma reads_past_white_space:
  "jsonParse F avail (''[ '' @ [NUL]) = Inl (Undefined Out_Of_Range)"
  using parse_refines [of F avail "''[ '' @ [NUL]"] by (simp add: parse_spec_def run_spec)

lemma open_string_accepted:
  "parse_spec F avail (CHR 0x22 # ''abc'' @ [NUL]) = Inr (JSON_OK, Some (Str ''abc''), [NUL])"
  by (simp add: parse_spec_def run_spec string_value_def decoded_def c_str_def)

lemma missing_comma_accepted:
  "parse_spec exact (\<lambda>_. True) (''[true false,]'' @ [NUL]) =
     Inr (JSON_OK, Some (Coll False [(None, Tru), (None, Fls)]), [NUL])"
  by (simp add: parse_spec_def run_spec)

lemma missing_colon_accepted:
  "parse_spec exact (\<lambda>_. True) (CHR ''{'' # CHR 0x22 # CHR ''a'' # CHR 0x22 # '' true}'' @ [NUL]) =
     Inr (JSON_OK, Some (Coll True [(Some ''a'', Tru)]), [NUL])"
  by (simp add: parse_spec_def run_spec decoded_def string_value_def c_str_def)

lemma sign_and_point_accepted:
  "parse_spec exact (\<lambda>_. True) (''-.'' @ [NUL]) = Inr (JSON_OK, Some (Num 0), [NUL])"
  by (simp add: parse_spec_def run_spec string2double_def optional_fraction_def optional_exponent_def exact_simps)

lemma zero_escape_truncates:
  "parse_spec F avail (CHR 0x22 # CHR ''a'' # CHR 0x5C # ''u0000b'' @ [CHR 0x22, NUL]) =
     Inr (JSON_OK, Some (Str ''a''), [NUL])"
proof -
  have four: "(4 :: nat) = Suc (Suc (Suc (Suc 0)))"
    by simp
  have z: "isxdigit CHR ''0''" "char2int CHR ''0'' = 0" "utf8 0 = [NUL]"
    by code_simp+
  show ?thesis
    by (simp add: parse_spec_def run_spec decoded_def string_value_def c_str_def four z)
qed

end
