(* ===== verification/Json_Print.thy ===== *)
theory Json_Print
  imports Json_Refine
begin

section \<open>JSON text and its round trip\<close>

text \<open>
  The text of a tree whose numbers are literals, with the same white space \<open>sp\<close> before every token,
  and that \<open>jsonParse\<close> gives the tree back.
\<close>

subsection \<open>Text of a tree\<close>

definition hex_digit :: "nat \<Rightarrow> char" where
  "hex_digit d = ''0123456789abcdef'' ! d"

definition must_escape :: "char \<Rightarrow> bool" where
  "must_escape c \<longleftrightarrow> (0 \<le> schar c \<and> schar c < 32) \<or> c = CHR 0x7F"

definition quote_char :: "char \<Rightarrow> cstring" where
  "quote_char c =
     (if c = CHR 0x22 \<or> c = CHR 0x5C then [CHR 0x5C, c]
      else if must_escape c
      then [CHR 0x5C, CHR ''u'', CHR ''0'', CHR ''0'', hex_digit (of_char c div 16), hex_digit (of_char c mod 16)]
      else [c])"

definition string_text :: "cstring \<Rightarrow> cstring" where
  "string_text t = CHR 0x22 # concat (map quote_char t) @ [CHR 0x22]"

definition key_text :: "cstring \<Rightarrow> cstring option \<Rightarrow> cstring" where
  "key_text sp k = (case k of None \<Rightarrow> [] | Some t \<Rightarrow> sp @ string_text t @ sp @ '':'')"

fun json_text :: "cstring \<Rightarrow> number json \<Rightarrow> cstring"
  and items_text :: "cstring \<Rightarrow> (cstring option \<times> number json) list \<Rightarrow> cstring" where
  "json_text sp (Num n) = sp @ number_text n"
| "json_text sp (Str t) = sp @ string_text t"
| "json_text sp (Coll ob xs) = sp @ (if ob then ''{'' else ''['') @ items_text sp xs @ sp @ (if ob then ''}'' else '']'')"
| "json_text sp Tru = sp @ ''true''"
| "json_text sp Fls = sp @ ''false''"
| "json_text sp Nul = sp @ ''null''"
| "items_text sp [] = []"
| "items_text sp ((k, v) # xs) = key_text sp k @ json_text sp v @ (if xs = [] then [] else sp @ '','' @ items_text sp xs)"

text \<open>Numbers have a digit before the point; strings have no zero; members of objects have keys.\<close>

fun printable :: "number json \<Rightarrow> bool" and items_printable :: "bool \<Rightarrow> (cstring option \<times> number json) list \<Rightarrow> bool" where
  "printable (Num n) \<longleftrightarrow> number_ok n \<and> num_int n \<noteq> []"
| "printable (Str t) \<longleftrightarrow> NUL \<notin> set t"
| "printable (Coll ob xs) \<longleftrightarrow> items_printable ob xs"
| "printable Tru \<longleftrightarrow> True"
| "printable Fls \<longleftrightarrow> True"
| "printable Nul \<longleftrightarrow> True"
| "items_printable ob [] \<longleftrightarrow> True"
| "items_printable ob ((k, v) # xs) \<longleftrightarrow>
     (case k of None \<Rightarrow> \<not> ob | Some t \<Rightarrow> ob \<and> NUL \<notin> set t) \<and> printable v \<and> items_printable ob xs"

text \<open>The tree with the numbers the literals stand for.\<close>

definition denote :: "'d fp \<Rightarrow> number json \<Rightarrow> 'd json" where
  "denote F = map_json (number_double F)"

subsection \<open>Tokens\<close>

lemma hex_digit_ok: "d < 16 \<Longrightarrow> isxdigit (hex_digit d) \<and> char2int (hex_digit d) = int d"
proof -
  have "\<forall>d \<in> set [0..<16]. isxdigit (hex_digit d) \<and> char2int (hex_digit d) = int d"
    by code_simp
  then show "d < 16 \<Longrightarrow> ?thesis"
    by simp
qed

lemma must_escape_small: "must_escape c \<Longrightarrow> of_char c < (128 :: nat)"
proof -
  define n :: nat where "n = of_char c"
  have "n < 256"
    by (simp add: n_def)
  then show "must_escape c \<Longrightarrow> ?thesis"
    by (auto simp: must_escape_def schar_def Let_def split: if_splits simp flip: n_def) (simp add: n_def)
qed

lemma isspace_NUL: "isspace c \<Longrightarrow> c \<noteq> NUL"
  by (auto simp: isspace_def schar_def)

lemma lex_unicode:
  assumes "must_escape c"
  shows "lex_escape (CHR ''u'' # CHR ''0'' # CHR ''0'' # hex_digit (of_char c div 16) # hex_digit (of_char c mod 16) # s) =
    Inr (Inr ([c], s))"
proof -
  define n :: nat where "n = of_char c"
  have n: "n < 128"
    using must_escape_small [OF assms] by (simp add: n_def)
  have d: "isxdigit (hex_digit (n div 16))" "isxdigit (hex_digit (n mod 16))"
    "char2int (hex_digit (n div 16)) = int (n div 16)" "char2int (hex_digit (n mod 16)) = int (n mod 16)"
    using hex_digit_ok [of "n div 16"] hex_digit_ok [of "n mod 16"] n by simp_all
  have z: "isxdigit CHR ''0''" "char2int CHR ''0'' = 0"
    by code_simp+
  have four: "(4 :: nat) = Suc (Suc (Suc (Suc 0)))"
    by simp
  have "int (n div 16) * 16 + int (n mod 16) = int n"
    by (metis div_mult_mod_eq of_nat_add of_nat_mult of_nat_numeral)
  then have "lex_hex 4 0 (CHR ''0'' # CHR ''0'' # hex_digit (n div 16) # hex_digit (n mod 16) # s) = Inr (Inr (int n, s))"
    unfolding four by (simp add: z d)
  moreover have "utf8 (int n) = [c]"
    using n by (simp add: utf8_def to_char_def n_def)
  ultimately show ?thesis
    by (simp flip: n_def)
qed

lemma lex_quoted: "lex_string (concat (map quote_char t) @ CHR 0x22 # r) = Inr (Inr (t, True, r))"
proof (induction t)
  case Nil
  show ?case
    by (simp add: schar_def)
next
  case (Cons c t)
  let ?r = "concat (map quote_char t) @ CHR 0x22 # r"
  consider "c = CHR 0x22 \<or> c = CHR 0x5C" | "c \<noteq> CHR 0x22" "c \<noteq> CHR 0x5C" "must_escape c"
    | "c \<noteq> CHR 0x22" "c \<noteq> CHR 0x5C" "\<not> must_escape c" by blast
  then show ?case
  proof cases
    case 1
    then show ?thesis
      using Cons by (auto simp: quote_char_def decoded_def)
  next
    case 2
    then show ?thesis
      using Cons lex_unicode [OF 2(3), of ?r]
      by (simp add: quote_char_def [of c] decoded_def del: lex_escape.simps)
  next
    case 3
    then have "c \<noteq> NUL"
      by (auto simp: must_escape_def schar_def)
    moreover have "quote_char c = [c]"
      using 3 by (simp add: quote_char_def)
    moreover have "\<not> ((0 \<le> schar c \<and> schar c < 32) \<or> c = CHR 0x7F)"
      using 3 by (simp add: must_escape_def)
    ultimately show ?thesis
      using 3 Cons by (auto simp: decoded_def)
  qed
qed

lemma skip_space_token:
  "list_all isspace sp \<Longrightarrow> \<not> isspace x \<Longrightarrow> x \<noteq> NUL \<Longrightarrow> skip_space (sp @ x # u) = Inr (x # u)"
proof (induction sp)
  case (Cons c sp)
  have "\<not> isspace NUL"
    by (simp add: isspace_def schar_def)
  then show ?case
    using Cons by (cases sp) (auto simp: list_all_iff)
qed simp

definition finish :: "'d fp \<Rightarrow> 'd aprogress \<Rightarrow> (JsonErrno \<times> 'd json option \<times> cstring) outcome" where
  "finish F p = (case p of ALoop a \<Rightarrow> a_loop F (\<lambda>_. True) a | AReturn e v a \<Rightarrow> Inr (e, v, a_end a))"

lemma finish_ALoop [simp]: "finish F (ALoop a) = a_loop F (\<lambda>_. True) a"
  by (simp add: finish_def)

lemma a_loop_token:
  assumes sp: "list_all isspace sp" and x: "\<not> isspace x" "x \<noteq> NUL" and a: "a_rest a = sp @ x # u"
  shows "a_loop F (\<lambda>_. True) a =
    bindO (a_switch F (\<lambda>_. True) x (a\<lparr>a_end := x # u, a_rest := u\<rparr>)) (finish F)"
proof -
  obtain c t where c: "a_rest a = c # t" "c \<noteq> NUL"
    using sp x by (cases sp) (auto simp: a dest: isspace_NUL)
  have sk: "skip_space (a_rest a) = Inr (x # u)" and rd: "read_char (a_rest a) = Inr c"
    using skip_space_token [OF sp x, of u] c(1) by (simp only: a, simp)
  show ?thesis
    by (subst a_loop.simps) (simp add: a_round_def sk rd c(2) finish_def [abs_def])
qed

lemma letters:
  "x \<in> {CHR ''t'', CHR ''f'', CHR ''n''} \<Longrightarrow> \<not> isspace x \<and> \<not> isdigit x"
  by (auto simp: isspace_def isdigit_def schar_def)

text \<open>\<open>gets F a v s\<close>: from \<open>a\<close> the value \<open>v\<close> is delivered, with \<open>s\<close> left of the text.\<close>

definition gets :: "'d fp \<Rightarrow> 'd astate \<Rightarrow> 'd json \<Rightarrow> cstring \<Rightarrow> bool" where
  "gets F a v s \<longleftrightarrow> (\<exists>a'. a_rest a' = s \<and> a_stack a' = a_stack a \<and>
     a_loop F (\<lambda>_. True) a = finish F (a_deliver (\<lambda>_. True) v a'))"

lemma getsI:
  "a_loop F (\<lambda>_. True) a = finish F (a_deliver (\<lambda>_. True) v a') \<Longrightarrow> a_rest a' = s \<Longrightarrow> a_stack a' = a_stack a \<Longrightarrow>
     gets F a v s"
  unfolding gets_def by blast

lemma delim_tokens: "isdelim CHR '':''" "isdelim CHR '',''" "isdelim CHR '']''" "isdelim CHR ''}''"
  by (simp_all add: isdelim_def)

lemma gets_string:
  assumes sp: "list_all isspace sp" and t: "NUL \<notin> set t" and c: "isdelim c"
    and a: "a_rest a = sp @ string_text t @ c # r"
  shows "gets F a (Str t) (c # r)"
proof -
  let ?u = "concat (map quote_char t) @ CHR 0x22 # c # r"
  have q: "a_rest a = sp @ CHR 0x22 # ?u"
    by (simp add: a string_text_def)
  have "a_loop F (\<lambda>_. True) a = bindO (a_switch F (\<lambda>_. True) CHR 0x22 (a\<lparr>a_end := CHR 0x22 # ?u, a_rest := ?u\<rparr>)) (finish F)"
    by (rule a_loop_token [OF sp _ _ q]) (simp_all add: isspace_def schar_def)
  also have "\<dots> = finish F (a_deliver (\<lambda>_. True) (Str t) (a\<lparr>a_end := CHR 0x22 # ?u, a_rest := c # r\<rparr>))"
    using t c lex_quoted [of t "c # r"] c_str_NUL [of "t @ [NUL]" "[]"]
    by (simp add: a_switch_def a_string_def isdigit_def schar_def string_value_def c_str_def takeWhile_append)
  finally show ?thesis
    by (rule getsI) simp_all
qed

lemma number_text_first:
  assumes "number_ok n" "num_int n \<noteq> []"
  obtains x u where "number_text n = x # u" "x = CHR ''-'' \<or> isdigit x" "x = CHR ''-'' \<Longrightarrow> \<exists>d w. u = d # w \<and> isdigit d"
proof (cases "num_int n")
  case (Cons d ds)
  then have d: "isdigit d" "d \<noteq> CHR ''-''"
    using assms(1) isdigit_special [of d] by (auto simp: number_ok_def)
  show thesis
  proof (cases "num_neg n")
    case True
    then show thesis
      using d Cons by (intro that [of "CHR ''-''"]) (auto simp: number_text_def)
  next
    case False
    then show thesis
      using d Cons by (intro that [of d]) (simp_all add: number_text_def)
  qed
qed (use assms(2) in simp)

lemma gets_number:
  assumes sp: "list_all isspace sp" and n: "number_ok n" "num_int n \<noteq> []" and c: "isdelim c"
    and a: "a_rest a = sp @ number_text n @ c # r"
  shows "gets F a (Num (number_double F n)) (c # r)"
proof -
  obtain x u where x: "number_text n = x # u" "x = CHR ''-'' \<or> isdigit x" "x = CHR ''-'' \<Longrightarrow> \<exists>d w. u = d # w \<and> isdigit d"
    using n by (rule number_text_first) blast
  let ?u = "u @ c # r"
  have q: "a_rest a = sp @ x # ?u"
    by (simp add: a x(1))
  have "\<not> isspace x" "x \<noteq> NUL"
    using x(2) by (auto simp: isspace_def isdigit_def schar_def)
  then have "a_loop F (\<lambda>_. True) a = bindO (a_switch F (\<lambda>_. True) x (a\<lparr>a_end := x # ?u, a_rest := ?u\<rparr>)) (finish F)"
    by (rule a_loop_token [OF sp _ _ q])
  also have "\<dots> = finish F (a_deliver (\<lambda>_. True) (Num (number_double F n)) (a\<lparr>a_end := x # ?u, a_rest := c # r\<rparr>))"
    using x(2,3) c string2double_fold [OF n(1) c, of F r] unfolding x(1)
    by (auto simp: a_switch_def a_number_def)
  finally show ?thesis
    by (rule getsI) simp_all
qed

lemma spells_word: "isdelim c \<Longrightarrow> spells w (w @ c # r) = Inr True"
  by (induction w) simp_all

lemma gets_word:
  assumes sp: "list_all isspace sp" and c: "isdelim c" and a: "a_rest a = sp @ x # w @ c # r"
    and x: "\<not> isspace x" "x \<noteq> NUL" "\<And>b. a_switch F (\<lambda>_. True) x b = a_word (\<lambda>_. True) w v b"
  shows "gets F a v (c # r)"
proof -
  have "a_loop F (\<lambda>_. True) a = bindO (a_switch F (\<lambda>_. True) x (a\<lparr>a_end := x # w @ c # r, a_rest := w @ c # r\<rparr>)) (finish F)"
    by (rule a_loop_token [OF sp x(1,2) a])
  also have "\<dots> = finish F (a_deliver (\<lambda>_. True) v (a\<lparr>a_end := x # w @ c # r, a_rest := c # r\<rparr>))"
    by (simp add: x(3) a_word_def spells_word [OF c])
  finally show ?thesis
    by (rule getsI) simp_all
qed

subsection \<open>Lists\<close>

definition goes :: "'d fp \<Rightarrow> 'd astate \<Rightarrow> cstring \<Rightarrow> (bool \<times> cstring option \<times> (cstring option \<times> 'd json) list) list \<Rightarrow> bool \<Rightarrow> bool" where
  "goes F a s st sep \<longleftrightarrow> (\<exists>a'. a_rest a' = s \<and> a_stack a' = st \<and> a_separator a' = sep \<and>
     a_loop F (\<lambda>_. True) a = a_loop F (\<lambda>_. True) a')"

lemma goesI:
  "a_loop F (\<lambda>_. True) a = a_loop F (\<lambda>_. True) a' \<Longrightarrow> a_rest a' = s \<Longrightarrow> a_stack a' = st \<Longrightarrow> a_separator a' = sep \<Longrightarrow>
     goes F a s st sep"
  unfolding goes_def by blast

lemma goesE:
  assumes "goes F a s st sep"
  obtains a' where "a_loop F (\<lambda>_. True) a = a_loop F (\<lambda>_. True) a'" "a_rest a' = s" "a_stack a' = st" "a_separator a' = sep"
  using assms unfolding goes_def by blast

lemma goes_trans:
  assumes "goes F a s st sep"
    "\<And>a'. a_rest a' = s \<Longrightarrow> a_stack a' = st \<Longrightarrow> a_separator a' = sep \<Longrightarrow> goes F a' s2 st2 sep2"
  shows "goes F a s2 st2 sep2"
  using assms unfolding goes_def by metis

lemma gets_trans:
  assumes "goes F a s st sep"
    "\<And>a'. a_rest a' = s \<Longrightarrow> a_stack a' = st \<Longrightarrow> a_separator a' = sep \<Longrightarrow>
       \<exists>b. a_rest b = s2 \<and> a_stack b = st2 \<and> a_loop F (\<lambda>_. True) a' = finish F (a_deliver (\<lambda>_. True) v b)"
    "a_stack a = st2"
  shows "gets F a v s2"
  using assms unfolding goes_def gets_def by metis

lemma punctuation:
  "x \<in> {CHR ''['', CHR '']'', CHR ''{'', CHR ''}'', CHR '','', CHR '':''} \<Longrightarrow> \<not> isspace x \<and> x \<noteq> NUL \<and> \<not> isdigit x"
  by (auto simp: isspace_def isdigit_def schar_def)

lemma goes_open:
  assumes sp: "list_all isspace sp" and a: "a_rest a = sp @ (if ob then CHR ''{'' else CHR ''['') # u" "length (a_stack a) < 32"
  shows "goes F a u ((ob, None, []) # a_stack a) True"
proof -
  let ?x = "if ob then CHR ''{'' else CHR ''[''"
  let ?b = "a\<lparr>a_end := ?x # u, a_rest := u\<rparr>"
  have "a_loop F (\<lambda>_. True) a = bindO (a_switch F (\<lambda>_. True) ?x ?b) (finish F)"
    using punctuation by (intro a_loop_token [OF sp _ _ a(1)]) auto
  also have "\<dots> = a_loop F (\<lambda>_. True) (?b\<lparr>a_stack := (ob, None, []) # a_stack a, a_separator := True\<rparr>)"
    using a(2) punctuation [of ?x] by (cases ob) (simp_all add: a_switch_def a_open_def JSON_STACK_SIZE_def)
  finally show ?thesis
    by (rule goesI) simp_all
qed

lemma goes_sep:
  assumes sp: "list_all isspace sp" and a: "a_rest a = sp @ (if k = None then CHR '','' else CHR '':'') # u"
    "a_stack a = (ob, k, xs) # fs" "\<not> a_separator a"
  shows "goes F a u ((ob, k, xs) # fs) True"
proof -
  let ?x = "if k = None then CHR '','' else CHR '':''"
  let ?b = "a\<lparr>a_end := ?x # u, a_rest := u\<rparr>"
  have "a_loop F (\<lambda>_. True) a = bindO (a_switch F (\<lambda>_. True) ?x ?b) (finish F)"
    using punctuation by (intro a_loop_token [OF sp _ _ a(1)]) auto
  also have "\<dots> = a_loop F (\<lambda>_. True) (?b\<lparr>a_separator := True\<rparr>)"
    using a(2,3) punctuation [of ?x] by (cases k) (simp_all add: a_switch_def a_sep_def)
  finally show ?thesis
    by (rule goesI) (simp_all add: a)
qed

lemma gets_close:
  assumes sp: "list_all isspace sp" and a: "a_rest a = sp @ (if ob then CHR ''}'' else CHR '']'') # u"
    "a_stack a = (ob, None, xs) # fs"
  shows "\<exists>b. a_rest b = u \<and> a_stack b = fs \<and> a_loop F (\<lambda>_. True) a = finish F (a_deliver (\<lambda>_. True) (Coll ob xs) b)"
proof -
  let ?x = "if ob then CHR ''}'' else CHR '']''"
  let ?b = "a\<lparr>a_end := ?x # u, a_rest := u\<rparr>"
  have "a_loop F (\<lambda>_. True) a = bindO (a_switch F (\<lambda>_. True) ?x ?b) (finish F)"
    using punctuation by (intro a_loop_token [OF sp _ _ a(1)]) auto
  also have "\<dots> = finish F (a_deliver (\<lambda>_. True) (Coll ob xs) (?b\<lparr>a_stack := fs\<rparr>))"
    using a(2) punctuation [of ?x] by (cases ob) (simp_all add: a_switch_def a_close_def)
  finally show ?thesis
    by (intro exI [of _ "?b\<lparr>a_stack := fs\<rparr>"]) simp
qed

text \<open>A value delivered inside a list is a key or the value of a new item.\<close>

lemma goes_key:
  assumes "gets F a (Str t) s" "a_stack a = (True, None, xs) # fs"
  shows "goes F a s ((True, Some t, xs) # fs) False"
  using assms unfolding gets_def by (auto simp: a_deliver_def Let_def intro: goesI)

lemma goes_item:
  assumes "gets F a v s" "a_stack a = (ob, k, xs) # fs" "ob \<longleftrightarrow> k \<noteq> None"
  shows "goes F a s ((ob, None, xs @ [(k, v)]) # fs) False"
  using assms unfolding gets_def by (auto simp: a_deliver_def Let_def intro: goesI)

subsection \<open>The round trip\<close>

definition delimited :: "cstring \<Rightarrow> bool" where
  "delimited s \<longleftrightarrow> s \<noteq> [] \<and> isdelim (hd s)"

lemma delimitedE:
  assumes "delimited s"
  obtains c r where "s = c # r" "isdelim c"
  using assms by (cases s) (auto simp: delimited_def)

lemma delimited_space: "list_all isspace sp \<Longrightarrow> isdelim x \<Longrightarrow> delimited (sp @ x # u)"
  by (cases sp) (auto simp: delimited_def isdelim_def)

abbreviation denote_items :: "'d fp \<Rightarrow> (cstring option \<times> number json) list \<Rightarrow> (cstring option \<times> 'd json) list" where
  "denote_items F xs \<equiv> map (\<lambda>(k, v). (k, denote F v)) xs"

lemma denote_simps [simp]:
  "denote F (Num n) = Num (number_double F n)" "denote F (Str t) = Str t" "denote F Tru = Tru" "denote F Fls = Fls"
  "denote F Nul = Nul" "denote F (Coll ob xs) = Coll ob (denote_items F xs)"
  by (auto simp: denote_def)

lemma jdepth_denote: "jdepth (denote F v) = jdepth v" "idepth (denote_items F xs) = idepth xs"
  by (induction v and xs rule: jdepth_idepth.induct) auto

lemma gets_text:
  fixes F :: "'d fp"
  shows "list_all isspace sp \<Longrightarrow> printable v \<Longrightarrow> delimited s \<Longrightarrow> length (a_stack a) + jdepth v \<le> 32 \<Longrightarrow>
     a_rest a = json_text sp v @ s \<Longrightarrow> gets F a (denote F v) s"
  "list_all isspace sp \<Longrightarrow> items_printable ob xs \<Longrightarrow> xs \<noteq> [] \<Longrightarrow> delimited s \<Longrightarrow> a_stack a = (ob, None, ys) # fs \<Longrightarrow>
     length (a_stack a) + idepth xs \<le> 32 \<Longrightarrow> a_rest a = items_text sp xs @ s \<Longrightarrow>
     goes F a s ((ob, None, ys @ denote_items F xs) # fs) False"
proof (induction sp v and sp xs arbitrary: s a and s a ob ys fs rule: json_text_items_text.induct)
  case (1 sp n)
  from 1(3) obtain c r where s: "s = c # r" "isdelim c"
    by (rule delimitedE)
  then show ?case
    using 1 gets_number [of sp n c a r F] by simp
next
  case (2 sp t)
  from 2(3) obtain c r where s: "s = c # r" "isdelim c"
    by (rule delimitedE)
  then show ?case
    using 2 gets_string [of sp t c a r F] by simp
next
  case (3 sp ob xs)
  let ?c = "if ob then CHR ''}'' else CHR '']''"
  let ?after_items = "sp @ ?c # s"
  have en: "delimited ?after_items"
    using 3(2) by (intro delimited_space) (simp_all add: delim_tokens)
  have "goes F a (items_text sp xs @ ?after_items) ((ob, None, []) # a_stack a) True"
    using 3(2,5,6) by (intro goes_open [of sp]) (auto split: if_splits)
  then show ?case
  proof (rule gets_trans [where ?st2.0 = "a_stack a"])
    fix a' :: "'d astate"
    assume a': "a_rest a' = items_text sp xs @ ?after_items" "a_stack a' = (ob, None, []) # a_stack a" "a_separator a' = True"
    show "\<exists>b. a_rest b = s \<and> a_stack b = a_stack a \<and>
        a_loop F (\<lambda>_. True) a' = finish F (a_deliver (\<lambda>_. True) (denote F (Coll ob xs)) b)"
    proof (cases "xs = []")
      case True
      then show ?thesis
        using a' 3(2) gets_close [of sp a' ob s "[]" "a_stack a" F] by simp
    next
      case False
      have "goes F a' ?after_items ((ob, None, [] @ denote_items F xs) # a_stack a) False"
        using 3 a' en False by (intro 3(1)) simp_all
      then obtain b where b: "a_loop F (\<lambda>_. True) a' = a_loop F (\<lambda>_. True) b" "a_rest b = ?after_items"
        "a_stack b = (ob, None, denote_items F xs) # a_stack a"
        by (rule goesE) simp
      show ?thesis
        unfolding b(1) using gets_close [OF 3(2) b(2,3)] by simp
    qed
  qed simp
next
  case (4 sp)
  from 4(3) obtain c r where s: "s = c # r" "isdelim c"
    by (rule delimitedE)
  then show ?case
    using 4 gets_word [of sp c a "CHR ''t''" "''rue''" r F Tru]
    by (simp add: a_switch_def letters)
next
  case (5 sp)
  from 5(3) obtain c r where s: "s = c # r" "isdelim c"
    by (rule delimitedE)
  then show ?case
    using 5 gets_word [of sp c a "CHR ''f''" "''alse''" r F Fls]
    by (simp add: a_switch_def letters)
next
  case (6 sp)
  from 6(3) obtain c r where s: "s = c # r" "isdelim c"
    by (rule delimitedE)
  then show ?case
    using 6 gets_word [of sp c a "CHR ''n''" "''ull''" r F Nul]
    by (simp add: a_switch_def letters)
next
  case (7 sp)
  then show ?case
    by simp
next
  case (8 sp k v xs)
  let ?tail = "(if xs = [] then [] else sp @ '','' @ items_text sp xs) @ s"
  have tail: "delimited ?tail"
    using 8(3,6) delimited_space [of sp "CHR '',''" "items_text sp xs @ s"] by (simp add: delim_tokens)
  have ob: "ob \<longleftrightarrow> k \<noteq> None" "\<And>t. k = Some t \<Longrightarrow> NUL \<notin> set t" and v: "printable v" "items_printable ob xs"
    using 8(4) by (auto split: option.splits)
  have deep: "Suc (length fs) + idepth xs \<le> 32"
    using 8(7,8) by simp
  have item: "goes F b ?tail ((ob, None, ys @ [(k, denote F v)]) # fs) False"
    if b: "a_rest b = json_text sp v @ ?tail" "a_stack b = (ob, k, ys) # fs" for b :: "'d astate"
  proof (rule goes_item [OF _ b(2) ob(1)])
    show "gets F b (denote F v) ?tail"
      using 8(3,7,8) b tail v by (intro 8(1)) simp_all
  qed
  have first: "goes F a ?tail ((ob, None, ys @ [(k, denote F v)]) # fs) False"
  proof (cases k)
    case None
    then show ?thesis
      using 8(7,9) by (intro item) (simp_all add: key_text_def)
  next
    case (Some t)
    let ?after = "json_text sp v @ ?tail"
    have "delimited (sp @ CHR '':'' # ?after)"
      using 8(3) by (intro delimited_space) (simp_all add: delim_tokens)
    then obtain c r where c: "sp @ CHR '':'' # ?after = c # r" "isdelim c"
      by (rule delimitedE)
    have "a_rest a = sp @ string_text t @ c # r"
      using 8(9) Some by (simp add: key_text_def flip: c(1))
    then have "gets F a (Str t) (sp @ CHR '':'' # ?after)"
      unfolding c(1) using 8(3) ob(2) [OF Some] c(2) by (intro gets_string)
    then have "goes F a (sp @ CHR '':'' # ?after) ((True, Some t, ys) # fs) False"
      using 8(7) ob(1) Some by (intro goes_key) simp_all
    then show ?thesis
    proof (rule goes_trans)
      fix b :: "'d astate"
      assume b: "a_rest b = sp @ CHR '':'' # ?after" "a_stack b = (True, Some t, ys) # fs" "a_separator b = False"
      have "goes F b ?after ((True, Some t, ys) # fs) True"
        using b 8(3) by (intro goes_sep [of sp]) simp_all
      then show "goes F b ?tail ((ob, None, ys @ [(k, denote F v)]) # fs) False"
        by (rule goes_trans) (use item ob(1) Some in simp)
    qed
  qed
  show ?case
  proof (cases "xs = []")
    case True
    then show ?thesis
      using first by simp
  next
    case False
    show ?thesis
      using first
    proof (rule goes_trans)
      fix b :: "'d astate"
      assume b: "a_rest b = ?tail" "a_stack b = (ob, None, ys @ [(k, denote F v)]) # fs" "a_separator b = False"
      have "goes F b (items_text sp xs @ s) ((ob, None, ys @ [(k, denote F v)]) # fs) True"
        using b 8(3) False by (intro goes_sep [of sp]) simp_all
      then show "goes F b s ((ob, None, ys @ denote_items F ((k, v) # xs)) # fs) False"
      proof (rule goes_trans)
        fix b' :: "'d astate"
        assume "a_rest b' = items_text sp xs @ s" "a_stack b' = (ob, None, ys @ [(k, denote F v)]) # fs"
        then show "goes F b' s ((ob, None, ys @ denote_items F ((k, v) # xs)) # fs) False"
          using 8(2) [of ob s b' "ys @ [(k, denote F v)]" fs] 8(3,6) deep v False by simp
      qed
    qed
  qed
qed

text \<open>
  C28: A printed tree, with any white space before its tokens and nested up to 32 deep, is parsed
  back: \<open>jsonParse\<close> returns \<open>JSON_OK\<close> with \<open>*endptr\<close> behind the text, whatever follows the zero at its
  end, and the value read through the iterators is the tree, the numbers as \<open>string2double\<close> reads them.
\<close>

theorem json_roundtrip:
  assumes sp: "list_all isspace sp" and v: "printable v" and deep: "jdepth v \<le> 32"
  shows "\<exists>q st. jsonParse F (\<lambda>_. True) (json_text sp v @ NUL # r) = Inr (JSON_OK, Some q, st) \<and>
    j_endptr st = length (json_text sp v) \<and>
    (\<forall>k > jdepth v. read_json k (j_mem st) (j_heap st) q = Some (denote F v))"
proof -
  let ?s = "json_text sp v @ NUL # r"
  have "gets F \<lparr>a_rest = ?s, a_end = ?s, a_count = 0, a_stack = [], a_separator = True\<rparr> (denote F v) (NUL # r)"
    using sp v deep by (intro gets_text(1) [of sp]) (simp_all add: delimited_def isdelim_def)
  then have "parse_spec F (\<lambda>_. True) ?s = Inr (JSON_OK, Some (denote F v), NUL # r)"
    by (auto simp: gets_def parse_spec_def a_deliver_def finish_def)
  then show ?thesis
    using parse_refines [of F "\<lambda>_. True" ?s] by (auto simp: jdepth_denote)
qed

definition sample :: "number json" where
  "sample = Coll True
     [(Some ''n'', Coll False [(None, Num \<lparr>num_neg = True, num_int = ''12'', num_frac = Some ''5'', num_exp = None\<rparr>), (None, Nul)]),
      (Some [CHR 0x0A], Coll True [])]"

lemma json_roundtrip_witness:
  "\<exists>q st. jsonParse exact (\<lambda>_. True) (json_text '' '' sample @ NUL # []) = Inr (JSON_OK, Some q, st) \<and>
    j_endptr st = length (json_text '' '' sample) \<and>
    (\<forall>k > jdepth sample. read_json k (j_mem st) (j_heap st) q = Some (denote exact sample))"
  by (rule json_roundtrip) (simp_all add: sample_def isspace_def number_ok_def isdigit_def schar_def)

end
