(* ===== verification/Spec2Isabelle.thy ===== *)
theory Spec2Isabelle
  imports Main Agent_Run Trace_Log Fan_Task Nt_Service Nt_Process Http_Server Http_Fast Http_Listener Template_Load Game_Dealer Game_Json Json_Safe Json_Print
begin

text \<open>
  A verification library for the repository's own programs: the license agent (a service for
  Linux and for Windows), the two HTTP servers, the template engine and the card game server.

  \<^bold>\<open>The agent.\<close>  One process holds the configuration, two tasks on one-shot timers and the
  handlers of file events.  The license task fetches a license from the license manager on the
  update day and stores it; the killer task stops the client program on the check day when the
  license is missing or refused; the sink task looks at the license when the client program
  starts.  A change of the configuration file is read again and both tasks are rescheduled.

  \<^item> \<open>Agent_Prelude\<close>, \<open>Agent_Effects\<close>: strings, numbers as C reads and prints them; outcomes
    (a value, a C++ exception, undefined behaviour, no return), actions on a state, and their
    weakest preconditions, frames and results.  \<open>Agent_Constants\<close>, \<open>Agent_State\<close>: the constants
    of \<open>constants/\<close>, the state \<open>world\<close> of the agent and the parameters \<open>env\<close>.
  \<^item> \<open>Agent_Tools\<close>: \<open>tools/\<close> (paths, processes) and the message sender.
  \<^item> \<open>Ini_Config\<close>: \<open>parser/parser_ini.cpp\<close>.  \<open>Parser::init\<close> accepts exactly the acceptable files.
  \<^item> \<open>License_Client\<close>: \<open>client/client_license.cpp\<close>.  The retry loop ends with the first attempt
    that is not retried; what is returned answers the request.
  \<^item> \<open>License_Check\<close>: \<open>license/license_checker.cpp\<close>.  Verdicts, the machine uid, the license
    file, the dates in a license.
  \<^item> \<open>Timers\<close> (the interface \<open>self_scheduling\<close>), \<open>License_Task\<close>, \<open>Killer_Task\<close>, \<open>Sink_Task\<close>: the
    three tasks.  Which timers they set, which files they change, whom they signal.
  \<^item> \<open>Debounce\<close> (the interface \<open>debounced\<close>), \<open>Nx_Service\<close>: the Linux service of \<open>nx_service/\<close>.
    \<open>Agent_Run\<close>: the service at work, its timers, threads and file events one after the other;
    the options in force stay in range and each task keeps its timer, but for two causes.
  \<^item> \<open>Trace_Log\<close>: the logger of \<open>tracer/\<close> and its singleton.
  \<^item> \<open>Nt_Config\<close>, \<open>Nt_Service\<close>, \<open>Nt_Process\<close>: the Windows service of \<open>nt_service/\<close>: the watch
    over the directory, the service with its COM set-up, the command line.
  \<^item> \<open>Fan_Notify\<close>: the fanotify notificator of \<open>event_sink_linux/\<close>: the walk over the bytes the
    kernel wrote, and the descriptors opened and closed on the way; \<open>Fan_Task\<close>: its copy in
    \<open>nx_service/notificator_linux.cpp\<close>, a task whose \<open>close\<close> does nothing.

  \<^bold>\<open>The HTTP server on Asio (server/).\<close>  \<open>Chunked\<close> is the interface of a parser fed in
  pieces; \<open>Http_Parser\<close> the request parser and its invariant; \<open>Http_Grammar\<close> the text of a
  request and the round trip; \<open>Http_Reply\<close> replies, url decoding, the path guard and static
  files; \<open>Http_Form\<close> the parameters of a POST; \<open>Http_Server\<close> connections, the connection manager
  and the accept loop as a step relation over the completions of asynchronous operations.

  \<^bold>\<open>The HTTP server on Beast (http_server/).\<close>  \<open>Http_Beast\<close>: the request handler, the mime
  types and the life of a session; \<open>Http_Listener\<close>: the acceptor that starts the sessions;
  \<open>Http_Fast\<close>: the worker of \<open>http_server_fast.cpp\<close> as a machine over the completions of its
  operations and of its deadline, with a parser that is never made anew.

  \<^bold>\<open>The templates (template/).\<close>  \<open>Template_Lexer\<close> the tokenizer, \<open>Template_Tree\<close> dictionaries
  (interface \<open>dictionary_laws\<close>) and fragments, \<open>Template_Load\<close> the loading of a file with its
  includes and blocks.

  \<^bold>\<open>The card game (cpprest/).\<close>  \<open>Game_Hand\<close>: cards and hands of \<open>messagetypes.h\<close>, and what a hand is
  worth by the rules; \<open>Game_Json\<close>: its \<open>AsJSON\<close> and \<open>FromJSON\<close>; \<open>Game_Table\<close>: the table of \<open>Table.cpp\<close>
  (shoe, bets, turns, the dealer, the pay-out); \<open>Game_Play\<close>: the shoe as a permutation, the
  invariant \<open>table_ok\<close> kept by every request (\<open>pres\<close>), the round against the rules, and which
  requests are answered (\<open>gains\<close>); \<open>Game_Dealer\<close>: the tables and the four handlers of \<open>Dealer.cpp\<close>.
  Money is real, counters are unbounded, requests come one after the other.

  \<^bold>\<open>The JSON parser (tools/gason).\<close>  \<open>Json_Value\<close>: values in the bits of a NaN, the error codes and
  the allocator, whose blocks never overlap; \<open>Json_Lex\<close>: characters and \<open>string2double\<close>; \<open>Json_Unquote\<close>:
  strings decoded where they stand; \<open>Json_Parse\<close>: \<open>jsonParse\<close> with its stack, its rings of nodes and its
  memory.  \<open>Json_Spec\<close> is a parser on trees and unchanged text, \<open>Json_Nodes\<close> what it means that nodes
  represent a tree (each tree owns an interval of them) and the iterators, \<open>Json_Refine\<close> the
  refinement round by round; \<open>Json_Safe\<close>: where the parser reads, and what it accepts that is no
  JSON; \<open>Json_Print\<close>: printed trees and the round trip.

  \<^bold>\<open>Conventions.\<close>  A \<open>std::string\<close> is a list of 8-bit characters.  Text read as an \<open>int\<close> or a
  \<open>long\<close> wraps as \<open>atoi\<close> and \<open>atol\<close> do here.  Calls of ACE and of the operating system are
  appended to a journal in the state; the trace log is kept in the agent, console diagnostics
  (\<open>ACE_DEBUG\<close>, \<open>ACE_ERROR\<close>, \<open>std::cout\<close>) are not.  Undefined behaviour stops the model and says
  which kind it is.  The agent is modelled in the branches for Linux, but for the theories
  \<open>Nt_...\<close>, which use the same parser and tasks.

  \<^bold>\<open>Loops and fuel.\<close>  The retry loop of the client and the walk over the notification buffer
  are \<open>partial_function (option)\<close>: not returning is \<open>None\<close>, and theorems say when they return.
  \<open>load_recursive\<close> takes a depth, the number of files on the include stack; \<open>load_terminates\<close>
  shows that a depth above the length of every include chain gives the result, whatever the
  depth.  All other loops are total functions.

  \<^bold>\<open>Parameters.\<close>  The HTTP client, the JSON library of cpprest and the INI library, child
  processes, base64, the clock, the ACE reactor and option parser, COM and WMI, fanotify, Asio, Beast,
  \<open>boost::split\<close>, \<open>malloc\<close> and, for the JSON parser, the arithmetic of \<open>double\<close> are arguments of the
  definitions that use them.  Some theorems use documented behaviour of one as a hypothesis:
  \<open>splits\<close> of \<open>boost::split\<close>, \<open>documented_need_eof\<close> and \<open>documented_read\<close> of Beast, \<open>json_documented\<close>
  of the JSON values of cpprest, \<open>malloc_documented\<close>, what base64 gives for a date, the range of the
  random numbers of a shoe, and the absence of cycles in the files a loader gives.

  \<^bold>\<open>Not modelled.\<close>  \<open>main.cpp\<close>; \<open>service.h\<close>, which nothing includes;
  the programs of \<open>http_server/\<close> and its \<open>request_handler.cpp\<close>, which no build file names;
  \<open>http_client/\<close>; \<open>nx_service/initializer.cpp\<close>, \<open>event_sink_win/\<close> and \<open>get_license_task_1.cpp\<close>,
  copies of modelled code.  \<open>cpprest/\<close> besides the card game is third-party
  code.  Threads of the agent run one after the other in the
  model; data races between them are not considered.
\<close>

end
